(* ===== verification/Prelude.thy ===== *)
theory Prelude
  imports "HOL-Library.Word" "HOL-Library.Monad_Syntax"
begin

text \<open>
  Shared vocabulary of the development: the machine integers of the Cortex-M3 target,
  byte buffers with checked access, and the list and word facts the components use.

  The C runtime works in place on NUL-terminated byte strings.  A block of memory is a
  list of bytes and a pointer into it is an index; reading or writing outside the block
  is undefined behaviour in C and yields \<^term>\<open>None\<close> here, so a theorem that an
  operation returns \<^term>\<open>Some\<close> includes that it never leaves its buffer.
\<close>

unbundle bit_operations_syntax

type_synonym u8 = "8 word"
type_synonym u16 = "16 word"
type_synonym u32 = "32 word"
type_synonym mem = "u8 list"
type_synonym rune = "u8 list"

named_theorems mem_simps \<open>evaluation of checked accesses on a buffer split at the access\<close>
named_theorems len_simps \<open>operations keep the length of the buffer\<close>

section \<open>Checked byte access\<close>

definition rd :: "mem \<Rightarrow> nat \<Rightarrow> u8 option" where
  "rd m p = (if p < length m then Some (m ! p) else None)"

definition wr :: "mem \<Rightarrow> nat \<Rightarrow> u8 \<Rightarrow> mem option" where
  "wr m p b = (if p < length m then Some (m[p := b]) else None)"

lemma rd_split [mem_simps]: "p = length xs \<Longrightarrow> rd (xs @ b # ys) p = Some b"
  by (simp add: rd_def nth_append)

lemma wr_split [mem_simps]: "p = length xs \<Longrightarrow> wr (xs @ b # ys) p c = Some (xs @ c # ys)"
  by (simp add: wr_def)

lemma rd_Some_iff: "rd m p = Some b \<longleftrightarrow> p < length m \<and> m ! p = b"
  by (auto simp: rd_def)

lemma rd_bound [dest]: "rd m p = Some b \<Longrightarrow> p < length m"
  by (simp add: rd_Some_iff)

lemma wr_length [len_simps]: "wr m p b = Some m' \<Longrightarrow> length m' = length m"
  by (auto simp: wr_def split: if_splits)

lemma wr_frame: "wr m p b = Some m' \<Longrightarrow> q \<noteq> p \<Longrightarrow> m' ! q = m ! q"
  by (auto simp: wr_def split: if_splits)

section \<open>Words\<close>

lemma not_bit_of_less:
  assumes "unat (w :: 'a::len word) < 2 ^ n" and "n \<le> k"
  shows "\<not> bit w k"
proof -
  from assms(1) have "take_bit n (unat w) = unat w"
    by (simp add: take_bit_nat_eq_self_iff)
  then have "bit (unat w) k \<Longrightarrow> k < n"
    by (metis bit_take_bit_iff)
  with assms(2) show ?thesis
    by (auto simp: bit_unsigned_iff possible_bit_def dest: bit_imp_le_length)
qed

lemma u8_no_bit [simp]: "8 \<le> k \<Longrightarrow> \<not> bit (b :: u8) k"
  using bit_imp_le_length [of b k] by auto

lemma not_bit_of_word_less:
  assumes "(w :: 'a::len word) < 2 ^ n" and "n < LENGTH('a)" and "n \<le> k"
  shows "\<not> bit w k"
proof -
  have "uint w < 2 ^ n" using assms(1,2) word_2p_lem [of n w] by (simp add: word_size)
  then have "int (unat w) < int (2 ^ n)" by simp
  then have "unat w < 2 ^ n" by (simp only: of_nat_less_iff)
  then show ?thesis using assms(3) by (rule not_bit_of_less)
qed

lemma u8_u16_inj: "(ucast (x :: u8) :: u16) = ucast y \<longleftrightarrow> x = y"
proof
  assume "(ucast x :: u16) = ucast y"
  then have "ucast (ucast x :: u16) = (ucast (ucast y :: u16) :: u8)" by (rule arg_cong)
  then show "x = y" by (simp add: ucast_up_ucast_id is_up)
qed simp

text \<open>Equality of words bit by bit, with every bit position a numeral the simplifier evaluates.\<close>

lemma u16_eqI:
  fixes v w :: u16
  assumes "bit v 0 = bit w 0" "bit v 1 = bit w 1" "bit v 2 = bit w 2" "bit v 3 = bit w 3"
    "bit v 4 = bit w 4" "bit v 5 = bit w 5" "bit v 6 = bit w 6" "bit v 7 = bit w 7"
    "bit v 8 = bit w 8" "bit v 9 = bit w 9" "bit v 10 = bit w 10" "bit v 11 = bit w 11"
    "bit v 12 = bit w 12" "bit v 13 = bit w 13" "bit v 14 = bit w 14" "bit v 15 = bit w 15"
  shows "v = w"
proof (rule bit_word_eqI)
  fix n assume "n < LENGTH(16)"
  then have "n < 16" by simp
  then have "n \<in> set [0..<16]" by simp
  then show "bit v n = bit w n" using assms by (simp add: upt_rec numeral_eq_Suc) (elim disjE; simp)
qed

section \<open>Lists of blocks\<close>

lemma nth_concat_blocks:
  assumes "\<forall>b \<in> set bs. length b = n" and "i < length bs" and "j < n"
  shows "concat bs ! (n * i + j) = bs ! i ! j"
  using assms
proof (induction bs arbitrary: i)
  case (Cons b bs)
  then show ?case by (cases i) (auto simp: nth_append)
qed simp

lemma length_concat_blocks: "\<forall>b \<in> set bs. length b = n \<Longrightarrow> length (concat bs) = n * length bs"
  by (induction bs) auto

section \<open>Options\<close>

lemma bind_Some_iff: "(Option.bind x f = Some y) = (\<exists>z. x = Some z \<and> f z = Some y)"
  by (rule bind_eq_Some_conv)

end
