(* ===== verification/Utf8.thy ===== *)
theory Utf8
  imports Prelude
begin

text \<open>
  The UTF-8 codec of the runtime (\<^verbatim>\<open>runtime/utf8.c\<close>): \<open>read_utf8\<close> decodes the rune at a
  pointer and advances it, \<open>write_utf8\<close> stores a two-byte rune.
\<close>

section \<open>The code\<close>

text \<open>The \<^verbatim>\<open>switch\<close> on the lead byte: how many continuation bytes follow.\<close>

definition utf8_ct :: "u16 \<Rightarrow> nat" where
  "utf8_ct codept =
     (let n = drop_bit 4 codept in
      if n = 0xF then 3
      else if n = 0xE then 2
      else if n = 0xC \<or> n = 0xD then 1
      else 0)"

text \<open>\<^verbatim>\<open>(~0b11110000000) >> ct\<close> is computed in 32-bit signed arithmetic, then cut to 16 bits.\<close>

definition utf8_mask :: "nat \<Rightarrow> u16" where
  "utf8_mask ct = ucast (signed_drop_bit ct (NOT 0b11110000000 :: u32))"

text \<open>\<^verbatim>\<open>while (ct--)\<close>\<close>

fun read_cont :: "mem \<Rightarrow> nat \<Rightarrow> u16 \<Rightarrow> nat \<Rightarrow> (u16 \<times> nat) option" where
  "read_cont m 0 codept p = Some (codept, p)"
| "read_cont m (Suc ct) codept p = do {
     b \<leftarrow> rd m (p + 1);
     read_cont m ct (push_bit 6 codept OR (ucast b AND NOT 0b10000000)) (p + 1)
   }"

definition read_utf8 :: "mem \<Rightarrow> nat \<Rightarrow> (u16 \<times> nat) option" where
  "read_utf8 m p = do {
     b \<leftarrow> rd m p;
     let codept = ucast b;
     let ct = utf8_ct codept;
     (codept, p) \<leftarrow> read_cont m ct (codept AND utf8_mask ct) p;
     Some (codept, p + 1)
   }"

definition write_utf8 :: "mem \<Rightarrow> nat \<Rightarrow> u16 \<Rightarrow> mem option" where
  "write_utf8 m p codept = do {
     m \<leftarrow> wr m p (ucast (0b11000000 OR drop_bit 6 codept));
     wr m (p + 1) (ucast (0b10000000 OR (codept AND 0b111111)))
   }"

section \<open>Runes\<close>

text \<open>
  What the decoder regards as one rune: a lead byte, whose high nibble fixes the length,
  and as many further bytes.
\<close>

definition rune_len :: "u8 \<Rightarrow> nat" where
  "rune_len b = Suc (utf8_ct (ucast b))"

definition rune_ok :: "rune \<Rightarrow> bool" where
  "rune_ok r \<longleftrightarrow> r \<noteq> [] \<and> length r = rune_len (hd r)"

definition rune_cp :: "rune \<Rightarrow> u16" where
  "rune_cp r = fold (\<lambda>b c. push_bit 6 c OR (ucast b AND NOT 0b10000000)) (tl r)
                 (ucast (hd r) AND utf8_mask (utf8_ct (ucast (hd r))))"

definition enc2 :: "u16 \<Rightarrow> rune" where
  "enc2 c = [ucast (0b11000000 OR drop_bit 6 c), ucast (0b10000000 OR (c AND 0b111111))]"

lemma length_enc2 [simp]: "length (enc2 c) = 2"
  by (simp add: enc2_def)

lemma read_cont_split:
  "read_cont (xs @ b # cs @ ys) (length cs) c (length xs)
     = Some (fold (\<lambda>b c. push_bit 6 c OR (ucast b AND NOT 0b10000000)) cs c, length xs + length cs)"
proof (induction cs arbitrary: xs b c)
  case Nil
  show ?case by simp
next
  case (Cons d cs)
  have "rd (xs @ b # (d # cs) @ ys) (length xs + 1) = Some d"
    using rd_split [of "length xs + 1" "xs @ [b]" d "cs @ ys"] by simp
  moreover note Cons.IH [of "xs @ [b]" d]
  ultimately show ?case by simp
qed

lemma read_utf8_rune [mem_simps]:
  assumes "rune_ok r" and "p = length xs"
  shows "read_utf8 (xs @ r @ ys) p = Some (rune_cp r, p + length r)"
proof -
  from assms(1) obtain b cs where r: "r = b # cs" and l: "length cs = utf8_ct (ucast b)"
    by (cases r) (auto simp: rune_ok_def rune_len_def)
  show ?thesis
    using read_cont_split [of xs b cs ys] assms(2)
    by (simp add: read_utf8_def r rd_split l [symmetric] rune_cp_def Let_def)
qed

lemma write_utf8_rune [mem_simps]:
  assumes "length r = 2" and "p = length xs"
  shows "write_utf8 (xs @ r @ ys) p c = Some (xs @ enc2 c @ ys)"
proof -
  obtain b d where r: "r = [b, d]"
    using assms(1) by (auto simp: length_Suc_conv numeral_2_eq_2)
  have "wr (xs @ ucast (0b11000000 OR drop_bit 6 c) # d # ys) (p + 1) e
          = Some (xs @ ucast (0b11000000 OR drop_bit 6 c) # e # ys)" for e
    using wr_split [of "p + 1" "xs @ [ucast (0b11000000 OR drop_bit 6 c)]" d ys] assms(2) by simp
  then show ?thesis
    using assms(2) by (simp only: write_utf8_def r enc2_def wr_split append_Cons append_Nil bind.bind_lunit)
qed

lemma write_utf8_length [len_simps]: "write_utf8 m p c = Some m' \<Longrightarrow> length m' = length m"
  by (auto simp: write_utf8_def bind_Some_iff dest!: wr_length)

lemma read_cont_advance: "read_cont m ct c p = Some (c', p') \<Longrightarrow> p' = p + ct \<and> (ct > 0 \<longrightarrow> p' < length m)"
  by (induction m ct c p rule: read_cont.induct) (fastforce simp: bind_Some_iff)+

lemma read_utf8_advance: "read_utf8 m p = Some (c, p') \<Longrightarrow> p < p' \<and> p' \<le> length m"
  by (auto simp: read_utf8_def bind_Some_iff Let_def dest!: read_cont_advance rd_bound
      split: prod.splits)

section \<open>Bits\<close>

lemma utf8_mask_values [simp]:
  "utf8_mask 0 = 0xF87F" "utf8_mask (Suc 0) = 0xFC3F" "utf8_mask 2 = 0xFE1F" "utf8_mask 3 = 0xFF0F"
  by (simp_all add: utf8_mask_def)

text \<open>The high nibble of a lead byte, hence the number of continuation bytes, per length class.\<close>

lemma utf8_ct_class:
  fixes b :: u8
  shows "\<not> bit b 7 \<Longrightarrow> utf8_ct (ucast b) = 0"
    and "bit b 7 \<Longrightarrow> bit b 6 \<Longrightarrow> \<not> bit b 5 \<Longrightarrow> utf8_ct (ucast b) = 1"
    and "bit b 7 \<Longrightarrow> bit b 6 \<Longrightarrow> bit b 5 \<Longrightarrow> \<not> bit b 4 \<Longrightarrow> utf8_ct (ucast b) = 2"
    and "bit b 7 \<Longrightarrow> bit b 6 \<Longrightarrow> bit b 5 \<Longrightarrow> bit b 4 \<Longrightarrow> utf8_ct (ucast b) = 3"
proof -
  have n: "drop_bit 4 (ucast b :: u16) = (if bit b 7 then 8 else 0) OR (if bit b 6 then 4 else 0)
             OR (if bit b 5 then 2 else 0) OR (if bit b 4 then 1 else 0)"
    by (rule u16_eqI) (auto simp: bit_simps)
  show "\<not> bit b 7 \<Longrightarrow> utf8_ct (ucast b) = 0"
    by (cases "bit b 6"; cases "bit b 5"; cases "bit b 4"; simp add: utf8_ct_def n)
  show "bit b 7 \<Longrightarrow> bit b 6 \<Longrightarrow> \<not> bit b 5 \<Longrightarrow> utf8_ct (ucast b) = 1"
    by (cases "bit b 4"; simp add: utf8_ct_def n)
  show "bit b 7 \<Longrightarrow> bit b 6 \<Longrightarrow> bit b 5 \<Longrightarrow> \<not> bit b 4 \<Longrightarrow> utf8_ct (ucast b) = 2"
    by (simp add: utf8_ct_def n)
  show "bit b 7 \<Longrightarrow> bit b 6 \<Longrightarrow> bit b 5 \<Longrightarrow> bit b 4 \<Longrightarrow> utf8_ct (ucast b) = 3"
    by (simp add: utf8_ct_def n)
qed

lemma rune_ok_enc2:
  assumes "unat c < 0x800"
  shows "rune_ok (enc2 c)"
proof -
  have b: "\<And>k. 11 \<le> k \<Longrightarrow> \<not> bit c k" using assms not_bit_of_less [of c 11] by simp
  have "utf8_ct (ucast (hd (enc2 c))) = 1"
    by (rule utf8_ct_class(2)) (simp_all add: enc2_def bit_simps b)
  then show ?thesis by (simp add: rune_ok_def rune_len_def enc2_def)
qed

lemma rune_cp_enc2:
  assumes "unat c < 0x800"
  shows "rune_cp (enc2 c) = c"
proof -
  have b: "\<And>k. 11 \<le> k \<Longrightarrow> \<not> bit c k" using assms not_bit_of_less [of c 11] by simp
  have "utf8_ct (ucast (hd (enc2 c))) = 1"
    by (rule utf8_ct_class(2)) (simp_all add: enc2_def bit_simps b)
  then show ?thesis
    by (intro u16_eqI) (simp_all add: rune_cp_def enc2_def bit_simps b)
qed

section \<open>The standard encoding\<close>

text \<open>
  UTF-8 as RFC 3629 defines it, for every code point up to 0x10FFFF: the reference the
  decoder is compared with.
\<close>

definition utf8 :: "u32 \<Rightarrow> rune" where
  "utf8 c =
     (if c < 0x80 then [ucast c]
      else if c < 0x800 then [0xC0 OR ucast (drop_bit 6 c), 0x80 OR ucast (c AND 0x3F)]
      else if c < 0x10000 then
        [0xE0 OR ucast (drop_bit 12 c), 0x80 OR ucast (drop_bit 6 c AND 0x3F),
         0x80 OR ucast (c AND 0x3F)]
      else
        [0xF0 OR ucast (drop_bit 18 c), 0x80 OR ucast (drop_bit 12 c AND 0x3F),
         0x80 OR ucast (drop_bit 6 c AND 0x3F), 0x80 OR ucast (c AND 0x3F)])"

lemma utf8_rune:
  assumes "c < 0x110000"
  shows "rune_ok (utf8 c) \<and> rune_cp (utf8 c) = ucast c"
proof -
  note nb = not_bit_of_word_less [of c]
  consider (one) "c < 0x80" | (two) "\<not> c < 0x80" "c < 0x800"
    | (three) "\<not> c < 0x80" "\<not> c < 0x800" "c < 0x10000"
    | (four) "\<not> c < 0x80" "\<not> c < 0x800" "\<not> c < 0x10000"
    by blast
  then show ?thesis
  proof cases
    case one
    have b: "\<And>k. 7 \<le> k \<Longrightarrow> \<not> bit c k" using one nb [of 7] by simp
    have l: "utf8_ct (ucast (ucast c :: u8)) = 0" by (rule utf8_ct_class) (simp add: bit_simps b)
    have "rune_cp [ucast c] = ucast c"
      using l by (intro u16_eqI) (simp_all add: rune_cp_def bit_simps b)
    with one l show ?thesis by (simp add: utf8_def rune_ok_def rune_len_def)
  next
    case two
    have b: "\<And>k. 11 \<le> k \<Longrightarrow> \<not> bit c k" using two nb [of 11] by simp
    have l: "utf8_ct (ucast (0xC0 OR ucast (drop_bit 6 c) :: u8)) = 1"
      by (rule utf8_ct_class) (simp_all add: bit_simps b)
    have "rune_cp (utf8 c) = ucast c"
      using l two by (intro u16_eqI) (simp_all add: utf8_def rune_cp_def bit_simps b)
    with two l show ?thesis by (simp add: utf8_def rune_ok_def rune_len_def)
  next
    case three
    have b: "\<And>k. 16 \<le> k \<Longrightarrow> \<not> bit c k" using three nb [of 16] by simp
    have l: "utf8_ct (ucast (0xE0 OR ucast (drop_bit 12 c) :: u8)) = 2"
      by (rule utf8_ct_class) (simp_all add: bit_simps b)
    have "rune_cp (utf8 c) = ucast c"
      using l three by (intro u16_eqI) (simp_all add: utf8_def rune_cp_def bit_simps b)
    with three l show ?thesis by (simp add: utf8_def rune_ok_def rune_len_def)
  next
    case four
    have "c < 2 ^ 21" using assms by (rule order.strict_trans) simp
    then have b: "\<And>k. 21 \<le> k \<Longrightarrow> \<not> bit c k" using nb [of 21] by simp
    have l: "utf8_ct (ucast (0xF0 OR ucast (drop_bit 18 c) :: u8)) = 3"
      by (rule utf8_ct_class) (simp_all add: bit_simps b)
    have "rune_cp (utf8 c) = ucast c"
      using l four by (intro u16_eqI) (simp_all add: utf8_def rune_cp_def bit_simps b)
    with four l show ?thesis by (simp add: utf8_def rune_ok_def rune_len_def)
  qed
qed

text \<open>On its range the two-byte encoder agrees with the standard.\<close>

lemma enc2_utf8:
  assumes "0x80 \<le> c" "c < 0x800"
  shows "utf8 (ucast c) = enc2 c"
proof -
  have "unat c < 2 ^ 32" using unsigned_less [of c, where ?'a = nat] by simp
  then have n: "unat (ucast c :: u32) = unat c" by (simp add: unsigned_ucast_eq take_bit_nat_eq_self)
  have u: "\<not> (ucast c :: u32) < 0x80" "(ucast c :: u32) < 0x800"
    using assms by (simp_all add: word_less_nat_alt word_le_nat_alt n)
  have b: "\<And>k. 11 \<le> k \<Longrightarrow> \<not> bit c k" using assms(2) not_bit_of_word_less [of c 11] by simp
  show ?thesis
    using u by (auto simp: utf8_def enc2_def bit_eq_iff bit_simps b)
qed

end
