(* ===== verification/Tables.thy ===== *)
theory Tables
  imports Utf8
begin

text \<open>
  The tables the text shaper runs on, and the searches through them: the first half of
  \<^verbatim>\<open>runtime/text_shaper.c\<close>.  The tables themselves (\<^verbatim>\<open>text_shaper_lut.c\<close>, \<^verbatim>\<open>font_ranges.c\<close>) are
  written by the build, so they are a parameter \<open>T\<close> of everything that reads them; the
  theory \<open>Lut_Gen\<close> models the scripts that write them.
\<close>

section \<open>Layout\<close>

text \<open>
  \<open>past_buffer\<close> is not a table: it stands for the stack cell after \<^verbatim>\<open>codept_buffer[2]\<close>, which
  \<open>find_ligature_by_codepts\<close> reads before it compares the index with the size.
\<close>

record tables =
  ARABIC_SHAPER_LUT :: "u8 list"
  ARABIC_LIGATURE_LUT :: "u8 list"
  ARABIC_SHAPER_RANGE :: "u16 \<Rightarrow> bool"
  is_zero_width :: "u16 \<Rightarrow> bool"
  ZERO_WIDTH_CODEPT :: u16
  past_buffer :: u16

datatype ShaperState = STATE_INITIAL | STATE_MEDIAL

record ShaperLUTEntry =
  true_codept :: u16
  isolated_codept :: u16
  initial_codept_delta :: u8
  medial_codept_delta :: u8
  final_codept_delta :: u8

definition LIG_REPLACEMENT_CODEPT_MASK :: u16 where
  "LIG_REPLACEMENT_CODEPT_MASK = push_bit 15 1"

definition RUNE_SIZE :: nat where
  "RUNE_SIZE = 2"

definition le16 :: "u8 \<Rightarrow> u8 \<Rightarrow> u16" where
  "le16 lo hi = ucast lo OR push_bit 8 (ucast hi)"

text \<open>\<^verbatim>\<open>(ShaperLUTEntry *)ARABIC_SHAPER_LUT\<close>: packed entries of seven bytes, little endian.\<close>

definition lut_at :: "u8 list \<Rightarrow> nat \<Rightarrow> ShaperLUTEntry" where
  "lut_at bs i =
     \<lparr>true_codept = le16 (bs ! (7 * i)) (bs ! (7 * i + 1)),
      isolated_codept = le16 (bs ! (7 * i + 2)) (bs ! (7 * i + 3)),
      initial_codept_delta = bs ! (7 * i + 4),
      medial_codept_delta = bs ! (7 * i + 5),
      final_codept_delta = bs ! (7 * i + 6)\<rparr>"

definition shaper_lut :: "tables \<Rightarrow> ShaperLUTEntry list" where
  "shaper_lut T = map (lut_at (ARABIC_SHAPER_LUT T)) [0..<length (ARABIC_SHAPER_LUT T) div 7]"

text \<open>\<^verbatim>\<open>(uint16_t *)ARABIC_LIGATURE_LUT\<close>\<close>

definition ligature_lut :: "tables \<Rightarrow> u16 list" where
  "ligature_lut T =
     map (\<lambda>i. le16 (ARABIC_LIGATURE_LUT T ! (2 * i)) (ARABIC_LIGATURE_LUT T ! (2 * i + 1)))
       [0..<length (ARABIC_LIGATURE_LUT T) div 2]"

text \<open>
  \<^verbatim>\<open>isolated_codept + ..._delta\<close> is an \<^verbatim>\<open>int\<close>: compared as such in \<open>find_base_codept_by_shaped\<close>,
  cut to 16 bits when passed to \<open>write_utf8\<close>.
\<close>

definition shifted :: "ShaperLUTEntry \<Rightarrow> u8 \<Rightarrow> int" where
  "shifted e delta = uint (isolated_codept e) + sint delta"

section \<open>Searches\<close>

definition find_lut_entry_by_codept :: "tables \<Rightarrow> u16 \<Rightarrow> ShaperLUTEntry option" where
  "find_lut_entry_by_codept T codept =
     (if codept < 0x600 \<and> codept > 0x6FF then None
      else find (\<lambda>e. true_codept e = codept) (shaper_lut T))"

definition find_base_codept_by_shaped :: "tables \<Rightarrow> u16 \<Rightarrow> u16" where
  "find_base_codept_by_shaped T codept =
     (case find (\<lambda>e. isolated_codept e = codept \<or>
                     shifted e (initial_codept_delta e) = uint codept \<or>
                     shifted e (medial_codept_delta e) = uint codept \<or>
                     shifted e (final_codept_delta e) = uint codept) (shaper_lut T) of
        None \<Rightarrow> 0
      | Some e \<Rightarrow> true_codept e)"

text \<open>
  The loop of \<open>find_ligature_by_codepts\<close>: \<open>rp k\<close> is \<^verbatim>\<open>pattern[k]\<close>, evaluated before the bound
  on \<open>k\<close> is tested, as the source does.
\<close>

fun lig_scan :: "(nat \<Rightarrow> u16) \<Rightarrow> nat \<Rightarrow> bool \<Rightarrow> nat \<Rightarrow> u16 list \<Rightarrow> u16" where
  "lig_scan rp n searching k [] = 0"
| "lig_scan rp n searching k (x # xs) =
     (if searching then
        if x = rp k \<and> k < n then lig_scan rp n True (k + 1) xs
        else if x AND LIG_REPLACEMENT_CODEPT_MASK \<noteq> 0
        then x AND NOT LIG_REPLACEMENT_CODEPT_MASK
        else lig_scan rp n False 0 xs
      else if x AND LIG_REPLACEMENT_CODEPT_MASK \<noteq> 0 then lig_scan rp n True k xs
      else lig_scan rp n False k xs)"

definition find_ligature_by_codepts :: "tables \<Rightarrow> u16 list \<Rightarrow> nat \<Rightarrow> u16" where
  "find_ligature_by_codepts T pattern pattern_size =
     lig_scan (\<lambda>k. if k < length pattern then pattern ! k else past_buffer T)
       pattern_size True 0 (ligature_lut T)"

text \<open>
  \<open>expand_ligature\<close>: the outer loop looks for the replacement code point, the inner one
  writes the pattern before it, ending at \<open>p\<close>.  Running off the array is undefined.
\<close>

fun write_pattern :: "mem \<Rightarrow> nat \<Rightarrow> u16 list \<Rightarrow> mem option" where
  "write_pattern m p [] = None"
| "write_pattern m p (x # xs) =
     (if x AND LIG_REPLACEMENT_CODEPT_MASK \<noteq> 0 then Some m
      else do { m \<leftarrow> write_utf8 m p x; write_pattern m (p + RUNE_SIZE) xs })"

fun expand_scan :: "u16 list \<Rightarrow> u16 \<Rightarrow> nat \<Rightarrow> nat \<Rightarrow> nat \<Rightarrow> nat \<Rightarrow> mem \<Rightarrow> (bool \<times> mem) option" where
  "expand_scan lut codept p i 0 last_pattern_start m = Some (False, m)"
| "expand_scan lut codept p i (Suc left) last_pattern_start m =
     (if lut ! i AND LIG_REPLACEMENT_CODEPT_MASK \<noteq> 0 then
        if lut ! i AND NOT LIG_REPLACEMENT_CODEPT_MASK = codept then
          let q = int p - int RUNE_SIZE * (int i - int last_pattern_start - 1) in
          if q < 0 then None
          else do {
            m \<leftarrow> write_pattern m (nat q) (drop last_pattern_start lut);
            Some (True, m)
          }
        else expand_scan lut codept p (i + 1) left (i + 1) m
      else expand_scan lut codept p (i + 1) left last_pattern_start m)"

definition expand_ligature :: "tables \<Rightarrow> mem \<Rightarrow> u16 \<Rightarrow> nat \<Rightarrow> (bool \<times> mem) option" where
  "expand_ligature T m codept p =
     expand_scan (ligature_lut T) codept p 0 (length (ligature_lut T)) 0 m"

section \<open>Lookup of letters\<close>

text \<open>The range test at the head of the lookup can never succeed.\<close>

lemma find_lut_entry_eq:
  "find_lut_entry_by_codept T c = find (\<lambda>e. true_codept e = c) (shaper_lut T)"
  using order.strict_trans [of "0x6FF" c "0x600"] by (auto simp: find_lut_entry_by_codept_def)

lemma find_lut_entry_Some:
  "find_lut_entry_by_codept T c = Some e \<Longrightarrow> e \<in> set (shaper_lut T) \<and> true_codept e = c"
  by (auto simp: find_lut_entry_eq find_Some_iff)

section \<open>Lookup of ligatures\<close>

text \<open>
  The table read as its generator lays it out: two letters, then the replacement with its
  top bit set.
\<close>

type_synonym ligature = "u16 \<times> u16 \<times> u16"

definition lig_flat :: "ligature list \<Rightarrow> u16 list" where
  "lig_flat ls = concat (map (\<lambda>(a, b, r). [a, b, r OR LIG_REPLACEMENT_CODEPT_MASK]) ls)"

definition lig_entry_ok :: "ligature \<Rightarrow> bool" where
  "lig_entry_ok l = (case l of (a, b, r) \<Rightarrow> a < 0x800 \<and> b < 0x800 \<and> r < 0x800 \<and> a \<noteq> 0 \<and> b \<noteq> 0 \<and> r \<noteq> 0)"

definition lig_lookup :: "ligature list \<Rightarrow> u16 \<Rightarrow> u16 \<Rightarrow> u16" where
  "lig_lookup ls x y =
     (case find (\<lambda>(a, b, _). a = x \<and> b = y) ls of None \<Rightarrow> 0 | Some (_, _, r) \<Rightarrow> r)"

lemma mask_bits:
  "x < 0x800 \<Longrightarrow> x AND LIG_REPLACEMENT_CODEPT_MASK = 0"
  "(x OR LIG_REPLACEMENT_CODEPT_MASK) AND LIG_REPLACEMENT_CODEPT_MASK \<noteq> 0"
  "x < 0x800 \<Longrightarrow> (x OR LIG_REPLACEMENT_CODEPT_MASK) AND NOT LIG_REPLACEMENT_CODEPT_MASK = x"
proof -
  have m: "LIG_REPLACEMENT_CODEPT_MASK = 0x8000" by (simp add: LIG_REPLACEMENT_CODEPT_MASK_def)
  have b: "\<not> bit x k" if "x < 0x800" "11 \<le> k" for k
    using that not_bit_of_word_less [of x 11 k] by simp
  show "x < 0x800 \<Longrightarrow> x AND LIG_REPLACEMENT_CODEPT_MASK = 0"
    unfolding m by (rule u16_eqI) (simp_all add: bit_simps b)
  show "x < 0x800 \<Longrightarrow> (x OR LIG_REPLACEMENT_CODEPT_MASK) AND NOT LIG_REPLACEMENT_CODEPT_MASK = x"
    unfolding m by (rule u16_eqI) (simp_all add: bit_simps b)
  have "bit ((x OR 0x8000) AND 0x8000) 15" by (simp add: bit_simps)
  then show "(x OR LIG_REPLACEMENT_CODEPT_MASK) AND LIG_REPLACEMENT_CODEPT_MASK \<noteq> 0"
    unfolding m by force
qed

lemma mask_nonzero [simp]: "LIG_REPLACEMENT_CODEPT_MASK \<noteq> 0"
  by (simp add: LIG_REPLACEMENT_CODEPT_MASK_def)

lemma lig_scan_flat:
  assumes "\<forall>l \<in> set ls. lig_entry_ok l"
  shows "lig_scan rp 2 True 0 (lig_flat ls) = lig_lookup ls (rp 0) (rp 1)"
  using assms
proof (induction ls)
  case Nil
  show ?case by (simp add: lig_flat_def lig_lookup_def)
next
  case (Cons l ls)
  obtain a b r where l: "l = (a, b, r)" by (cases l)
  from Cons.prems have ok: "a < 0x800" "b < 0x800" "r < 0x800" by (auto simp: l lig_entry_ok_def)
  note bits = mask_bits(1) [OF ok(1)] mask_bits(1) [OF ok(2)] mask_bits(2) mask_bits(3) [OF ok(3)]
  have flat: "lig_flat ((a, b, r) # ls) = a # b # (r OR LIG_REPLACEMENT_CODEPT_MASK) # lig_flat ls"
    by (simp add: lig_flat_def)
  have IH: "lig_scan rp 2 True 0 (lig_flat ls) = lig_lookup ls (rp 0) (rp 1)"
    using Cons by simp
  show ?case
  proof (cases "a = rp 0 \<and> b = rp 1")
    case True
    then show ?thesis using flat bits by (simp add: lig_lookup_def l)
  next
    case False
    then show ?thesis
      using flat bits IH by (cases "a = rp 0") (auto simp: lig_lookup_def l)
  qed
qed

lemma find_ligature_flat:
  assumes "ligature_lut T = lig_flat ls" and "\<forall>l \<in> set ls. lig_entry_ok l"
  shows "find_ligature_by_codepts T [x, y] 2 = lig_lookup ls x y"
  using lig_scan_flat [OF assms(2)] by (simp add: find_ligature_by_codepts_def assms(1))

lemma lig_lookup_entry:
  "lig_lookup ls x y \<noteq> 0 \<Longrightarrow> (x, y, lig_lookup ls x y) \<in> set ls"
  by (induction ls) (auto simp: lig_lookup_def split: if_splits)

section \<open>Expansion of ligatures\<close>

definition lig_parts :: "ligature list \<Rightarrow> u16 \<Rightarrow> (u16 \<times> u16) option" where
  "lig_parts ls c = map_option (\<lambda>(a, b, _). (a, b)) (find (\<lambda>(_, _, r). r = c) ls)"

lemma lig_flat_simps [simp]:
  "lig_flat [] = []"
  "lig_flat ((a, b, r) # ls) = a # b # (r OR LIG_REPLACEMENT_CODEPT_MASK) # lig_flat ls"
  by (simp_all add: lig_flat_def)

lemma lig_parts_simps [simp]:
  "lig_parts [] c = None"
  "lig_parts ((a, b, r) # ls) c = (if r = c then Some (a, b) else lig_parts ls c)"
  by (simp_all add: lig_parts_def)

lemma write_pattern_pair:
  assumes "a < 0x800" "b < 0x800" and "length r1 = 2" "length r2 = 2" and "q = length xs"
  shows "write_pattern (xs @ r1 @ r2 @ ys) q (a # b # (r OR LIG_REPLACEMENT_CODEPT_MASK) # zs)
           = Some (xs @ enc2 a @ enc2 b @ ys)"
proof -
  have "write_utf8 (xs @ r1 @ r2 @ ys) q a = Some (xs @ enc2 a @ r2 @ ys)"
    using write_utf8_rune [of r1 q xs "r2 @ ys"] assms by simp
  moreover have "write_utf8 (xs @ enc2 a @ r2 @ ys) (q + 2) b = Some (xs @ enc2 a @ enc2 b @ ys)"
    using write_utf8_rune [of r2 "q + 2" "xs @ enc2 a" ys] assms by simp
  ultimately show ?thesis
    using mask_bits(1) [OF assms(1)] mask_bits(1) [OF assms(2)] mask_bits(2) [of r]
    by (simp add: RUNE_SIZE_def)
qed

text \<open>
  Scanning from an entry boundary: three cells per entry, of which only the third has the
  top bit set.
\<close>

lemma expand_scan_entry:
  assumes "lig_entry_ok (a, b, r)"
  shows "expand_scan (pre @ a # b # (r OR LIG_REPLACEMENT_CODEPT_MASK) # zs) c p (length pre)
             (Suc (Suc (Suc n))) (length pre) m =
           (if r = c then
              if p < 2 then None
              else map_option (Pair True) (write_pattern m (p - 2)
                     (a # b # (r OR LIG_REPLACEMENT_CODEPT_MASK) # zs))
            else expand_scan (pre @ a # b # (r OR LIG_REPLACEMENT_CODEPT_MASK) # zs) c p
                   (length pre + 3) n (length pre + 3) m)"
proof -
  from assms have ok: "a < 0x800" "b < 0x800" "r < 0x800" by (auto simp: lig_entry_ok_def)
  let ?M = LIG_REPLACEMENT_CODEPT_MASK
  note bits = mask_bits(1) [OF ok(1)] mask_bits(1) [OF ok(2)] mask_bits(2) mask_bits(3) [OF ok(3)]
  have cells: "(pre @ a # b # x # zs) ! length pre = a" "(pre @ a # b # x # zs) ! Suc (length pre) = b"
    "(pre @ a # b # x # zs) ! Suc (Suc (length pre)) = x" for x
    by (simp_all add: nth_append)
  have q: "nat (int p - 2) = p - 2" "int p - 2 < 0 \<longleftrightarrow> p < 2" by linarith+
  show ?thesis
    by (simp add: cells bits RUNE_SIZE_def Let_def q numeral_3_eq_3 map_conv_bind_option comp_def)
qed

declare expand_scan.simps(2) [simp del] write_pattern.simps(2) [simp del]

lemma expand_scan_flat:
  assumes "\<forall>l \<in> set ls. lig_entry_ok l"
    and m: "m = xs @ r1 @ r2 @ ys" "length r1 = 2" "length r2 = 2" "p = length xs + 2"
  shows "expand_scan (pre @ lig_flat ls) c p (length pre) (length (lig_flat ls)) (length pre) m
     = Some (case lig_parts ls c of
         None \<Rightarrow> (False, m) | Some (a, b) \<Rightarrow> (True, xs @ enc2 a @ enc2 b @ ys))"
  using assms(1)
proof (induction ls arbitrary: pre)
  case Nil
  show ?case by simp
next
  case (Cons l ls)
  obtain a b r where l: "l = (a, b, r)" by (cases l)
  from Cons.prems have ok: "lig_entry_ok (a, b, r)" by (simp add: l)
  then have ab: "a < 0x800" "b < 0x800" by (auto simp: lig_entry_ok_def)
  note IH = Cons.IH [of "pre @ [a, b, r OR LIG_REPLACEMENT_CODEPT_MASK]"]
  have w: "write_pattern m (p - 2) (a # b # (r OR LIG_REPLACEMENT_CODEPT_MASK) # lig_flat ls)
      = Some (xs @ enc2 a @ enc2 b @ ys)"
    using write_pattern_pair [OF ab m(2,3)] m(1,4) by simp
  show ?case
    using IH Cons.prems w m(4) by (auto simp: l expand_scan_entry [OF ok] numeral_3_eq_3)
qed

lemma expand_ligature_flat:
  assumes "ligature_lut T = lig_flat ls" and "\<forall>l \<in> set ls. lig_entry_ok l"
    and "length r1 = 2" "length r2 = 2" and "p = length xs + 2"
  shows "expand_ligature T (xs @ r1 @ r2 @ ys) c p
     = Some (case lig_parts ls c of
         None \<Rightarrow> (False, xs @ r1 @ r2 @ ys) | Some (a, b) \<Rightarrow> (True, xs @ enc2 a @ enc2 b @ ys))"
  using expand_scan_flat [OF assms(2) refl assms(3,4,5), of "[]"]
  by (simp add: expand_ligature_def assms(1))

text \<open>No ligature has the code point: the buffer is left alone, wherever the pointer is.\<close>

lemma expand_ligature_none:
  assumes "ligature_lut T = lig_flat ls" and "\<forall>l \<in> set ls. lig_entry_ok l"
    and "lig_parts ls c = None"
  shows "expand_ligature T m c p = Some (False, m)"
proof -
  have "expand_scan (pre @ lig_flat ls) c p (length pre) (length (lig_flat ls)) (length pre) m
      = Some (False, m)" for pre
    using assms(2,3)
  proof (induction ls arbitrary: pre)
    case (Cons l ls)
    obtain a b r where l: "l = (a, b, r)" by (cases l)
    from Cons.prems have ok: "lig_entry_ok (a, b, r)" by (simp add: l)
    note IH = Cons.IH [of "pre @ [a, b, r OR LIG_REPLACEMENT_CODEPT_MASK]"]
    show ?case
      using IH Cons.prems
      by (simp add: l expand_scan_entry [OF ok] numeral_3_eq_3 split: if_splits)
  qed simp
  from this [of "[]"] show ?thesis by (simp add: expand_ligature_def assms(1))
qed

end
