(* ===== verification/Ranges.thy ===== *)
theory Ranges
  imports Tables
begin

text \<open>
  Character classes (\<^verbatim>\<open>runtime/rtl_ranges.c\<close>, \<^verbatim>\<open>runtime/range.h\<close>) and the zero-width class, which
  \<^verbatim>\<open>fonts/compose.py\<close> writes out as \<^verbatim>\<open>font_ranges.c\<close>.
\<close>

section \<open>The code\<close>

definition RANGE :: "u16 \<Rightarrow> u16 \<Rightarrow> u16 \<Rightarrow> bool" where
  "RANGE cp start stop \<longleftrightarrow> cp \<ge> start \<and> cp < stop"

definition is_rtl :: "tables \<Rightarrow> u16 \<Rightarrow> bool" where
  "is_rtl T cp \<longleftrightarrow>
     RANGE cp 0x60E 0x660 \<or> RANGE cp 0x66D (0x6FF + 1) \<or> RANGE cp 0x750 (0x77F + 1) \<or>
     RANGE cp 0x590 0x600 \<or> ARABIC_SHAPER_RANGE T cp"

definition is_neutral :: "tables \<Rightarrow> u16 \<Rightarrow> bool" where
  "is_neutral T cp \<longleftrightarrow>
     RANGE cp 0x20 0x23 \<or> RANGE cp 0x26 0x30 \<or> RANGE cp 0x3A 0x41 \<or> RANGE cp 0x5B 0x61 \<or>
     RANGE cp 0x7B 0xA2 \<or> RANGE cp 0xA6 0xA7 \<or> RANGE cp 0xA8 0xB0 \<or> RANGE cp 0xB7 0xBF \<or>
     RANGE cp 0x600 0x60E \<or> is_zero_width T cp"

definition is_weak_ltr :: "u16 \<Rightarrow> bool" where
  "is_weak_ltr cp \<longleftrightarrow> RANGE cp 0x30 0x3A \<or> RANGE cp 0x660 0x66D"

text \<open>\<^verbatim>\<open>compose.py\<close>: the ranges of the diacritics the fonts render with no width.\<close>

definition ZERO_WIDTH_CODEPOINT_RANGES :: "(u16 \<times> u16) list" where
  "ZERO_WIDTH_CODEPOINT_RANGES =
     [(0x591, 0x5C0), (0x5C1, 0x5C3), (0x5C4, 0x5C6), (0x5C7, 0x5C8), (0x610, 0x61B),
      (0x64B, 0x660), (0x6D6, 0x6DC), (0x6DF, 0x6E9), (0x6EA, 0x6EE), (0x8B6, 0x8FF)]"

text \<open>The generated C function: a disjunction of range tests.\<close>

definition gen_is_zero_width :: "u16 \<Rightarrow> bool" where
  "gen_is_zero_width codept \<longleftrightarrow> (\<exists>r \<in> set ZERO_WIDTH_CODEPOINT_RANGES. RANGE codept (fst r) (snd r))"

text \<open>\<^verbatim>\<open>ZERO_WIDTH_CODEPOINTS[0]\<close>, the first code point of the first range.\<close>

definition gen_ZERO_WIDTH_CODEPT :: u16 where
  "gen_ZERO_WIDTH_CODEPT = fst (hd ZERO_WIDTH_CODEPOINT_RANGES)"

section \<open>The classes\<close>

lemmas range_defs = is_rtl_def is_neutral_def is_weak_ltr_def RANGE_def

lemma gen_is_zero_width_code:
  "gen_is_zero_width c \<longleftrightarrow>
     RANGE c 0x591 0x5C0 \<or> RANGE c 0x5C1 0x5C3 \<or> RANGE c 0x5C4 0x5C6 \<or> RANGE c 0x5C7 0x5C8 \<or>
     RANGE c 0x610 0x61B \<or> RANGE c 0x64B 0x660 \<or> RANGE c 0x6D6 0x6DC \<or> RANGE c 0x6DF 0x6E9 \<or>
     RANGE c 0x6EA 0x6EE \<or> RANGE c 0x8B6 0x8FF"
  by (simp add: gen_is_zero_width_def ZERO_WIDTH_CODEPOINT_RANGES_def)

lemma gen_zero_width_codept: "gen_ZERO_WIDTH_CODEPT = 0x591"
  by (simp add: gen_ZERO_WIDTH_CODEPT_def ZERO_WIDTH_CODEPOINT_RANGES_def)

end
