(* ===== verification/Shaper.thy ===== *)
theory Shaper
  imports Ranges
begin

text \<open>
  The contextual shaper \<open>shape_text\<close> of \<^verbatim>\<open>runtime/text_shaper.c\<close>: one pass over a string with one
  rune of lookahead, which overwrites every Arabic letter with the code point of its
  isolated, initial, medial or final form.
\<close>

section \<open>The code\<close>

text \<open>
  The local variables of \<open>shape_text\<close>.  A pointer is an offset into the buffer, \<^term>\<open>None\<close> when
  it is NULL or not yet initialised.
\<close>

record shaper =
  sh_buf :: mem
  sh_state :: ShaperState
  sh_ptr :: nat
  this_codept :: u16
  next_codept :: u16
  this_lut_entry :: "ShaperLUTEntry option"
  next_lut_entry :: "ShaperLUTEntry option"
  last_codept_ptr :: "nat option"
  this_codept_ptr :: "nat option"
  next_codept_ptr :: "nat option"
  late_finalize_ptr :: "nat option"
  late_finalize_lut_entry :: "ShaperLUTEntry option"
  ligature_span :: nat

definition shape_init :: "mem \<Rightarrow> nat \<Rightarrow> shaper" where
  "shape_init m p =
     \<lparr>sh_buf = m, sh_state = STATE_INITIAL, sh_ptr = p, this_codept = 0, next_codept = 0,
      this_lut_entry = None, next_lut_entry = None, last_codept_ptr = None,
      this_codept_ptr = None, next_codept_ptr = None, late_finalize_ptr = None,
      late_finalize_lut_entry = None, ligature_span = 0\<rparr>"

text \<open>A store through a pointer that may be NULL.\<close>

definition write_at :: "mem \<Rightarrow> nat option \<Rightarrow> u16 \<Rightarrow> mem option" where
  "write_at m p c = Option.bind p (\<lambda>p. write_utf8 m p c)"

definition form16 :: "ShaperLUTEntry \<Rightarrow> u8 \<Rightarrow> u16" where
  "form16 e delta = word_of_int (shifted e delta)"

text \<open>First half of the loop body: read forward one rune.\<close>

definition shape_read :: "tables \<Rightarrow> shaper \<Rightarrow> shaper option" where
  "shape_read T s0 =
     (let s = s0\<lparr>last_codept_ptr := this_codept_ptr s0, this_codept := next_codept s0,
                this_codept_ptr := next_codept_ptr s0, this_lut_entry := next_lut_entry s0\<rparr> in
      do {
        b \<leftarrow> rd (sh_buf s) (sh_ptr s);
        if b \<noteq> 0 then do {
          (c, p) \<leftarrow> read_utf8 (sh_buf s) (sh_ptr s);
          let lig_codept = find_ligature_by_codepts T [this_codept s, c] 2;
          let c = (if lig_codept \<noteq> 0 then lig_codept else c);
          Some (s\<lparr>next_codept_ptr := Some (sh_ptr s), sh_ptr := p, next_codept := c,
                 ligature_span := (if lig_codept \<noteq> 0 then 1 else ligature_span s),
                 next_lut_entry := find_lut_entry_by_codept T c\<rparr>)
        }
        else Some (s\<lparr>next_codept := 0, next_codept_ptr := None, next_lut_entry := None\<rparr>)
      })"

text \<open>Second half: write the form of the current rune.\<close>

definition shape_emit :: "tables \<Rightarrow> shaper \<Rightarrow> shaper option" where
  "shape_emit T s =
     (if ligature_span s \<noteq> 0 then do {
        m \<leftarrow> write_at (sh_buf s) (this_codept_ptr s) (ZERO_WIDTH_CODEPT T);
        Some (s\<lparr>ligature_span := ligature_span s - 1, sh_buf := m\<rparr>)
      }
      else if is_zero_width T (this_codept s) then Some s
      else case this_lut_entry s of
        Some e \<Rightarrow>
          if (next_lut_entry s = None \<and> \<not> is_zero_width T (next_codept s)) \<or>
             (medial_codept_delta e = final_codept_delta e \<and> final_codept_delta e \<noteq> 0)
          then do {
            m \<leftarrow> write_at (sh_buf s) (this_codept_ptr s)
                  (if sh_state s = STATE_INITIAL then isolated_codept e
                   else form16 e (final_codept_delta e));
            Some (s\<lparr>sh_buf := m, late_finalize_ptr := None, sh_state := STATE_INITIAL\<rparr>)
          }
          else if sh_state s = STATE_INITIAL then do {
            m \<leftarrow> write_at (sh_buf s) (this_codept_ptr s) (form16 e (initial_codept_delta e));
            Some (s\<lparr>sh_buf := m, late_finalize_ptr := this_codept_ptr s,
                   late_finalize_lut_entry := Some e, sh_state := STATE_MEDIAL\<rparr>)
          }
          else do {
            m \<leftarrow> write_at (sh_buf s) (this_codept_ptr s) (form16 e (medial_codept_delta e));
            Some (s\<lparr>sh_buf := m, late_finalize_ptr := this_codept_ptr s,
                   late_finalize_lut_entry := Some e\<rparr>)
          }
      | None \<Rightarrow>
          do {
            m \<leftarrow> (if late_finalize_ptr s \<noteq> None then do {
                    e \<leftarrow> late_finalize_lut_entry s;
                    write_at (sh_buf s) (late_finalize_ptr s)
                      (if sh_state s = STATE_INITIAL then isolated_codept e
                       else form16 e (final_codept_delta e))
                  }
                  else Some (sh_buf s));
            Some (s\<lparr>sh_buf := m, late_finalize_ptr := None, sh_state := STATE_INITIAL\<rparr>)
          })"

definition shape_step :: "tables \<Rightarrow> shaper \<Rightarrow> shaper option" where
  "shape_step T s = do { s \<leftarrow> shape_read T s; shape_emit T s }"

section \<open>Termination\<close>

text \<open>
  An iteration that reads a rune moves the pointer on; one that does not leaves
  \<open>next_codept = 0\<close>, and then only one more follows.
\<close>

definition shape_measure :: "shaper \<Rightarrow> nat" where
  "shape_measure s = 2 * (length (sh_buf s) - sh_ptr s) + (if next_codept s \<noteq> 0 then 1 else 0)"

lemma write_at_length [len_simps]: "write_at m p c = Some m' \<Longrightarrow> length m' = length m"
  by (auto simp: write_at_def bind_Some_iff dest: write_utf8_length)

lemma shape_emit_frame:
  "shape_emit T s = Some s' \<Longrightarrow>
     length (sh_buf s') = length (sh_buf s) \<and> sh_ptr s' = sh_ptr s \<and>
     this_codept s' = this_codept s \<and> next_codept s' = next_codept s"
  by (auto simp: shape_emit_def bind_Some_iff dest: write_at_length
      split: if_splits option.splits)

lemma shape_read_frame:
  assumes "shape_read T s = Some s'"
  shows "sh_buf s' = sh_buf s \<and> this_codept s' = next_codept s \<and>
     (next_codept s' = 0 \<and> sh_ptr s' = sh_ptr s \<or> sh_ptr s < sh_ptr s' \<and> sh_ptr s' \<le> length (sh_buf s))"
proof -
  obtain b where b: "rd (sh_buf s) (sh_ptr s) = Some b"
    using assms by (auto simp: shape_read_def bind_Some_iff Let_def)
  show ?thesis
  proof (cases "b = 0")
    case True
    with assms b show ?thesis by (auto simp: shape_read_def)
  next
    case False
    with assms b obtain c p where r: "read_utf8 (sh_buf s) (sh_ptr s) = Some (c, p)"
      by (auto simp: shape_read_def bind_Some_iff Let_def)
    with assms b False have "sh_buf s' = sh_buf s" "this_codept s' = next_codept s" "sh_ptr s' = p"
      by (auto simp: shape_read_def Let_def)
    with read_utf8_advance [OF r] show ?thesis by simp
  qed
qed

lemma shape_read_measure:
  assumes "shape_read T s = Some s'" and "this_codept s' \<noteq> 0 \<or> next_codept s' \<noteq> 0"
  shows "shape_measure s' < shape_measure s"
  using shape_read_frame [OF assms(1)] assms(2) by (auto simp: shape_measure_def)

lemma shape_step_measure:
  assumes "shape_step T s = Some s'" and "this_codept s' \<noteq> 0 \<or> next_codept s' \<noteq> 0"
  shows "shape_measure s' < shape_measure s"
proof -
  from assms(1) obtain s1 where s1: "shape_read T s = Some s1" "shape_emit T s1 = Some s'"
    by (auto simp: shape_step_def bind_Some_iff)
  from shape_emit_frame [OF s1(2)] have "shape_measure s' = shape_measure s1"
    by (simp add: shape_measure_def)
  with shape_read_measure [OF s1(1)] assms(2) shape_emit_frame [OF s1(2)] show ?thesis by auto
qed

function shape_loop :: "tables \<Rightarrow> shaper \<Rightarrow> shaper option" where
  "shape_loop T s =
     (case shape_step T s of
        None \<Rightarrow> None
      | Some s \<Rightarrow> if this_codept s \<noteq> 0 \<or> next_codept s \<noteq> 0 then shape_loop T s else Some s)"
  by pat_completeness auto
termination
  by (relation "measure (\<lambda>(T, s). shape_measure s)") (auto dest: shape_step_measure)

declare shape_loop.simps [simp del]

definition shape_text :: "tables \<Rightarrow> mem \<Rightarrow> nat \<Rightarrow> mem option" where
  "shape_text T m p = map_option sh_buf (shape_loop T (shape_init m p))"

end
