(* ===== verification/Text_Pass.thy ===== *)
theory Text_Pass
  imports Utf8
begin

text \<open>
  The contract of the in-place passes over NUL-terminated text (the shaper and the
  unshaper): what a client such as the drawing hooks may rely on without looking into them.
\<close>

definition lengths :: "rune list \<Rightarrow> nat list" where
  "lengths rs = map length rs"

lemma length_concat_lengths: "lengths rs = lengths ts \<Longrightarrow> length (concat rs) = length (concat ts)"
  by (simp add: lengths_def length_concat)

text \<open>
  \<open>run\<close> is the operation on memory, \<open>spec\<close> its meaning on the runes of the text, \<open>pre\<close> the texts
  it works on.  A pass keeps the boundaries of the runes and produces runes the decoder
  reads as such.
\<close>

locale text_pass =
  fixes run :: "mem \<Rightarrow> nat \<Rightarrow> mem option"
    and spec :: "rune list \<Rightarrow> rune list"
    and pre :: "rune list \<Rightarrow> bool"
  assumes run_spec: "pre rs \<Longrightarrow>
      run (xs @ concat rs @ 0 # ys) (length xs) = Some (xs @ concat (spec rs) @ 0 # ys)"
    and spec_lengths: "pre rs \<Longrightarrow> lengths (spec rs) = lengths rs"
    and spec_runes: "pre rs \<Longrightarrow> r \<in> set (spec rs) \<Longrightarrow> rune_ok r \<and> hd r \<noteq> 0"
begin

text \<open>The pass returns, and touches nothing but the bytes of the text.\<close>

lemma run_frame:
  assumes "pre rs" and "m = xs @ concat rs @ 0 # ys"
  shows "\<exists>m'. run m (length xs) = Some m' \<and> length m' = length m \<and>
     take (length xs) m' = xs \<and> drop (length xs + length (concat rs)) m' = 0 # ys"
  using run_spec [OF assms(1), of xs ys] length_concat_lengths [OF spec_lengths [OF assms(1)]]
  by (simp add: assms(2))

lemma run_rune_count: "pre rs \<Longrightarrow> length (spec rs) = length rs"
  using spec_lengths [of rs] by (metis lengths_def length_map)

end

text \<open>A pass and the pass that undoes it, on the texts \<open>plain\<close>.\<close>

locale text_round_trip =
  there: text_pass run spec pre + undo: text_pass run' spec' pre'
  for run spec pre run' spec' pre' +
  fixes plain :: "rune list \<Rightarrow> bool"
  assumes plain_pre: "plain rs \<Longrightarrow> pre rs"
    and plain_back: "plain rs \<Longrightarrow> pre' (spec rs) \<and> spec' (spec rs) = rs"
begin

lemma restored:
  assumes "plain rs"
  shows "Option.bind (run (xs @ concat rs @ 0 # ys) (length xs)) (\<lambda>m. run' m (length xs))
       = Some (xs @ concat rs @ 0 # ys)"
  using there.run_spec [OF plain_pre [OF assms]] undo.run_spec plain_back [OF assms] by simp

end

end
