(* ===== verification/Shaping.thy ===== *)
theory Shaping
  imports Shaper Text_Pass
begin

text \<open>
  What \<open>shape_text\<close> computes, as a function on the list of runes of the text: ligatures are
  contracted from the left, then every joining letter takes the form its neighbours ask
  for.  The refinement lemma says that the in-place pass over bytes does exactly this.
\<close>

section \<open>Well-formed tables and texts\<close>

fun lig_entries :: "u16 list \<Rightarrow> ligature list" where
  "lig_entries (a # b # r # xs) = (a, b, r AND NOT LIG_REPLACEMENT_CODEPT_MASK) # lig_entries xs"
| "lig_entries _ = []"

definition ligatures :: "tables \<Rightarrow> ligature list" where
  "ligatures T = lig_entries (ligature_lut T)"

definition forms :: "ShaperLUTEntry \<Rightarrow> int list" where
  "forms e = [uint (isolated_codept e), shifted e (initial_codept_delta e),
              shifted e (medial_codept_delta e), shifted e (final_codept_delta e)]"

text \<open>
  Letters and their forms fit two-byte runes; the ligature table consists of pairs of
  letters, and each replacement has an entry of its own.
\<close>

definition tables_ok :: "tables \<Rightarrow> bool" where
  "tables_ok T \<longleftrightarrow>
     (\<forall>e \<in> set (shaper_lut T). 0x80 \<le> true_codept e \<and> true_codept e < 0x800 \<and>
        (\<forall>f \<in> set (forms e). 0x80 \<le> f \<and> f < 0x800)) \<and>
     lig_flat (ligatures T) = ligature_lut T \<and>
     (\<forall>l \<in> set (ligatures T). lig_entry_ok l \<and>
        find_lut_entry_by_codept T (fst l) \<noteq> None \<and>
        find_lut_entry_by_codept T (fst (snd l)) \<noteq> None \<and>
        find_lut_entry_by_codept T (snd (snd l)) \<noteq> None \<and>
        \<not> is_zero_width T (snd (snd l))) \<and>
     \<not> is_zero_width T 0 \<and>
     0x80 \<le> ZERO_WIDTH_CODEPT T \<and> ZERO_WIDTH_CODEPT T < 0x800"

text \<open>
  A text the shaper can work on: runes as the decoder sees them, none of them read as 0, and
  every letter of the table encoded in two bytes.
\<close>

definition text_rune :: "tables \<Rightarrow> rune \<Rightarrow> bool" where
  "text_rune T r \<longleftrightarrow> rune_ok r \<and> hd r \<noteq> 0 \<and> rune_cp r \<noteq> 0 \<and>
     (find_lut_entry_by_codept T (rune_cp r) \<noteq> None \<longrightarrow> length r = 2)"

definition text_ok :: "tables \<Rightarrow> rune list \<Rightarrow> bool" where
  "text_ok T rs \<longleftrightarrow> (\<forall>r \<in> set rs. text_rune T r)"

section \<open>Contraction of ligatures and joining\<close>

datatype tok = Erased rune | Transparent rune | Joining ShaperLUTEntry rune | Other rune

definition classify :: "tables \<Rightarrow> u16 \<Rightarrow> rune \<Rightarrow> tok" where
  "classify T c r =
     (if is_zero_width T c then Transparent r
      else case find_lut_entry_by_codept T c of Some e \<Rightarrow> Joining e r | None \<Rightarrow> Other r)"

fun toks :: "tables \<Rightarrow> u16 \<Rightarrow> rune \<Rightarrow> rune list \<Rightarrow> tok list" where
  "toks T c r [] = [classify T c r]"
| "toks T c r (r' # rs) =
     (let l = lig_lookup (ligatures T) c (rune_cp r') in
      if l \<noteq> 0 then Erased r # toks T l r' rs
      else classify T c r # toks T (rune_cp r') r' rs)"

definition tokens :: "tables \<Rightarrow> rune list \<Rightarrow> tok list" where
  "tokens T rs = (case rs of [] \<Rightarrow> [] | r # rs \<Rightarrow> toks T (rune_cp r) r rs)"

text \<open>Whether the next token that is not transparent is a joining letter.\<close>

fun seeks :: "tok list \<Rightarrow> bool" where
  "seeks [] = False"
| "seeks (Erased _ # ts) = seeks ts"
| "seeks (Transparent _ # ts) = seeks ts"
| "seeks (Joining _ _ # _) = True"
| "seeks (Other _ # _) = False"

text \<open>The next rune is neither a letter nor transparent: the word ends here.\<close>

fun word_end :: "tok list \<Rightarrow> bool" where
  "word_end [] = True"
| "word_end (Other _ # _) = True"
| "word_end _ = False"

definition joins_both_sides :: "ShaperLUTEntry \<Rightarrow> bool" where
  "joins_both_sides e \<longleftrightarrow> \<not> (medial_codept_delta e = final_codept_delta e \<and> final_codept_delta e \<noteq> 0)"

text \<open>
  The cursive joining rule of the Unicode standard, for the letters of the two alphabets of
  \<^verbatim>\<open>fonts/text_shaper.py\<close>.  The standard gives every letter a joining type: alef, dal, reh,
  waw and their relatives join only the letter before them, hamza joins nothing, the kashida
  joins on both sides, and all the other letters of the alphabets are dual joining.
\<close>

datatype joining_type = Right_Joining | Dual_Joining | Join_Causing | Non_Joining

definition right_joining_letters :: "u16 list" where
  "right_joining_letters =
     [0x622, 0x623, 0x624, 0x625, 0x627, 0x629, 0x62F, 0x630, 0x631, 0x632, 0x648,
      0x688, 0x689, 0x691, 0x693, 0x695, 0x696, 0x698, 0x6C6, 0x6CD, 0x6D2, 0x6D5]"

definition joining_type :: "u16 \<Rightarrow> joining_type" where
  "joining_type c =
     (if c = 0x621 then Non_Joining
      else if c = 0x640 then Join_Causing
      else if c \<in> set right_joining_letters then Right_Joining
      else Dual_Joining)"

text \<open>A ligature joins its predecessor as its first letter does, its successor as its last.\<close>

definition lig_letters :: "tables \<Rightarrow> u16 \<Rightarrow> u16 \<times> u16" where
  "lig_letters T c =
     (case find (\<lambda>(a, b, l). l = c) (ligatures T) of None \<Rightarrow> (c, c) | Some (a, b, l) \<Rightarrow> (a, b))"

definition joins_prev :: "tables \<Rightarrow> ShaperLUTEntry \<Rightarrow> bool" where
  "joins_prev T e \<longleftrightarrow> joining_type (fst (lig_letters T (true_codept e))) \<noteq> Non_Joining"

definition joins_next :: "tables \<Rightarrow> ShaperLUTEntry \<Rightarrow> bool" where
  "joins_next T e \<longleftrightarrow>
     joining_type (snd (lig_letters T (true_codept e))) \<in> {Dual_Joining, Join_Causing}"

text \<open>Whether the next token that is not transparent is a letter that joins its predecessor.\<close>

fun next_joins :: "tables \<Rightarrow> tok list \<Rightarrow> bool" where
  "next_joins T [] = False"
| "next_joins T (Erased _ # ts) = next_joins T ts"
| "next_joins T (Transparent _ # ts) = next_joins T ts"
| "next_joins T (Joining e _ # _) = joins_prev T e"
| "next_joins T (Other _ # _) = False"

text \<open>
  Two neighbours are joined when the first joins its successor and the second its
  predecessor; the form of a letter is fixed by whether it is joined to the one before
  and to the one after it.  The flag says whether the letter before joins its successor.
\<close>

definition joined_form :: "ShaperLUTEntry \<Rightarrow> bool \<Rightarrow> bool \<Rightarrow> u16" where
  "joined_form e back fwd =
     (if back then form16 e (if fwd then medial_codept_delta e else final_codept_delta e)
      else if fwd then form16 e (initial_codept_delta e) else isolated_codept e)"

fun arabic_joining :: "tables \<Rightarrow> bool \<Rightarrow> tok list \<Rightarrow> rune list" where
  "arabic_joining T jp [] = []"
| "arabic_joining T jp (Erased r # ts) = enc2 (ZERO_WIDTH_CODEPT T) # arabic_joining T jp ts"
| "arabic_joining T jp (Transparent r # ts) = r # arabic_joining T jp ts"
| "arabic_joining T jp (Other r # ts) = r # arabic_joining T False ts"
| "arabic_joining T jp (Joining e r # ts) =
     enc2 (joined_form e (jp \<and> joins_prev T e) (joins_next T e \<and> next_joins T ts))
       # arabic_joining T (joins_next T e) ts"

text \<open>
  What the code does instead: a letter that could join, stands alone, and is followed by a
  transparent rune before its word ends, gets its final form.
\<close>

definition code_form :: "ShaperLUTEntry \<Rightarrow> bool \<Rightarrow> bool \<Rightarrow> bool \<Rightarrow> u16" where
  "code_form e jp jn ends =
     (if \<not> jp \<and> \<not> jn \<and> joins_both_sides e \<and> \<not> ends then form16 e (final_codept_delta e)
      else joined_form e jp jn)"

fun code_joining :: "tables \<Rightarrow> bool \<Rightarrow> tok list \<Rightarrow> rune list" where
  "code_joining T jp [] = []"
| "code_joining T jp (Erased r # ts) = enc2 (ZERO_WIDTH_CODEPT T) # code_joining T jp ts"
| "code_joining T jp (Transparent r # ts) = r # code_joining T jp ts"
| "code_joining T jp (Other r # ts) = r # code_joining T False ts"
| "code_joining T jp (Joining e r # ts) =
     (let jn = joins_both_sides e \<and> seeks ts in
      enc2 (code_form e jp jn (word_end ts)) # code_joining T jn ts)"

definition shape_runes :: "tables \<Rightarrow> rune list \<Rightarrow> rune list" where
  "shape_runes T rs = code_joining T False (tokens T rs)"

text \<open>
  The code reads the joining type off the forms of the font: a letter joins its successor
  unless its medial and final forms are the same and differ from the isolated one.  That is
  the Unicode type in a font that draws the letters which join their predecessor so.
\<close>

definition forms_follow :: "tables \<Rightarrow> bool" where
  "forms_follow T \<longleftrightarrow>
     (\<forall>e \<in> set (shaper_lut T). joins_prev T e \<longrightarrow> (joins_both_sides e \<longleftrightarrow> joins_next T e))"

text \<open>
  Where the code departs from the rule: a letter that joins its successor, stands alone and
  carries a diacritic; and a non-joining letter after a letter that joins its successor, or
  before anything but the end of the word.
\<close>

fun lone_marked :: "tables \<Rightarrow> bool \<Rightarrow> tok list \<Rightarrow> bool" where
  "lone_marked T jp [] = False"
| "lone_marked T jp (Erased r # ts) = lone_marked T jp ts"
| "lone_marked T jp (Transparent r # ts) = lone_marked T jp ts"
| "lone_marked T jp (Other r # ts) = lone_marked T False ts"
| "lone_marked T jp (Joining e r # ts) =
     (\<not> jp \<and> joins_next T e \<and> \<not> next_joins T ts \<and> \<not> word_end ts \<or> lone_marked T (joins_next T e) ts)"

fun hamza_inside :: "tables \<Rightarrow> bool \<Rightarrow> tok list \<Rightarrow> bool" where
  "hamza_inside T jp [] = False"
| "hamza_inside T jp (Erased r # ts) = hamza_inside T jp ts"
| "hamza_inside T jp (Transparent r # ts) = hamza_inside T jp ts"
| "hamza_inside T jp (Other r # ts) = hamza_inside T False ts"
| "hamza_inside T jp (Joining e r # ts) =
     (\<not> joins_prev T e \<and> (jp \<or> joins_next T e \<or> \<not> word_end ts) \<or> hamza_inside T (joins_next T e) ts)"

lemma next_joins_seeks: "\<not> hamza_inside T True ts \<Longrightarrow> next_joins T ts \<longleftrightarrow> seeks ts"
  by (induction T ts rule: next_joins.induct) auto

lemma word_end_not_seeks: "word_end ts \<Longrightarrow> \<not> seeks ts"
  by (cases ts rule: word_end.cases) auto

lemma code_joining_arabic:
  assumes "\<forall>e r. Joining e r \<in> set ts \<longrightarrow> joins_prev T e \<longrightarrow> (joins_both_sides e \<longleftrightarrow> joins_next T e)"
    and "seeks ts \<longrightarrow> jc = jp" and "\<not> lone_marked T jp ts" and "\<not> hamza_inside T jp ts"
  shows "code_joining T jc ts = arabic_joining T jp ts"
  using assms
proof (induction ts arbitrary: jc jp)
  case (Cons x ts)
  show ?case
  proof (cases x)
    case (Joining e r)
    have jc: "jc = jp" using Cons.prems(2) by (simp add: Joining)
    have fwd: "joins_both_sides e \<and> seeks ts \<longleftrightarrow> joins_next T e \<and> next_joins T ts"
      using Cons.prems(1,4) next_joins_seeks [of T ts] word_end_not_seeks [of ts]
      by (cases "joins_next T e") (auto simp: Joining)
    have "code_joining T (joins_both_sides e \<and> seeks ts) ts = arabic_joining T (joins_next T e) ts"
      using Cons.prems(1,3,4) next_joins_seeks [of T ts] fwd
      by (intro Cons.IH) (auto simp: Joining)
    moreover have "code_form e jp (joins_next T e \<and> next_joins T ts) (word_end ts)
        = joined_form e (jp \<and> joins_prev T e) (joins_next T e \<and> next_joins T ts)"
      using Cons.prems(1,3,4) by (auto simp: Joining code_form_def joined_form_def)
    ultimately show ?thesis by (simp add: Joining jc fwd)
  qed (use Cons in auto)
qed simp

lemma toks_entry: "Joining e q \<in> set (toks T c r rs) \<Longrightarrow> e \<in> set (shaper_lut T)"
  by (induction T c r rs rule: toks.induct)
    (auto simp: classify_def Let_def find_lut_entry_eq find_Some_iff split: if_splits option.splits)

theorem shape_runes_arabic:
  assumes "forms_follow T" and "\<not> lone_marked T False (tokens T rs)" and "\<not> hamza_inside T False (tokens T rs)"
  shows "shape_runes T rs = arabic_joining T False (tokens T rs)"
  unfolding shape_runes_def using assms toks_entry
  by (intro code_joining_arabic) (auto simp: forms_follow_def tokens_def split: list.splits)

section \<open>The pass with its pending letter\<close>

text \<open>
  The state of the pass between two runes: the bytes before the current rune, the joining
  state, and the letter that may have to be turned into its final form later.
\<close>

type_synonym pass = "mem \<times> ShaperState \<times> nat option \<times> ShaperLUTEntry option"

fun settle :: "mem \<Rightarrow> nat option \<Rightarrow> ShaperLUTEntry option \<Rightarrow> mem" where
  "settle L (Some p) (Some e) = take p L @ enc2 (form16 e (final_codept_delta e)) @ drop (p + 2) L"
| "settle L _ _ = L"

fun emit :: "tables \<Rightarrow> bool \<Rightarrow> tok \<Rightarrow> pass \<Rightarrow> pass" where
  "emit T ends (Erased r) (L, st, lp, le) = (L @ enc2 (ZERO_WIDTH_CODEPT T), st, lp, le)"
| "emit T ends (Transparent r) (L, st, lp, le) = (L @ r, st, lp, le)"
| "emit T ends (Other r) (L, st, lp, le) = (settle L lp le @ r, STATE_INITIAL, None, le)"
| "emit T ends (Joining e r) (L, st, lp, le) =
     (if ends \<or> \<not> joins_both_sides e then
        (L @ enc2 (if st = STATE_INITIAL then isolated_codept e
                   else form16 e (final_codept_delta e)), STATE_INITIAL, None, le)
      else
        (L @ enc2 (form16 e (if st = STATE_INITIAL then initial_codept_delta e
                             else medial_codept_delta e)), STATE_MEDIAL, Some (length L), Some e))"

fun emits :: "tables \<Rightarrow> tok list \<Rightarrow> pass \<Rightarrow> pass" where
  "emits T [] s = s"
| "emits T (x # xs) s = emits T xs (emit T (word_end xs) x s)"

fun pending_ok :: "pass \<Rightarrow> bool" where
  "pending_ok (L, st, lp, le) =
     (case lp of
        None \<Rightarrow> st = STATE_INITIAL
      | Some p \<Rightarrow> st = STATE_MEDIAL \<and> le \<noteq> None \<and> p + 2 \<le> length L)"

fun settled :: "pass \<Rightarrow> mem" where
  "settled (L, st, lp, le) = settle L lp le"

lemma settle_append:
  "(case lp of None \<Rightarrow> True | Some p \<Rightarrow> p + 2 \<le> length L) \<Longrightarrow>
     settle (L @ x) lp le = settle L lp le @ x"
  by (cases lp; cases le) auto

lemma length_settle:
  "(case lp of None \<Rightarrow> True | Some p \<Rightarrow> p + 2 \<le> length L) \<Longrightarrow>
     length (settle L lp le) = length L"
  by (cases lp; cases le) auto

lemma settle_last [simp]:
  "length x = 2 \<Longrightarrow>
     settle (L @ x) (Some (length L)) (Some e) = L @ enc2 (form16 e (final_codept_delta e))"
  by simp

lemma emit_pending_ok: "pending_ok s \<Longrightarrow> pending_ok (emit T ends x s)"
  by (cases s; cases x) (auto split: option.splits)

text \<open>A letter that finds no partner does not influence what follows.\<close>

lemma code_joining_unseeking: "\<not> seeks ts \<Longrightarrow> code_joining T jp ts = code_joining T False ts"
  by (induction ts rule: seeks.induct) auto

theorem emits_code_joining:
  assumes "pending_ok (L, st, lp, le)"
  shows "settled (emits T ts (L, st, lp, le))
    = (if seeks ts then L else settle L lp le) @ concat (code_joining T (st = STATE_MEDIAL) ts)"
  using assms
proof (induction ts arbitrary: L st lp le)
  case Nil
  then show ?case by simp
next
  case (Cons x ts)
  have lp: "case lp of None \<Rightarrow> True | Some p \<Rightarrow> p + 2 \<le> length L"
    using Cons.prems by (auto split: option.splits)
  show ?case
  proof (cases x)
    case (Erased r)
    have "pending_ok (L @ enc2 (ZERO_WIDTH_CODEPT T), st, lp, le)"
      using Cons.prems by (auto split: option.splits)
    from Cons.IH [OF this] show ?thesis
      by (simp add: Erased settle_append [OF lp])
  next
    case (Transparent r)
    have "pending_ok (L @ r, st, lp, le)"
      using Cons.prems by (auto split: option.splits)
    from Cons.IH [OF this] show ?thesis
      by (simp add: Transparent settle_append [OF lp])
  next
    case (Other r)
    have "pending_ok (settle L lp le @ r, STATE_INITIAL, None, le)" by simp
    from Cons.IH [OF this] show ?thesis by (simp add: Other)
  next
    case (Joining e r)
    show ?thesis
    proof (cases "word_end ts \<or> \<not> joins_both_sides e")
      case True
      let ?x = "enc2 (if st = STATE_INITIAL then isolated_codept e
                       else form16 e (final_codept_delta e))"
      have "pending_ok (L @ ?x, STATE_INITIAL, None, le)" by simp
      note IH = Cons.IH [OF this]
      have "\<not> (joins_both_sides e \<and> seeks ts)" using True word_end_not_seeks by auto
      moreover have "st = STATE_INITIAL \<longleftrightarrow> st \<noteq> STATE_MEDIAL" by (cases st) auto
      ultimately show ?thesis
        using IH True by (auto simp: Joining code_form_def joined_form_def)
    next
      case False
      let ?x = "enc2 (form16 e (if st = STATE_INITIAL then initial_codept_delta e
                                 else medial_codept_delta e))"
      have "pending_ok (L @ ?x, STATE_MEDIAL, Some (length L), Some e)" by simp
      note IH = Cons.IH [OF this]
      show ?thesis
        using IH False code_joining_unseeking [of ts T True]
        by (cases st) (auto simp: Joining code_form_def joined_form_def)
    qed
  qed
qed

end
