(* ===== verification/Shape_Refine.thy ===== *)
theory Shape_Refine
  imports Shaping
begin

text \<open>
  The simulation between \<open>shape_text\<close> on bytes and \<open>shape_runes\<close> on runes, and what follows from
  it about the shaped text.
\<close>

section \<open>The pass over bytes refines the pass over runes\<close>

lemma write_inside:
  assumes "p + 2 \<le> length L"
  shows "write_utf8 (L @ X) p c = Some ((take p L @ enc2 c @ drop (p + 2) L) @ X)"
proof -
  have "take p L @ take 2 (drop p L) @ drop (p + 2) L = L"
    by (metis append_take_drop_id drop_drop add.commute)
  then have L: "take p L @ take 2 (drop p L) @ drop (p + 2) L @ X = L @ X"
    by (metis append_assoc)
  show ?thesis
    using write_utf8_rune [of "take 2 (drop p L)" p "take p L" "drop (p + 2) L @ X" c] assms
    by (simp only: L) simp
qed

lemma tables_okD:
  assumes "tables_ok T"
  shows "ligature_lut T = lig_flat (ligatures T)"
    and "\<forall>l \<in> set (ligatures T). lig_entry_ok l"
    and "\<not> is_zero_width T 0"
    and "find_lut_entry_by_codept T 0 = None"
    and "lig_lookup (ligatures T) x y \<noteq> 0 \<Longrightarrow>
           find_lut_entry_by_codept T x \<noteq> None \<and> find_lut_entry_by_codept T y \<noteq> None \<and>
           find_lut_entry_by_codept T (lig_lookup (ligatures T) x y) \<noteq> None \<and>
           \<not> is_zero_width T (lig_lookup (ligatures T) x y) \<and> x \<noteq> 0"
proof -
  show "ligature_lut T = lig_flat (ligatures T)" "\<forall>l \<in> set (ligatures T). lig_entry_ok l"
    "\<not> is_zero_width T 0" using assms by (simp_all add: tables_ok_def)
  show "find_lut_entry_by_codept T 0 = None"
    using assms by (auto simp: tables_ok_def find_lut_entry_eq find_None_iff)
  show "lig_lookup (ligatures T) x y \<noteq> 0 \<Longrightarrow>
           find_lut_entry_by_codept T x \<noteq> None \<and> find_lut_entry_by_codept T y \<noteq> None \<and>
           find_lut_entry_by_codept T (lig_lookup (ligatures T) x y) \<noteq> None \<and>
           \<not> is_zero_width T (lig_lookup (ligatures T) x y) \<and> x \<noteq> 0"
    using assms lig_lookup_entry [of "ligatures T" x y]
    by (force simp: tables_ok_def lig_entry_ok_def)
qed

lemma find_ligature_ok:
  "tables_ok T \<Longrightarrow> find_ligature_by_codepts T [x, y] 2 = lig_lookup (ligatures T) x y"
  using find_ligature_flat tables_okD(1,2) by blast

text \<open>The state after the read half: \<open>r\<close> is the current rune, \<open>X\<close> what follows it.\<close>

definition at_rune :: "tables \<Rightarrow> shaper \<Rightarrow> pass \<Rightarrow> u16 \<Rightarrow> rune \<Rightarrow> mem \<Rightarrow> bool" where
  "at_rune T s P c r X \<longleftrightarrow> (case P of (L, st, lp, le) \<Rightarrow>
     sh_buf s = L @ r @ X \<and> sh_state s = st \<and> late_finalize_ptr s = lp \<and>
     late_finalize_lut_entry s = le \<and> this_codept s = c \<and>
     this_lut_entry s = find_lut_entry_by_codept T c \<and> this_codept_ptr s = Some (length L))"

definition update_pass :: "shaper \<Rightarrow> pass \<Rightarrow> mem \<Rightarrow> shaper" where
  "update_pass s P X = (case P of (L, st, lp, le) \<Rightarrow>
     s\<lparr>sh_buf := L @ X, sh_state := st, late_finalize_ptr := lp, late_finalize_lut_entry := le,
       ligature_span := 0\<rparr>)"

lemma shape_emit_erased:
  assumes "at_rune T s P c r X" and "ligature_span s = 1" and "length r = 2"
  shows "shape_emit T s = Some (update_pass s (emit T ends (Erased r) P) X)"
proof -
  obtain L st lp le where P: "P = (L, st, lp, le)" by (cases P)
  have "write_utf8 (L @ r @ X) (length L) (ZERO_WIDTH_CODEPT T) = Some (L @ enc2 (ZERO_WIDTH_CODEPT T) @ X)"
    using write_utf8_rune assms(3) by blast
  with assms show ?thesis
    by (cases s) (simp add: at_rune_def P shape_emit_def write_at_def update_pass_def)
qed

lemma shape_emit_letter:
  assumes "at_rune T s P c r X" and "ligature_span s = 0" and "pending_ok P"
    and "find_lut_entry_by_codept T c \<noteq> None \<longrightarrow> length r = 2"
    and "ends \<longleftrightarrow> next_lut_entry s = None \<and> \<not> is_zero_width T (next_codept s)"
  shows "shape_emit T s = Some (update_pass s (emit T ends (classify T c r) P) X)"
proof -
  obtain L st lp le where P: "P = (L, st, lp, le)" by (cases P)
  note s = assms(1) [unfolded at_rune_def P, simplified]
  show ?thesis
  proof (cases "is_zero_width T c")
    case True
    then show ?thesis using s assms(2)
      by (cases s) (simp add: shape_emit_def classify_def update_pass_def P)
  next
    case zw: False
    show ?thesis
    proof (cases "find_lut_entry_by_codept T c")
      case None
      show ?thesis
      proof (cases lp)
        case lpN: None
        then show ?thesis using s assms(2) None zw
          using assms(3) by (cases s) (simp add: shape_emit_def classify_def update_pass_def P)
      next
        case (Some p)
        with assms(3) obtain e where e: "le = Some e" "st = STATE_MEDIAL" "p + 2 \<le> length L"
          by (auto simp: P)
        have "write_utf8 (L @ r @ X) p (form16 e (final_codept_delta e))
            = Some (settle L lp le @ r @ X)"
          using write_inside [OF e(3)] by (simp add: Some e)
        then show ?thesis using s assms(2) None zw Some e
          by (cases s) (simp add: shape_emit_def classify_def update_pass_def P write_at_def)
      qed
    next
      case (Some e)
      then have w: "write_utf8 (L @ r @ X) (length L) d = Some (L @ enc2 d @ X)" for d
        using assms(4) write_utf8_rune by blast
      show ?thesis using s assms(2,5) zw Some w
        by (cases s; cases st)
          (auto simp: shape_emit_def classify_def update_pass_def P write_at_def joins_both_sides_def)
    qed
  qed
qed

text \<open>
  The state at the head of the loop: \<open>r\<close>, read as \<open>c\<close>, is the rune of lookahead; after the
  other runes comes the rest of memory.
\<close>

definition ready :: "tables \<Rightarrow> shaper \<Rightarrow> pass \<Rightarrow> u16 \<Rightarrow> rune \<Rightarrow> rune list \<Rightarrow> mem \<Rightarrow> bool" where
  "ready T s P c r rs zs \<longleftrightarrow> (case P of (L, st, lp, le) \<Rightarrow>
     sh_buf s = L @ r @ concat rs @ zs \<and> sh_state s = st \<and> late_finalize_ptr s = lp \<and>
     late_finalize_lut_entry s = le \<and> sh_ptr s = length L + length r \<and> next_codept s = c \<and>
     next_lut_entry s = find_lut_entry_by_codept T c \<and> next_codept_ptr s = Some (length L) \<and>
     ligature_span s = 0)"

definition letter_ok :: "tables \<Rightarrow> u16 \<Rightarrow> rune \<Rightarrow> bool" where
  "letter_ok T c r \<longleftrightarrow> c \<noteq> 0 \<and> (find_lut_entry_by_codept T c \<noteq> None \<longrightarrow> length r = 2)"

lemma emit_length:
  assumes "pending_ok P"
    and "(case x of Erased r \<Rightarrow> length r = 2 | Joining e r \<Rightarrow> length r = 2 | _ \<Rightarrow> True)"
  shows "length (fst (emit T ends x P)) = length (fst P) +
     (case x of Erased r \<Rightarrow> length r | Transparent r \<Rightarrow> length r | Joining e r \<Rightarrow> length r | Other r \<Rightarrow> length r)"
proof -
  obtain L st lp le where P: "P = (L, st, lp, le)" by (cases P)
  have "case lp of None \<Rightarrow> True | Some p \<Rightarrow> p + 2 \<le> length L"
    using assms(1) by (auto simp: P split: option.splits)
  from length_settle [OF this] assms(2) show ?thesis by (cases x) (auto simp: P)
qed

lemma shape_read_more:
  assumes "tables_ok T" and "ready T s P c r (r' # rs) zs" and "text_rune T r'"
  defines "l \<equiv> lig_lookup (ligatures T) c (rune_cp r')"
  defines "c' \<equiv> (if l \<noteq> 0 then l else rune_cp r')"
  obtains s1 where "shape_read T s = Some s1" "at_rune T s1 P c r (r' @ concat rs @ zs)"
    "next_codept s1 = c'" "next_lut_entry s1 = find_lut_entry_by_codept T c'"
    "next_codept_ptr s1 = Some (length (fst P) + length r)"
    "sh_ptr s1 = length (fst P) + length r + length r'"
    "ligature_span s1 = (if l \<noteq> 0 then 1 else 0)"
proof -
  obtain L st lp le where P: "P = (L, st, lp, le)" by (cases P)
  note s = assms(2) [unfolded ready_def P, simplified]
  from assms(3) obtain b bs where r': "r' = b # bs" "b \<noteq> 0"
    by (cases r') (auto simp: text_rune_def rune_ok_def)
  have b: "rd (L @ r @ r' @ concat rs @ zs) (length L + length r) = Some b"
    using rd_split [of "length L + length r" "L @ r" b] by (simp add: r')
  have "read_utf8 (L @ r @ r' @ concat rs @ zs) (length L + length r)
      = Some (rune_cp r', length L + length r + length r')"
    using read_utf8_rune [of r' "length L + length r" "L @ r"] assms(3)
    by (simp add: text_rune_def)
  with s b r'(2) show ?thesis
    by (intro that) (auto simp: shape_read_def find_ligature_ok [OF assms(1)] Let_def P at_rune_def
        l_def c'_def)
qed

lemma shape_read_done:
  assumes "ready T s P c r [] (0 # ys)"
  obtains s1 where "shape_read T s = Some s1" "at_rune T s1 P c r (0 # ys)"
    "next_codept s1 = 0" "next_lut_entry s1 = None" "next_codept_ptr s1 = None"
    "sh_ptr s1 = length (fst P) + length r" "ligature_span s1 = 0"
proof -
  obtain L st lp le where P: "P = (L, st, lp, le)" by (cases P)
  note s = assms [unfolded ready_def P, simplified]
  have "rd (L @ r @ 0 # ys) (length L + length r) = Some 0"
    using rd_split [of "length L + length r" "L @ r" 0] by simp
  with s show ?thesis by (intro that) (auto simp: shape_read_def Let_def P at_rune_def)
qed

text \<open>The lookahead rune ends a word exactly when its token does.\<close>

lemma word_end_toks:
  assumes "tables_ok T"
  shows "word_end (toks T c r rs) \<longleftrightarrow> find_lut_entry_by_codept T c = None \<and> \<not> is_zero_width T c"
proof (cases rs)
  case Nil
  then show ?thesis by (auto simp: classify_def split: option.splits)
next
  case (Cons r' rs')
  then show ?thesis
    using tables_okD(5) [OF assms, of c "rune_cp r'"]
    by (auto simp: classify_def Let_def split: option.splits)
qed

lemma ready_update:
  assumes "next_codept s1 = c" "next_lut_entry s1 = find_lut_entry_by_codept T c"
    "next_codept_ptr s1 = Some (length (fst P))" "sh_ptr s1 = length (fst P) + length r"
  shows "ready T (update_pass s1 P (r @ concat rs @ zs)) P c r rs zs"
  using assms by (cases P) (simp add: ready_def update_pass_def)

lemma update_pass_frame [simp]:
  "this_codept (update_pass s P X) = this_codept s"
  "next_codept (update_pass s P X) = next_codept s"
  by (cases P; simp add: update_pass_def)+

lemma shape_step_more:
  assumes T: "tables_ok T" and r: "ready T s P c r (r' # rs) zs" and t: "text_rune T r'"
    and c: "letter_ok T c r" and P: "pending_ok P"
  obtains s' c' x P' where "shape_step T s = Some s'" "this_codept s' \<noteq> 0" "next_codept s' \<noteq> 0"
    "ready T s' P' c' r' rs zs" "letter_ok T c' r'" "pending_ok P'"
    "toks T c r (r' # rs) = x # toks T c' r' rs"
    "P' = emit T (word_end (toks T c' r' rs)) x P"
proof -
  let ?l = "lig_lookup (ligatures T) c (rune_cp r')"
  let ?X = "r' @ concat rs @ zs"
  from shape_read_more [OF T r t] obtain s1 where
    s1: "shape_read T s = Some s1" "at_rune T s1 P c r ?X"
      "next_codept s1 = (if ?l \<noteq> 0 then ?l else rune_cp r')"
      "next_lut_entry s1 = find_lut_entry_by_codept T (if ?l \<noteq> 0 then ?l else rune_cp r')"
      "next_codept_ptr s1 = Some (length (fst P) + length r)"
      "sh_ptr s1 = length (fst P) + length r + length r'"
      "ligature_span s1 = (if ?l \<noteq> 0 then 1 else 0)" .
  have tc: "this_codept s1 = c" using s1(2) by (auto simp: at_rune_def split: prod.splits)
  have rc: "rune_cp r' \<noteq> 0" "letter_ok T (rune_cp r') r'"
    using t by (auto simp: text_rune_def letter_ok_def)
  show ?thesis
  proof (cases "?l = 0")
    case False
    note lig = tables_okD(5) [OF T False]
    with c t have len: "length r = 2" "length r' = 2"
      by (auto simp: letter_ok_def text_rune_def)
    let ?P = "emit T (word_end (toks T ?l r' rs)) (Erased r) P"
    have "shape_step T s = Some (update_pass s1 ?P ?X)"
      using shape_emit_erased [OF s1(2)] s1(1,7) False len by (simp add: shape_step_def)
    moreover have "ready T (update_pass s1 ?P ?X) ?P ?l r' rs zs"
      using s1 False emit_length [OF P, of "Erased r"] len by (intro ready_update) simp_all
    ultimately show ?thesis
      using tc s1(3) False len c emit_pending_ok [OF P]
      by (intro that [of _ ?P ?l "Erased r"]) (simp_all add: Let_def letter_ok_def)
  next
    case True
    let ?c' = "rune_cp r'"
    let ?x = "classify T c r"
    let ?P = "emit T (word_end (toks T ?c' r' rs)) ?x P"
    have "shape_step T s = Some (update_pass s1 ?P ?X)"
      using shape_emit_letter [OF s1(2) _ P, of "word_end (toks T ?c' r' rs)"] s1(1,3,4,7) True c
      by (simp add: shape_step_def word_end_toks [OF T] letter_ok_def)
    moreover have "length (fst ?P) = length (fst P) + length r"
      using emit_length [OF P, of ?x] c by (auto simp: classify_def letter_ok_def split: option.splits)
    then have "ready T (update_pass s1 ?P ?X) ?P ?c' r' rs zs"
      using s1 True by (intro ready_update) simp_all
    ultimately show ?thesis
      using tc s1(3) True c rc emit_pending_ok [OF P]
      by (intro that [of _ ?P ?c' ?x]) (simp_all add: Let_def letter_ok_def)
  qed
qed

text \<open>After the last rune: one iteration for it, one that settles a pending letter.\<close>

lemma shape_loop_last:
  assumes T: "tables_ok T" and r: "ready T s P c r [] (0 # ys)" and c: "letter_ok T c r"
    and P: "pending_ok P"
  obtains s' where "shape_loop T s = Some s'" "sh_buf s' = settled (emits T (toks T c r []) P) @ 0 # ys"
proof -
  let ?x = "classify T c r" and ?P = "emit T True (classify T c r) P"
  from shape_read_done [OF r] obtain s1 where
    s1: "shape_read T s = Some s1" "at_rune T s1 P c r (0 # ys)" "next_codept s1 = 0"
      "next_lut_entry s1 = None" "next_codept_ptr s1 = None"
      "sh_ptr s1 = length (fst P) + length r" "ligature_span s1 = 0" .
  let ?s = "update_pass s1 ?P (0 # ys)"
  have step1: "shape_step T s = Some ?s"
    using shape_emit_letter [OF s1(2) s1(7) P, of True] s1(1,3,4) c tables_okD(3) [OF T]
    by (simp add: shape_step_def letter_ok_def)
  have len: "length (fst ?P) = length (fst P) + length r"
    using emit_length [OF P, of ?x] c by (auto simp: classify_def letter_ok_def split: option.splits)
  obtain L st lp le where P': "?P = (L, st, lp, le)" by (cases ?P)
  have "rd (L @ 0 # ys) (length L) = Some 0" by (simp add: rd_split)
  moreover have "sh_buf ?s = L @ 0 # ys" "sh_ptr ?s = length L"
    using s1 len P' by (auto simp: update_pass_def)
  ultimately obtain s2 where s2: "shape_read T ?s = Some s2" "this_codept s2 = 0" "next_codept s2 = 0"
    "this_lut_entry s2 = None" "ligature_span s2 = 0" "sh_buf s2 = L @ 0 # ys" "sh_state s2 = st"
    "late_finalize_ptr s2 = lp" "late_finalize_lut_entry s2 = le"
    using s1 P' by (auto simp: shape_read_def Let_def update_pass_def)
  define s3 where "s3 = s2\<lparr>sh_buf := settle L lp le @ 0 # ys, late_finalize_ptr := None,
          sh_state := STATE_INITIAL\<rparr>"
  have "shape_emit T s2 = Some s3"
  proof (cases lp)
    case None
    then show ?thesis using s2 tables_okD(3) [OF T] by (simp add: shape_emit_def s3_def)
  next
    case (Some p)
    with emit_pending_ok [OF P, of T True ?x] P' obtain e where
      e: "le = Some e" "st = STATE_MEDIAL" "p + 2 \<le> length L" by auto
    with Some s2 tables_okD(3) [OF T] write_inside [OF e(3)] show ?thesis
      by (simp add: shape_emit_def write_at_def s3_def)
  qed
  then have "shape_step T ?s = Some s3" using s2(1) by (simp add: shape_step_def)
  then have "shape_loop T ?s = Some s3"
    using s2 by (simp add: shape_loop.simps [of T ?s] s3_def)
  moreover have "this_codept ?s \<noteq> 0"
    using s1(2) c by (auto simp: at_rune_def letter_ok_def split: prod.splits)
  ultimately have "shape_loop T s = Some s3"
    using step1 by (simp add: shape_loop.simps [of T s])
  moreover have "sh_buf s3 = settled (emits T (toks T c r []) P) @ 0 # ys"
    using P' by (simp add: s3_def)
  ultimately show ?thesis by (rule that)
qed

lemma shape_loop_toks:
  assumes T: "tables_ok T"
  shows "ready T s P c r rs (0 # ys) \<Longrightarrow> letter_ok T c r \<Longrightarrow> pending_ok P \<Longrightarrow> text_ok T rs \<Longrightarrow>
     \<exists>s'. shape_loop T s = Some s' \<and> sh_buf s' = settled (emits T (toks T c r rs) P) @ 0 # ys"
proof (induction rs arbitrary: s P c r)
  case Nil
  from shape_loop_last [OF T Nil(1-3)] show ?case by metis
next
  case (Cons r' rs)
  from Cons.prems(4) have t: "text_rune T r'" "text_ok T rs" by (auto simp: text_ok_def)
  from shape_step_more [OF T Cons.prems(1) t(1) Cons.prems(2,3)] obtain s1 c' x P' where
    st: "shape_step T s = Some s1" "this_codept s1 \<noteq> 0" "next_codept s1 \<noteq> 0"
      "ready T s1 P' c' r' rs (0 # ys)" "letter_ok T c' r'" "pending_ok P'"
      "toks T c r (r' # rs) = x # toks T c' r' rs" "P' = emit T (word_end (toks T c' r' rs)) x P" .
  have "shape_loop T s = shape_loop T s1" using st(1-3) by (simp add: shape_loop.simps [of T s])
  with Cons.IH [OF st(4-6) t(2)] st(7,8) show ?case by simp
qed

text \<open>The first iteration reads the first rune ahead and writes nothing.\<close>

lemma shape_first:
  assumes T: "tables_ok T" and t: "text_rune T r"
  obtains s where "shape_step T (shape_init (xs @ r @ concat rs @ zs) (length xs)) = Some s"
    "ready T s (xs, STATE_INITIAL, None, None) (rune_cp r) r rs zs"
    "shape_loop T (shape_init (xs @ r @ concat rs @ zs) (length xs)) = shape_loop T s"
    "letter_ok T (rune_cp r) r"
proof -
  let ?m = "xs @ r @ concat rs @ zs"
  from t obtain b bs where r: "r = b # bs" "b \<noteq> 0"
    by (cases r) (auto simp: text_rune_def rune_ok_def)
  have b: "rd ?m (length xs) = Some b" using r by (simp add: rd_split)
  have rd: "read_utf8 ?m (length xs) = Some (rune_cp r, length xs + length r)"
    using read_utf8_rune [of r "length xs" xs] t by (simp add: text_rune_def)
  have l0: "lig_lookup (ligatures T) 0 (rune_cp r) = 0"
    using tables_okD(5) [OF T, of 0 "rune_cp r"] by blast
  obtain s1 where s1: "shape_step T (shape_init ?m (length xs)) = Some s1"
    "ready T s1 (xs, STATE_INITIAL, None, None) (rune_cp r) r rs zs" "next_codept s1 = rune_cp r"
    using b rd r(2) l0 tables_okD(3) [OF T]
    by (auto simp: shape_step_def shape_read_def shape_init_def Let_def shape_emit_def ready_def
        find_ligature_ok [OF T])
  moreover have "letter_ok T (rune_cp r) r" "rune_cp r \<noteq> 0"
    using t by (auto simp: text_rune_def letter_ok_def)
  ultimately show ?thesis
    by (intro that [of s1]) (simp_all add: shape_loop.simps [of T "shape_init ?m (length xs)"])
qed

theorem shape_text_runes:
  assumes T: "tables_ok T" and rs: "text_ok T rs"
  shows "shape_text T (xs @ concat rs @ 0 # ys) (length xs)
       = Some (xs @ concat (shape_runes T rs) @ 0 # ys)"
proof (cases rs)
  case Nil
  have "rd (xs @ 0 # ys) (length xs) = Some 0" by (simp add: rd_split)
  then show ?thesis
    using tables_okD(3) [OF T]
    by (simp add: Nil shape_text_def shape_loop.simps shape_step_def shape_read_def shape_init_def
        shape_emit_def shape_runes_def tokens_def)
next
  case (Cons r rs')
  let ?m = "xs @ r @ concat rs' @ 0 # ys" and ?P = "(xs, STATE_INITIAL, None, None)"
  from rs have t: "text_rune T r" "text_ok T rs'" by (auto simp: Cons text_ok_def)
  from shape_first [OF T t(1), of xs rs' "0 # ys"] obtain s1 where
    s1: "ready T s1 ?P (rune_cp r) r rs' (0 # ys)" "letter_ok T (rune_cp r) r"
      "shape_loop T (shape_init ?m (length xs)) = shape_loop T s1" by metis
  obtain s' where "shape_loop T (shape_init ?m (length xs)) = Some s'"
    "sh_buf s' = settled (emits T (toks T (rune_cp r) r rs') ?P) @ 0 # ys"
    using shape_loop_toks [OF T s1(1,2)] t(2) s1(3) by auto
  then show ?thesis
    using emits_code_joining [of xs STATE_INITIAL None None T "toks T (rune_cp r) r rs'"]
    by (simp add: Cons shape_text_def shape_runes_def tokens_def)
qed

text \<open>Without a terminator the loop reads past the end of memory.\<close>

lemma shape_loop_unterminated:
  assumes T: "tables_ok T"
  shows "ready T s P c r rs [] \<Longrightarrow> letter_ok T c r \<Longrightarrow> pending_ok P \<Longrightarrow> text_ok T rs \<Longrightarrow> shape_loop T s = None"
proof (induction rs arbitrary: s P c r)
  case Nil
  then have "rd (sh_buf s) (sh_ptr s) = None" by (auto simp: ready_def rd_def split: prod.splits)
  then show ?case by (simp add: shape_loop.simps [of T s] shape_step_def shape_read_def Let_def)
next
  case (Cons r' rs)
  from Cons.prems(4) have t: "text_rune T r'" "text_ok T rs" by (auto simp: text_ok_def)
  from shape_step_more [OF T Cons.prems(1) t(1) Cons.prems(2,3)] obtain s1 c' P' where
    st: "shape_step T s = Some s1" "this_codept s1 \<noteq> 0" "ready T s1 P' c' r' rs []" "letter_ok T c' r'" "pending_ok P'"
    by metis
  have "shape_loop T s = shape_loop T s1" using st(1,2) by (simp add: shape_loop.simps [of T s])
  with Cons.IH [OF st(3-5) t(2)] show ?case by simp
qed

theorem shape_text_unterminated:
  assumes T: "tables_ok T" and rs: "text_ok T rs" and "rs \<noteq> []"
  shows "shape_text T (xs @ concat rs) (length xs) = None"
proof -
  from assms(3) obtain r rs' where Cons: "rs = r # rs'" by (cases rs) auto
  from rs have t: "text_rune T r" "text_ok T rs'" by (auto simp: Cons text_ok_def)
  from shape_first [OF T t(1), of xs rs' "[]"] obtain s1 where
    s1: "ready T s1 (xs, STATE_INITIAL, None, None) (rune_cp r) r rs' []" "letter_ok T (rune_cp r) r"
      "shape_loop T (shape_init (xs @ r @ concat rs' @ []) (length xs)) = shape_loop T s1" by metis
  with shape_loop_unterminated [OF T s1(1,2)] t(2) show ?thesis by (simp add: Cons shape_text_def)
qed

section \<open>Shape of the result\<close>

lemma code_form_in_forms: "\<exists>f \<in> set (forms e). code_form e jp jn ends = word_of_int f"
  by (auto simp: code_form_def joined_form_def form16_def forms_def)

lemma enc2_lead_nonzero: "hd (enc2 c) \<noteq> 0"
proof -
  have "bit (hd (enc2 c)) 7" by (simp add: enc2_def bit_simps)
  then show ?thesis by auto
qed

lemma form_bounds:
  assumes "tables_ok T" and "e \<in> set (shaper_lut T)" and "f \<in> set (forms e)"
  shows "unat (word_of_int f :: u16) < 0x800"
proof -
  from assms have f: "0x80 \<le> f" "f < 0x800" by (auto simp: tables_ok_def)
  then have "uint (word_of_int f :: u16) = f" by (simp add: unsigned_of_int take_bit_int_eq_self)
  with f have "int (unat (word_of_int f :: u16)) < int 0x800" by simp
  then show ?thesis by (simp only: of_nat_less_iff)
qed

lemma zero_width_bound: "tables_ok T \<Longrightarrow> unat (ZERO_WIDTH_CODEPT T) < 0x800"
  by (auto simp: tables_ok_def word_less_nat_alt)

text \<open>Every token stands for one rune, and what is written has the length of what was there.\<close>

definition tok_ok :: "tables \<Rightarrow> tok \<Rightarrow> bool" where
  "tok_ok T x = (case x of
      Erased r \<Rightarrow> length r = 2
    | Joining e r \<Rightarrow> length r = 2 \<and> e \<in> set (shaper_lut T)
    | Transparent r \<Rightarrow> rune_ok r \<and> hd r \<noteq> 0
    | Other r \<Rightarrow> rune_ok r \<and> hd r \<noteq> 0)"

fun tok_rune :: "tok \<Rightarrow> rune" where
  "tok_rune (Erased r) = r"
| "tok_rune (Transparent r) = r"
| "tok_rune (Joining _ r) = r"
| "tok_rune (Other r) = r"

lemma toks_ok:
  assumes T: "tables_ok T"
  shows "letter_ok T c r \<Longrightarrow> rune_ok r \<Longrightarrow> hd r \<noteq> 0 \<Longrightarrow> text_ok T rs \<Longrightarrow>
    (\<forall>x \<in> set (toks T c r rs). tok_ok T x) \<and> map tok_rune (toks T c r rs) = r # rs"
proof (induction rs arbitrary: c r)
  case Nil
  then show ?case
    using find_lut_entry_Some [of T c]
    by (auto simp: classify_def tok_ok_def letter_ok_def split: option.splits)
next
  case (Cons r' rs)
  from Cons.prems have r': "text_rune T r'" "text_ok T rs" by (auto simp: text_ok_def)
  let ?l = "lig_lookup (ligatures T) c (rune_cp r')"
  have cls: "tok_ok T (classify T c r) \<and> tok_rune (classify T c r) = r"
    using Cons.prems find_lut_entry_Some [of T c]
    by (auto simp: classify_def tok_ok_def letter_ok_def split: option.splits)
  show ?case
  proof (cases "?l = 0")
    case True
    have "letter_ok T (rune_cp r') r'" using r' by (auto simp: text_rune_def letter_ok_def)
    with Cons.IH [OF this] r' cls True show ?thesis by (auto simp: text_rune_def)
  next
    case False
    note lig = tables_okD(5) [OF T False]
    with r' have "letter_ok T ?l r'" using False by (auto simp: text_rune_def letter_ok_def)
    moreover have "tok_ok T (Erased r)" using lig Cons.prems(1) by (auto simp: tok_ok_def letter_ok_def)
    ultimately show ?thesis using Cons.IH [of ?l r'] r' False by (auto simp: text_rune_def Let_def)
  qed
qed

lemma code_joining_lengths:
  "\<forall>x \<in> set ts. tok_ok T x \<Longrightarrow> lengths (code_joining T jp ts) = lengths (map tok_rune ts)"
  by (induction T jp ts rule: code_joining.induct) (auto simp: tok_ok_def Let_def lengths_def)

lemma code_joining_runes:
  "tables_ok T \<Longrightarrow> \<forall>x \<in> set ts. tok_ok T x \<Longrightarrow> r \<in> set (code_joining T jp ts) \<Longrightarrow>
     rune_ok r \<and> hd r \<noteq> 0"
proof (induction T jp ts rule: code_joining.induct)
  case (5 T jp e r0 ts)
  let ?w = "code_form e jp (joins_both_sides e \<and> seeks ts) (word_end ts)"
  have "unat ?w < 0x800"
    using code_form_in_forms [of e jp "joins_both_sides e \<and> seeks ts" "word_end ts"]
      form_bounds [OF "5.prems"(1)] "5.prems"(2) by (auto simp: tok_ok_def)
  with 5 rune_ok_enc2 enc2_lead_nonzero show ?case by (auto simp: Let_def)
qed (use rune_ok_enc2 [OF zero_width_bound] enc2_lead_nonzero in \<open>auto simp: tok_ok_def\<close>)

lemma tokens_ok:
  assumes "tables_ok T" and "text_ok T rs"
  shows "(\<forall>x \<in> set (tokens T rs). tok_ok T x) \<and> map tok_rune (tokens T rs) = rs"
proof (cases rs)
  case (Cons r0 rs')
  then show ?thesis
    using toks_ok [OF assms(1), of "rune_cp r0" r0 rs'] assms(2)
    by (auto simp: tokens_def text_ok_def text_rune_def letter_ok_def)
qed (simp add: tokens_def)

text \<open>Every rune of the result is one of the text, the filler, or a form of a letter.\<close>

lemma code_joining_cases:
  assumes "r \<in> set (code_joining T jp ts)"
  shows "r \<in> tok_rune ` set ts \<or> r = enc2 (ZERO_WIDTH_CODEPT T) \<or>
     (\<exists>e r0. Joining e r0 \<in> set ts \<and> (\<exists>f \<in> set (forms e). r = enc2 (word_of_int f)))"
  using assms
proof (induction T jp ts rule: code_joining.induct)
  case (5 T jp e r0 ts)
  let ?jn = "joins_both_sides e \<and> seeks ts"
  from "5.prems" consider "r = enc2 (code_form e jp ?jn (word_end ts))" | "r \<in> set (code_joining T ?jn ts)"
    by (auto simp: Let_def)
  then show ?case
  proof cases
    case 1
    with code_form_in_forms [of e jp ?jn "word_end ts"] show ?thesis by (metis list.set_intros(1))
  next
    case 2
    from "5.IH" [OF refl 2] show ?thesis by auto
  qed
qed auto

lemma shape_runes_cases:
  assumes "tables_ok T" and "text_ok T rs" and "r \<in> set (shape_runes T rs)"
  shows "r \<in> set rs \<or> r = enc2 (ZERO_WIDTH_CODEPT T) \<or> (\<exists>e \<in> set (shaper_lut T). \<exists>f \<in> set (forms e). r = enc2 (word_of_int f))"
proof -
  note ok = tokens_ok [OF assms(1,2)]
  from ok have "tok_rune ` set (tokens T rs) = set rs" by (metis list.set_map)
  with code_joining_cases [of r T False "tokens T rs"] assms(3) ok show ?thesis
    by (fastforce simp: shape_runes_def tok_ok_def)
qed

lemma shape_runes_lengths:
  assumes "tables_ok T" and "text_ok T rs"
  shows "lengths (shape_runes T rs) = lengths rs"
    and "r \<in> set (shape_runes T rs) \<Longrightarrow> rune_ok r \<and> hd r \<noteq> 0"
proof -
  note ok = tokens_ok [OF assms]
  then show "lengths (shape_runes T rs) = lengths rs"
    using code_joining_lengths [of "tokens T rs" T False] by (simp add: shape_runes_def)
  show "r \<in> set (shape_runes T rs) \<Longrightarrow> rune_ok r \<and> hd r \<noteq> 0"
    using code_joining_runes [OF assms(1)] ok by (auto simp: shape_runes_def)
qed

text \<open>The shaper meets the contract of a text pass.\<close>

interpretation shape: text_pass "shape_text T" "shape_runes T" "\<lambda>rs. tables_ok T \<and> text_ok T rs" for T
  by unfold_locales (auto simp: shape_text_runes shape_runes_lengths(1) dest: shape_runes_lengths(2))

end
