(* ===== verification/Unshaper.thy ===== *)
theory Unshaper
  imports Shape_Refine
begin

text \<open>
  \<open>unshape_text\<close> of \<^verbatim>\<open>runtime/text_shaper.c\<close>: the pass that turns shaped code points back into
  letters after the text has been drawn, and its round trip with \<open>shape_text\<close>.
\<close>

section \<open>The code\<close>

text \<open>One iteration of \<^verbatim>\<open>while (*iter)\<close>, entered at a byte that is not NUL.\<close>

definition unshape_step :: "tables \<Rightarrow> mem \<Rightarrow> nat \<Rightarrow> (mem \<times> nat) option" where
  "unshape_step T m iter_pre = do {
     (codept, iter) \<leftarrow> read_utf8 m iter_pre;
     if \<not> ARABIC_SHAPER_RANGE T codept then Some (m, iter)
     else let old_codept = find_base_codept_by_shaped T codept in
       if old_codept \<noteq> 0 then do {
         (expanded, m) \<leftarrow> expand_ligature T m old_codept iter_pre;
         if expanded then Some (m, iter)
         else do { m \<leftarrow> write_utf8 m iter_pre old_codept; Some (m, iter) }
       }
       else Some (m, iter)
   }"

lemma write_pattern_length [len_simps]: "write_pattern m p xs = Some m' \<Longrightarrow> length m' = length m"
  by (induction m p xs rule: write_pattern.induct)
    (auto simp: write_pattern.simps(2) bind_Some_iff dest: write_utf8_length split: if_splits)

lemma expand_scan_length:
  "expand_scan lut c p i n k m = Some (b, m') \<Longrightarrow> length m' = length m"
  by (induction lut c p i n k m rule: expand_scan.induct)
    (auto simp: expand_scan.simps(2) bind_Some_iff Let_def dest: write_pattern_length split: if_splits)

lemma unshape_step_advance:
  assumes "unshape_step T m p = Some (m', p')"
  shows "length m' = length m \<and> p < p' \<and> p' \<le> length m"
proof -
  from assms obtain c where "read_utf8 m p = Some (c, p')" and "length m' = length m"
    by (auto simp: unshape_step_def bind_Some_iff Let_def expand_ligature_def
        dest!: write_utf8_length expand_scan_length split: if_splits)
  with read_utf8_advance show ?thesis by blast
qed

function unshape_text :: "tables \<Rightarrow> mem \<Rightarrow> nat \<Rightarrow> mem option" where
  "unshape_text T m iter =
     (case rd m iter of
        None \<Rightarrow> None
      | Some b \<Rightarrow>
          if b = 0 then Some m
          else case unshape_step T m iter of
              None \<Rightarrow> None
            | Some (m, iter) \<Rightarrow> unshape_text T m iter)"
  by pat_completeness auto
termination
  by (relation "measure (\<lambda>(T, m, iter). length m - iter)") (auto dest!: unshape_step_advance)

declare unshape_text.simps [simp del]

section \<open>The pass over runes\<close>

text \<open>\<open>acc\<close> holds the runes already passed, the latest first.\<close>

fun unshape_go :: "tables \<Rightarrow> rune list \<Rightarrow> rune list \<Rightarrow> rune list" where
  "unshape_go T acc [] = rev acc"
| "unshape_go T acc (r # rs) =
     (let c = rune_cp r; b = find_base_codept_by_shaped T c in
      if \<not> ARABIC_SHAPER_RANGE T c \<or> b = 0 then unshape_go T (r # acc) rs
      else case lig_parts (ligatures T) b of
          None \<Rightarrow> unshape_go T (enc2 b # acc) rs
        | Some (x, y) \<Rightarrow> unshape_go T (enc2 y # enc2 x # tl acc) rs)"

definition unshape_runes :: "tables \<Rightarrow> rune list \<Rightarrow> rune list" where
  "unshape_runes T rs = unshape_go T [] rs"

lemma unshape_go_step:
  "unshape_go T acc (r # rs) = unshape_go T
     (if \<not> ARABIC_SHAPER_RANGE T (rune_cp r) \<or> find_base_codept_by_shaped T (rune_cp r) = 0 then r # acc
      else case lig_parts (ligatures T) (find_base_codept_by_shaped T (rune_cp r)) of
          None \<Rightarrow> enc2 (find_base_codept_by_shaped T (rune_cp r)) # acc
        | Some (x, y) \<Rightarrow> enc2 y # enc2 x # tl acc) rs"
  by (auto simp: Let_def split: option.splits)

text \<open>Runes to be rewritten take two bytes, and before a ligature there is one that can be.\<close>

fun unshape_ok :: "tables \<Rightarrow> nat \<Rightarrow> rune list \<Rightarrow> bool" where
  "unshape_ok T prev [] = True"
| "unshape_ok T prev (r # rs) =
     (rune_ok r \<and> hd r \<noteq> 0 \<and>
      (let c = rune_cp r; b = find_base_codept_by_shaped T c in
       (ARABIC_SHAPER_RANGE T c \<and> b \<noteq> 0 \<longrightarrow>
          length r = 2 \<and> (lig_parts (ligatures T) b \<noteq> None \<longrightarrow> prev = 2))) \<and>
      unshape_ok T (length r) rs)"

definition prev_len :: "rune list \<Rightarrow> nat" where
  "prev_len acc = (case acc of [] \<Rightarrow> 0 | r # _ \<Rightarrow> length r)"

lemma unshape_step_rune:
  assumes T: "tables_ok T" and ok: "unshape_ok T (prev_len acc) (r # rs)"
  defines "b \<equiv> find_base_codept_by_shaped T (rune_cp r)"
  defines "acc' \<equiv> (if \<not> ARABIC_SHAPER_RANGE T (rune_cp r) \<or> b = 0 then r # acc
              else case lig_parts (ligatures T) b of
                None \<Rightarrow> enc2 b # acc | Some (x, y) \<Rightarrow> enc2 y # enc2 x # tl acc)"
  shows "unshape_step T (xs @ concat (rev acc) @ r @ Y) (length xs + length (concat (rev acc)))
      = Some (xs @ concat (rev acc') @ Y, length xs + length (concat (rev acc')))"
    and "prev_len acc' = length r"
proof -
  let ?p = "length xs + length (concat (rev acc))"
  let ?m = "xs @ concat (rev acc) @ r @ Y"
  from ok have r: "rune_ok r" by simp
  have rd: "read_utf8 ?m ?p = Some (rune_cp r, ?p + length r)"
    using read_utf8_rune [OF r, of ?p "xs @ concat (rev acc)" Y] by simp
  have "unshape_step T ?m ?p
      = Some (xs @ concat (rev acc') @ Y, length xs + length (concat (rev acc'))) \<and>
      prev_len acc' = length r"
  proof (cases "\<not> ARABIC_SHAPER_RANGE T (rune_cp r) \<or> b = 0")
    case True
    with rd show ?thesis
      by (auto simp: unshape_step_def acc'_def b_def Let_def prev_len_def)
  next
    case False
    with ok have len: "length r = 2" by (simp add: b_def Let_def)
    show ?thesis
    proof (cases "lig_parts (ligatures T) b")
      case None
      have "expand_ligature T ?m b ?p = Some (False, ?m)"
        by (rule expand_ligature_none [OF tables_okD(1,2) [OF T] None])
      moreover have "write_utf8 ?m ?p b = Some (xs @ concat (rev acc) @ enc2 b @ Y)"
        using write_utf8_rune [OF len, of ?p "xs @ concat (rev acc)" Y] by simp
      ultimately show ?thesis
        using False rd len None by (simp add: unshape_step_def acc'_def b_def Let_def prev_len_def)
    next
      case (Some ab)
      obtain x y where ab: "ab = (x, y)" by (cases ab)
      from ok False Some obtain r0 acc0 where acc: "acc = r0 # acc0" "length r0 = 2"
        by (cases acc) (auto simp: ab b_def Let_def prev_len_def)
      have "expand_ligature T ((xs @ concat (rev acc0)) @ r0 @ r @ Y) b ?p
          = Some (True, (xs @ concat (rev acc0)) @ enc2 x @ enc2 y @ Y)"
        using expand_ligature_flat [OF tables_okD(1,2) [OF T] acc(2) len,
            of ?p "xs @ concat (rev acc0)" Y b] Some acc by (simp add: ab)
      then show ?thesis
        using False rd len Some acc
        by (simp add: unshape_step_def acc'_def b_def Let_def ab prev_len_def)
    qed
  qed
  then show "unshape_step T ?m ?p
      = Some (xs @ concat (rev acc') @ Y, length xs + length (concat (rev acc')))"
    and "prev_len acc' = length r" by simp_all
qed

lemma unshape_text_go:
  assumes T: "tables_ok T"
  shows "unshape_ok T (prev_len acc) rs \<Longrightarrow>
    unshape_text T (xs @ concat (rev acc) @ concat rs @ 0 # ys) (length xs + length (concat (rev acc)))
      = Some (xs @ concat (unshape_go T acc rs) @ 0 # ys)"
proof (induction rs arbitrary: acc)
  case Nil
  have "rd ((xs @ concat (rev acc)) @ 0 # ys) (length (xs @ concat (rev acc))) = Some 0"
    by (simp only: rd_split)
  then show ?case by (simp add: unshape_text.simps)
next
  case (Cons r rs)
  let ?b = "find_base_codept_by_shaped T (rune_cp r)"
  let ?acc = "if \<not> ARABIC_SHAPER_RANGE T (rune_cp r) \<or> ?b = 0 then r # acc
              else case lig_parts (ligatures T) ?b of
                None \<Rightarrow> enc2 ?b # acc | Some (x, y) \<Rightarrow> enc2 y # enc2 x # tl acc"
  note step = unshape_step_rune [OF T Cons.prems]
  from Cons.prems obtain b bs where r: "r = b # bs" "b \<noteq> 0"
    by (cases r) (auto simp: rune_ok_def)
  have "rd (xs @ concat (rev acc) @ r @ concat rs @ 0 # ys) (length xs + length (concat (rev acc)))
      = Some b"
    using rd_split [of "length xs + length (concat (rev acc))" "xs @ concat (rev acc)" b] by (simp add: r)
  moreover have "unshape_ok T (prev_len ?acc) rs"
    using step(2) Cons.prems by simp
  note IH = Cons.IH [OF this]
  moreover have "unshape_go T acc (r # rs) = unshape_go T ?acc rs"
    by (rule unshape_go_step)
  ultimately show ?case
    using step(1) [of xs "concat rs @ 0 # ys"] r(2) by (simp only: concat.simps append_assoc)
      (subst unshape_text.simps, simp only: option.case prod.case if_False)
qed

theorem unshape_text_runes:
  assumes "tables_ok T" and "unshape_ok T 0 rs"
  shows "unshape_text T (xs @ concat rs @ 0 # ys) (length xs)
       = Some (xs @ concat (unshape_runes T rs) @ 0 # ys)"
  using unshape_text_go [OF assms(1), of "[]" rs xs ys] assms(2)
  by (simp add: prev_len_def unshape_runes_def)

section \<open>Round trip\<close>

text \<open>
  Unshaping can undo shaping when every shaped code point belongs to one letter only, and
  the code points of letters, shaped forms and ligatures are kept apart.
\<close>

definition reversible :: "tables \<Rightarrow> bool" where
  "reversible T \<longleftrightarrow>
     (\<forall>e \<in> set (shaper_lut T). \<forall>f \<in> set (forms e).
        ARABIC_SHAPER_RANGE T (word_of_int f) \<and>
        find_base_codept_by_shaped T (word_of_int f) = true_codept e) \<and>
     \<not> ARABIC_SHAPER_RANGE T (ZERO_WIDTH_CODEPT T) \<and>
     (\<forall>l \<in> set (ligatures T). \<not> ARABIC_SHAPER_RANGE T (fst l) \<and>
        \<not> ARABIC_SHAPER_RANGE T (fst (snd l)) \<and> ARABIC_SHAPER_RANGE T (snd (snd l)) \<and>
        lig_parts (ligatures T) (snd (snd l)) = Some (fst l, fst (snd l)))"

definition plain_text :: "tables \<Rightarrow> rune list \<Rightarrow> bool" where
  "plain_text T rs \<longleftrightarrow> text_ok T rs \<and>
     (\<forall>r \<in> set rs. \<not> ARABIC_SHAPER_RANGE T (rune_cp r) \<and>
        (find_lut_entry_by_codept T (rune_cp r) \<noteq> None \<longrightarrow> enc2 (rune_cp r) = r))"

text \<open>The rune written for a letter: two bytes, in the shaper's range, and it leads back.\<close>

lemma shaped_rune:
  assumes T: "tables_ok T" "reversible T" and e: "find_lut_entry_by_codept T c = Some e"
    and w_def: "w = enc2 (code_form e jp jn ends)"
  shows "rune_ok w" "hd w \<noteq> 0" "length w = 2" "ARABIC_SHAPER_RANGE T (rune_cp w)"
    "find_base_codept_by_shaped T (rune_cp w) = c"
proof -
  from find_lut_entry_Some [OF e] have e': "e \<in> set (shaper_lut T)" "true_codept e = c" by auto
  from code_form_in_forms obtain f where f: "f \<in> set (forms e)" "code_form e jp jn ends = word_of_int f"
    by blast
  from form_bounds [OF T(1) e'(1) f(1)] have b: "unat (code_form e jp jn ends) < 0x800"
    by (simp add: f(2))
  show "rune_ok w" "hd w \<noteq> 0" "length w = 2"
    using rune_ok_enc2 [OF b] enc2_lead_nonzero by (simp_all add: w_def)
  show "ARABIC_SHAPER_RANGE T (rune_cp w)" "find_base_codept_by_shaped T (rune_cp w) = c"
    using T(2) e' f rune_cp_enc2 [OF b] by (auto simp: w_def reversible_def)
qed

lemma lig_parts_in_range:
  assumes "reversible T" and "\<not> ARABIC_SHAPER_RANGE T c"
  shows "lig_parts (ligatures T) c = None"
  using assms by (fastforce simp: reversible_def lig_parts_def find_None_iff)

text \<open>
  Either the current rune stands for itself, or it is the second half of a ligature whose
  first half \<open>r0\<close> has been overwritten by a zero-width rune \<open>z\<close>.
\<close>

definition origin :: "tables \<Rightarrow> u16 \<Rightarrow> rune \<Rightarrow> rune list \<Rightarrow> rune list \<Rightarrow> bool" where
  "origin T c r acc orig \<longleftrightarrow>
     (orig = acc \<and> c = rune_cp r) \<or>
     (\<exists>z r0 acc0. acc = z # acc0 \<and> length z = 2 \<and> orig = r0 # acc0 \<and>
        (rune_cp r0, rune_cp r, c) \<in> set (ligatures T) \<and>
        enc2 (rune_cp r0) = r0 \<and> enc2 (rune_cp r) = r)"

lemma unshape_letter:
  assumes T: "tables_ok T" "reversible T" and o: "origin T c r acc orig"
    and r: "plain_text T [r]" and e: "find_lut_entry_by_codept T c = Some e"
    and w_def: "w = enc2 (code_form e jp jn ends)"
  shows "unshape_ok T (prev_len acc) (w # out) = unshape_ok T 2 out"
    and "unshape_go T acc (w # out) = unshape_go T (r # orig) out"
proof -
  note w = shaped_rune [OF T e w_def]
  have c0: "c \<noteq> 0" using e tables_okD(4) [OF T(1)] by auto
  have "(unshape_ok T (prev_len acc) (w # out) = unshape_ok T 2 out) \<and>
        unshape_go T acc (w # out) = unshape_go T (r # orig) out"
    using o unfolding origin_def
  proof (elim disjE exE conjE)
    assume own: "orig = acc" "c = rune_cp r"
    with r have "\<not> ARABIC_SHAPER_RANGE T c" "enc2 c = r" using e by (auto simp: plain_text_def)
    with lig_parts_in_range [OF T(2)] w c0 own show ?thesis by (simp add: Let_def)
  next
    fix z r0 acc0
    assume lig: "acc = z # acc0" "length z = 2" "orig = r0 # acc0"
      "(rune_cp r0, rune_cp r, c) \<in> set (ligatures T)"
      "enc2 (rune_cp r0) = r0" "enc2 (rune_cp r) = r"
    from lig(4) T(2) have p: "lig_parts (ligatures T) c = Some (rune_cp r0, rune_cp r)"
      by (force simp: reversible_def)
    have "unshape_go T acc (w # out)
        = unshape_go T (enc2 (rune_cp r) # enc2 (rune_cp r0) # acc0) out"
      using w c0 p lig(1) by (simp add: Let_def)
    also have "\<dots> = unshape_go T (r # orig) out" using lig(3,5,6) by simp
    finally show ?thesis using w c0 p lig(1,2) by (simp add: Let_def prev_len_def)
  qed
  then show "unshape_ok T (prev_len acc) (w # out) = unshape_ok T 2 out"
    and "unshape_go T acc (w # out) = unshape_go T (r # orig) out" by simp_all
qed

lemma unshape_kept:
  assumes r: "plain_text T [r]"
  shows "unshape_ok T k (r # out) = unshape_ok T (length r) out"
    and "unshape_go T acc (r # out) = unshape_go T (r # acc) out"
  using r by (auto simp: plain_text_def text_ok_def text_rune_def Let_def)

lemma unshape_zero_width:
  assumes T: "tables_ok T" "reversible T"
  shows "unshape_ok T k (enc2 (ZERO_WIDTH_CODEPT T) # out) = unshape_ok T 2 out"
    and "unshape_go T acc (enc2 (ZERO_WIDTH_CODEPT T) # out)
           = unshape_go T (enc2 (ZERO_WIDTH_CODEPT T) # acc) out"
proof -
  have "unat (ZERO_WIDTH_CODEPT T) < 0x800"
    using T(1) by (auto simp: tables_ok_def word_less_nat_alt)
  with T(2) show "unshape_ok T k (enc2 (ZERO_WIDTH_CODEPT T) # out) = unshape_ok T 2 out"
    and "unshape_go T acc (enc2 (ZERO_WIDTH_CODEPT T) # out)
           = unshape_go T (enc2 (ZERO_WIDTH_CODEPT T) # acc) out"
    by (simp_all add: reversible_def rune_cp_enc2 rune_ok_enc2 enc2_lead_nonzero Let_def)
qed

text \<open>The token of the current rune, when it is not swallowed by a ligature.\<close>

lemma origin_classify:
  assumes T: "tables_ok T" "reversible T" and o: "origin T c r acc orig" and r: "plain_text T [r]"
  shows "(\<exists>e. classify T c r = Joining e r \<and> find_lut_entry_by_codept T c = Some e) \<or>
         (orig = acc \<and> (classify T c r = Transparent r \<or> classify T c r = Other r))"
  using o unfolding origin_def
proof (elim disjE exE conjE)
  assume "orig = acc" "c = rune_cp r"
  then show ?thesis by (auto simp: classify_def split: option.splits)
next
  fix z r0 acc0 assume "(rune_cp r0, rune_cp r, c) \<in> set (ligatures T)"
  with T(1) have "find_lut_entry_by_codept T c \<noteq> None" "\<not> is_zero_width T c"
    by (force simp: tables_ok_def)+
  then show ?thesis by (auto simp: classify_def)
qed

lemma length_joining_rune:
  assumes "plain_text T [r]" and "origin T c r acc orig" and "find_lut_entry_by_codept T c = Some e"
  shows "length r = 2"
  using assms by (auto simp: origin_def plain_text_def text_ok_def text_rune_def)
    (metis length_enc2)+

declare unshape_ok.simps(2) [simp del] unshape_go.simps(2) [simp del]

lemma unshape_shaped:
  assumes T: "tables_ok T" "reversible T"
  shows "origin T c r acc orig \<Longrightarrow> plain_text T (r # rs) \<Longrightarrow>
     unshape_ok T (prev_len acc) (code_joining T jp (toks T c r rs)) \<and>
     unshape_go T acc (code_joining T jp (toks T c r rs)) = rev orig @ r # rs"
proof (induction rs arbitrary: c r acc orig jp)
  case Nil
  from origin_classify [OF T Nil] show ?case
  proof (elim disjE exE conjE)
    fix e assume e: "classify T c r = Joining e r" "find_lut_entry_by_codept T c = Some e"
    show ?thesis
      using unshape_letter [OF T Nil e(2) refl, of _ _ _ "[]"] e(1) by simp
  qed (use unshape_kept [OF Nil(2), of _ "[]"] in simp_all)
next
  case (Cons r' rs)
  from Cons.prems(2) have pl: "plain_text T [r]" "plain_text T [r']" "plain_text T (r' # rs)"
    by (auto simp: plain_text_def text_ok_def)
  let ?l = "lig_lookup (ligatures T) c (rune_cp r')"
  show ?case
  proof (cases "?l = 0")
    case True
    let ?ts = "toks T (rune_cp r') r' rs"
    have toks: "toks T c r (r' # rs) = classify T c r # ?ts" using True by simp
    have IH: "unshape_ok T (length r) (code_joining T jp' ?ts) \<and>
        unshape_go T (r # orig) (code_joining T jp' ?ts) = rev (r # orig) @ r' # rs" for jp'
      using Cons.IH [of "rune_cp r'" r' "r # orig" "r # orig" jp'] pl(3)
      by (simp add: origin_def prev_len_def)
    from origin_classify [OF T Cons.prems(1) pl(1)] show ?thesis
    proof (elim disjE exE conjE)
      fix e assume e: "classify T c r = Joining e r" "find_lut_entry_by_codept T c = Some e"
      note len = length_joining_rune [OF pl(1) Cons.prems(1) e(2)]
      show ?thesis
        using unshape_letter [OF T Cons.prems(1) pl(1) e(2) refl] IH len
        by (simp add: toks e(1) Let_def del: toks.simps)
    qed (use unshape_kept [OF pl(1)] IH in \<open>simp_all add: toks del: toks.simps\<close>)
  next
    case False
    from lig_lookup_entry [OF this] have l: "(c, rune_cp r', ?l) \<in> set (ligatures T)" .
    with T(2) have cr: "\<not> ARABIC_SHAPER_RANGE T c" by (force simp: reversible_def)
    have own: "orig = acc" "c = rune_cp r"
      using Cons.prems(1) T(2) cr by (force simp: origin_def reversible_def)+
    from tables_okD(5) [OF T(1) False] pl(1,2) own
    have enc: "enc2 (rune_cp r) = r" "enc2 (rune_cp r') = r'"
      by (auto simp: plain_text_def)
    let ?z = "enc2 (ZERO_WIDTH_CODEPT T)"
    have "origin T ?l r' (?z # acc) (r # acc)"
      using l own enc by (auto simp: origin_def)
    from Cons.IH [OF this pl(3), of jp] show ?thesis
      using False own unshape_zero_width [OF T] by (simp add: Let_def prev_len_def)
  qed
qed

theorem unshape_shape_runes:
  assumes "tables_ok T" "reversible T" "plain_text T rs"
  shows "unshape_ok T 0 (shape_runes T rs) \<and> unshape_runes T (shape_runes T rs) = rs"
proof (cases rs)
  case (Cons r rs')
  then show ?thesis
    using unshape_shaped [OF assms(1,2), of "rune_cp r" r "[]" "[]" rs'] assms(3)
    by (simp add: origin_def prev_len_def shape_runes_def unshape_runes_def tokens_def)
qed (simp add: shape_runes_def unshape_runes_def tokens_def)

section \<open>The contract of the pass\<close>

lemma base_bound:
  assumes "tables_ok T"
  shows "unat (find_base_codept_by_shaped T c) < 0x800"
  using assms
  by (auto simp: find_base_codept_by_shaped_def tables_ok_def word_less_nat_alt find_Some_iff
      split: option.splits)

lemma parts_bound:
  assumes "tables_ok T" and "lig_parts (ligatures T) c = Some (x, y)"
  shows "unat x < 0x800" "unat y < 0x800"
proof -
  from assms(2) obtain z where "(x, y, z) \<in> set (ligatures T)"
    by (auto simp: lig_parts_def find_Some_iff) (metis nth_mem)
  with tables_okD(2) [OF assms(1)] have "lig_entry_ok (x, y, z)" by blast
  then show "unat x < 0x800" "unat y < 0x800" by (auto simp: lig_entry_ok_def word_less_nat_alt)
qed

lemma unshape_go_lengths:
  assumes T: "tables_ok T"
  shows "unshape_ok T (prev_len acc) rs \<Longrightarrow> lengths (unshape_go T acc rs) = lengths (rev acc @ rs)"
proof (induction rs arbitrary: acc)
  case Nil
  show ?case by simp
next
  case (Cons r rs)
  let ?b = "find_base_codept_by_shaped T (rune_cp r)"
  let ?acc = "if \<not> ARABIC_SHAPER_RANGE T (rune_cp r) \<or> ?b = 0 then r # acc
              else case lig_parts (ligatures T) ?b of
                None \<Rightarrow> enc2 ?b # acc | Some (x, y) \<Rightarrow> enc2 y # enc2 x # tl acc"
  have "unshape_go T acc (r # rs) = unshape_go T ?acc rs"
    by (rule unshape_go_step)
  moreover have "unshape_ok T (prev_len ?acc) rs"
    using unshape_step_rune(2) [OF T Cons.prems] Cons.prems by (simp add: unshape_ok.simps(2))
  moreover have "lengths (rev ?acc) = lengths (rev acc @ [r])"
    using Cons.prems
    by (cases acc)
      (auto simp: unshape_ok.simps(2) Let_def lengths_def prev_len_def split: option.splits)
  ultimately show ?case using Cons.IH [of ?acc] by (simp add: lengths_def)
qed

lemma unshape_go_runes:
  assumes T: "tables_ok T"
  shows "unshape_ok T k rs \<Longrightarrow> \<forall>r \<in> set acc. rune_ok r \<and> hd r \<noteq> 0 \<Longrightarrow>
     \<forall>r \<in> set (unshape_go T acc rs). rune_ok r \<and> hd r \<noteq> 0"
proof (induction rs arbitrary: acc k)
  case Nil
  then show ?case by simp
next
  case (Cons r rs)
  let ?b = "find_base_codept_by_shaped T (rune_cp r)"
  let ?acc = "if \<not> ARABIC_SHAPER_RANGE T (rune_cp r) \<or> ?b = 0 then r # acc
              else case lig_parts (ligatures T) ?b of
                None \<Rightarrow> enc2 ?b # acc | Some (x, y) \<Rightarrow> enc2 y # enc2 x # tl acc"
  have r: "rune_ok r" "hd r \<noteq> 0" "unshape_ok T (length r) rs"
    using Cons.prems(1) by (auto simp: unshape_ok.simps(2))
  have tl: "set (tl acc) \<subseteq> set acc" by (cases acc) auto
  have "\<forall>q \<in> set ?acc. rune_ok q \<and> hd q \<noteq> 0"
  proof (cases "lig_parts (ligatures T) ?b")
    case None
    then show ?thesis
      using r(1,2) Cons.prems(2) rune_ok_enc2 [OF base_bound [OF T]] enc2_lead_nonzero by simp
  next
    case (Some xy)
    obtain x y where xy: "xy = (x, y)" by (cases xy)
    have "rune_ok (enc2 x)" "rune_ok (enc2 y)"
      using parts_bound [OF T Some [unfolded xy]] by (simp_all add: rune_ok_enc2)
    then show ?thesis
      using r(1,2) Cons.prems(2) tl enc2_lead_nonzero by (auto simp: Some xy)
  qed
  from Cons.IH [OF r(3) this] show ?case
    by (simp only: unshape_go_step)
qed

interpretation unshape: text_pass "unshape_text T" "unshape_runes T"
  "\<lambda>rs. tables_ok T \<and> unshape_ok T 0 rs" for T
proof unfold_locales
  fix rs :: "rune list" and xs ys :: mem and r :: rune
  assume pre: "tables_ok T \<and> unshape_ok T 0 rs"
  then show "unshape_text T (xs @ concat rs @ 0 # ys) (length xs)
      = Some (xs @ concat (unshape_runes T rs) @ 0 # ys)"
    using unshape_text_runes by blast
  show "lengths (unshape_runes T rs) = lengths rs"
    using unshape_go_lengths [of T "[]" rs] pre by (simp add: unshape_runes_def prev_len_def)
  show "rune_ok r \<and> hd r \<noteq> 0" if "r \<in> set (unshape_runes T rs)"
    using unshape_go_runes [of T 0 rs "[]"] pre that by (simp add: unshape_runes_def)
qed

text \<open>Shaper and unshaper are a round trip on plain text.\<close>

interpretation shaping: text_round_trip
  "shape_text T" "shape_runes T" "\<lambda>rs. tables_ok T \<and> text_ok T rs"
  "unshape_text T" "unshape_runes T" "\<lambda>rs. tables_ok T \<and> unshape_ok T 0 rs"
  "\<lambda>rs. tables_ok T \<and> reversible T \<and> plain_text T rs" for T
  by unfold_locales (auto simp: plain_text_def dest: unshape_shape_runes)

end
