(* ===== verification/Rtl.thy ===== *)
theory Rtl
  imports Ranges
begin

text \<open>
  The bidirectional pass of \<^verbatim>\<open>runtime/rtl.c\<close>: \<open>rtl_apply\<close> reverses, in place, every span of
  right-to-left runes of a line.
\<close>

section \<open>The code\<close>

definition swap :: "mem \<Rightarrow> nat \<Rightarrow> nat \<Rightarrow> mem option" where
  "swap m a b = do {
     x \<leftarrow> rd m a;
     y \<leftarrow> rd m b;
     m \<leftarrow> wr m a y;
     wr m b x
   }"

definition RTL_SWAPS :: "u8 list" where
  "RTL_SWAPS = [0x7B, 0x7D, 0x5B, 0x5D, 0x28, 0x29, 0x3C, 0x3E]"

text \<open>First loop of \<open>reverse_span\<close>: byte-wise reversal.\<close>

function byte_reverse :: "mem \<Rightarrow> nat \<Rightarrow> nat \<Rightarrow> mem option" where
  "byte_reverse m start_iter end_iter =
     (if start_iter < end_iter then
        Option.bind (swap m start_iter end_iter)
          (\<lambda>m. byte_reverse m (start_iter + 1) (end_iter - 1))
      else Some m)"
  by pat_completeness auto
termination
  by (relation "measure (\<lambda>(m, i, j). j - i)") auto

declare byte_reverse.simps [simp del]

text \<open>
  Body of the second loop at byte \<open>e\<close>: rotate the rune whose lead byte is there, and give
  the position of the last byte dealt with.  A swap below the start of the block is
  undefined.
\<close>

definition rotate_rune :: "mem \<Rightarrow> nat \<Rightarrow> (mem \<times> nat) option" where
  "rotate_rune m e = do {
     b \<leftarrow> rd m e;
     let n = drop_bit 4 b;
     if n = 0xF then
       (if e < 3 then None
        else do { m \<leftarrow> swap m (e - 3) e; m \<leftarrow> swap m (e - 2) (e - 1); Some (m, e - 3) })
     else if n = 0xE then
       (if e < 2 then None else do { m \<leftarrow> swap m (e - 2) e; Some (m, e - 2) })
     else if n = 0xC \<or> n = 0xD then
       (if e < 1 then None else do { m \<leftarrow> swap m (e - 1) e; Some (m, e - 1) })
     else Some (m, e)
   }"

lemma rotate_rune_le: "rotate_rune m e = Some (m', e') \<Longrightarrow> e' \<le> e"
  by (auto simp: rotate_rune_def bind_Some_iff Let_def split: if_splits)

text \<open>\<^verbatim>\<open>while (--end_iter >= start)\<close>\<close>

function rotate_runes :: "mem \<Rightarrow> nat \<Rightarrow> nat \<Rightarrow> mem option" where
  "rotate_runes m start end_iter =
     (if start < end_iter then
        case rotate_rune m (end_iter - 1) of
          None \<Rightarrow> None
        | Some (m, e) \<Rightarrow> rotate_runes m start e
      else Some m)"
  by pat_completeness auto
termination
  by (relation "measure (\<lambda>(m, s, e). e)") (auto dest: rotate_rune_le)

declare rotate_runes.simps [simp del]

definition reverse_span :: "mem \<Rightarrow> nat \<Rightarrow> nat \<Rightarrow> mem option" where
  "reverse_span m start stop = do {
     m \<leftarrow> byte_reverse m start (stop - 1);
     rotate_runes m start stop
   }"

definition apply_swaps :: "mem \<Rightarrow> nat \<Rightarrow> mem option" where
  "apply_swaps m ch = do {
     val \<leftarrow> rd m ch;
     case find (\<lambda>i. val = RTL_SWAPS ! i) [0..<length RTL_SWAPS] of
       None \<Rightarrow> Some m
     | Some i \<Rightarrow> wr m ch (RTL_SWAPS ! (i XOR 1))
   }"

text \<open>The local variables of \<open>rtl_apply\<close>.\<close>

record rtl_state =
  rt_buf :: mem
  rt_iter :: nat
  rt_next_ptr :: "nat option"
  rt_next :: u16
  rtl_span_start :: "nat option"
  weak_ltr_span_start :: "nat option"
  did_transform :: bool

definition rtl_read :: "rtl_state \<Rightarrow> nat \<Rightarrow> rtl_state option" where
  "rtl_read s line_end =
     (if rt_iter s < line_end then do {
        b \<leftarrow> rd (rt_buf s) (rt_iter s);
        if b \<noteq> 0 then do {
          (c, p) \<leftarrow> read_utf8 (rt_buf s) (rt_iter s);
          Some (s\<lparr>rt_next_ptr := Some (rt_iter s), rt_iter := p, rt_next := c\<rparr>)
        }
        else Some (s\<lparr>rt_next := 0, rt_next_ptr := None\<rparr>)
      }
      else Some (s\<lparr>rt_next := 0, rt_next_ptr := None\<rparr>))"

text \<open>Weak left-to-right spans are handled by pre-reversal; also yields \<open>neutral\<close>.\<close>

definition rtl_weak :: "tables \<Rightarrow> rtl_state \<Rightarrow> u16 \<Rightarrow> nat \<Rightarrow> (rtl_state \<times> bool) option" where
  "rtl_weak T s this_codept this_codept_ptr =
     (let neutral = is_neutral T this_codept; weak_ltr = is_weak_ltr this_codept in
      if weak_ltr \<and> rtl_span_start s \<noteq> None then
        Some (if weak_ltr_span_start s = None
              then s\<lparr>weak_ltr_span_start := Some this_codept_ptr\<rparr> else s, True)
      else case (rtl_span_start s, weak_ltr_span_start s) of
        (Some _, Some w) \<Rightarrow>
          if \<not> weak_ltr \<and> \<not> neutral then do {
            m \<leftarrow> reverse_span (rt_buf s) w this_codept_ptr;
            Some (s\<lparr>rt_buf := m, weak_ltr_span_start := None\<rparr>, neutral)
          }
          else Some (s, neutral)
      | _ \<Rightarrow> Some (s, neutral))"

definition rtl_span :: "tables \<Rightarrow> rtl_state \<Rightarrow> bool \<Rightarrow> u16 \<Rightarrow> nat \<Rightarrow> rtl_state option" where
  "rtl_span T s neutral this_codept this_codept_ptr =
     (let rtl = is_rtl T this_codept; next_codept = rt_next s in
      if rtl \<and> rtl_span_start s = None \<and> next_codept \<noteq> 0 then
        Some (s\<lparr>rtl_span_start := Some this_codept_ptr\<rparr>)
      else if neutral \<and> rtl_span_start s \<noteq> None \<and>
              (is_rtl T next_codept \<or> is_neutral T next_codept \<or> is_weak_ltr next_codept \<or>
               next_codept < 0x20) then do {
        m \<leftarrow> apply_swaps (rt_buf s) this_codept_ptr;
        Some (s\<lparr>rt_buf := m\<rparr>)
      }
      else case rtl_span_start s of
        Some start \<Rightarrow>
          if \<not> rtl then do {
            m \<leftarrow> reverse_span (rt_buf s) start this_codept_ptr;
            Some (s\<lparr>rt_buf := m, did_transform := True, rtl_span_start := None,
                   weak_ltr_span_start := None\<rparr>)
          }
          else Some s
      | None \<Rightarrow> Some s)"

definition rtl_step :: "tables \<Rightarrow> nat \<Rightarrow> rtl_state \<Rightarrow> rtl_state option" where
  "rtl_step T line_end s = do {
     let this_codept = rt_next s;
     this_codept_ptr \<leftarrow> rt_next_ptr s;
     s \<leftarrow> rtl_read s line_end;
     (s, neutral) \<leftarrow> rtl_weak T s this_codept this_codept_ptr;
     rtl_span T s neutral this_codept this_codept_ptr
   }"

section \<open>Termination\<close>

lemma swap_length [len_simps]: "swap m a b = Some m' \<Longrightarrow> length m' = length m"
  by (auto simp: swap_def bind_Some_iff dest!: wr_length)

lemma byte_reverse_length [len_simps]: "byte_reverse m i j = Some m' \<Longrightarrow> length m' = length m"
proof (induction m i j rule: byte_reverse.induct)
  case (1 m i j)
  then show ?case
    by (cases "i < j") (auto simp: byte_reverse.simps [of m i j] bind_Some_iff dest: swap_length)
qed

lemma rotate_rune_length: "rotate_rune m e = Some (m', e') \<Longrightarrow> length m' = length m"
  by (auto simp: rotate_rune_def bind_Some_iff Let_def dest!: swap_length split: if_splits)

lemma rotate_runes_length [len_simps]: "rotate_runes m s e = Some m' \<Longrightarrow> length m' = length m"
proof (induction m s e rule: rotate_runes.induct)
  case (1 m s e)
  then show ?case
    by (cases "s < e")
      (auto simp: rotate_runes.simps [of m s e] dest: rotate_rune_length split: option.splits prod.splits)
qed

lemma reverse_span_length [len_simps]: "reverse_span m s e = Some m' \<Longrightarrow> length m' = length m"
  by (auto simp: reverse_span_def bind_Some_iff dest!: byte_reverse_length rotate_runes_length)

lemma apply_swaps_length [len_simps]: "apply_swaps m p = Some m' \<Longrightarrow> length m' = length m"
  by (auto simp: apply_swaps_def bind_Some_iff dest: wr_length split: option.splits)

lemma rtl_read_frame:
  assumes "rtl_read s e = Some s'"
  shows "rt_buf s' = rt_buf s \<and> (rt_next s' = 0 \<or> rt_iter s < rt_iter s' \<and> rt_iter s' \<le> length (rt_buf s))"
proof -
  consider "rt_next s' = 0" "rt_buf s' = rt_buf s"
    | c p where "read_utf8 (rt_buf s) (rt_iter s) = Some (c, p)" "rt_iter s' = p" "rt_buf s' = rt_buf s"
    using assms by (auto simp: rtl_read_def bind_Some_iff split: if_splits)
  then show ?thesis by cases (auto dest: read_utf8_advance)
qed

lemma rtl_weak_frame:
  "rtl_weak T s c p = Some (s', n) \<Longrightarrow>
     length (rt_buf s') = length (rt_buf s) \<and> rt_iter s' = rt_iter s \<and> rt_next s' = rt_next s"
  by (auto simp: rtl_weak_def Let_def bind_Some_iff dest: reverse_span_length
      split: if_splits option.splits)

lemma rtl_span_frame:
  "rtl_span T s n c p = Some s' \<Longrightarrow>
     length (rt_buf s') = length (rt_buf s) \<and> rt_iter s' = rt_iter s \<and> rt_next s' = rt_next s"
  by (auto simp: rtl_span_def Let_def bind_Some_iff dest: reverse_span_length apply_swaps_length
      split: if_splits option.splits)

lemma rtl_step_measure:
  assumes "rtl_step T e s = Some s'" and "rt_next s' \<noteq> 0"
  shows "length (rt_buf s') - rt_iter s' < length (rt_buf s) - rt_iter s"
proof -
  from assms(1) obtain q s1 s2 n where
    "rtl_read s e = Some s1" "rtl_weak T s1 (rt_next s) q = Some (s2, n)"
    "rtl_span T s2 n (rt_next s) q = Some s'"
    by (auto simp: rtl_step_def bind_Some_iff Let_def)
  from rtl_read_frame [OF this(1)] rtl_weak_frame [OF this(2)] rtl_span_frame [OF this(3)] assms(2)
  show ?thesis by auto
qed

function rtl_loop :: "tables \<Rightarrow> nat \<Rightarrow> rtl_state \<Rightarrow> rtl_state option" where
  "rtl_loop T line_end s =
     (case rtl_step T line_end s of
        None \<Rightarrow> None
      | Some s \<Rightarrow> if rt_next s \<noteq> 0 then rtl_loop T line_end s else Some s)"
  by pat_completeness auto
termination
  by (relation "measure (\<lambda>(T, e, s). length (rt_buf s) - rt_iter s)") (auto dest: rtl_step_measure)

declare rtl_loop.simps [simp del]

text \<open>After the loop: close the spans that are still open.\<close>

definition rtl_finish :: "rtl_state \<Rightarrow> (mem \<times> bool) option" where
  "rtl_finish s = do {
     m \<leftarrow> (case weak_ltr_span_start s of
            Some w \<Rightarrow> reverse_span (rt_buf s) w (rt_iter s)
          | None \<Rightarrow> Some (rt_buf s));
     case rtl_span_start s of
       Some start \<Rightarrow> do { m \<leftarrow> reverse_span m start (rt_iter s); Some (m, True) }
     | None \<Rightarrow> Some (m, did_transform s)
   }"

definition rtl_apply :: "tables \<Rightarrow> mem \<Rightarrow> nat \<Rightarrow> nat \<Rightarrow> (mem \<times> bool) option" where
  "rtl_apply T m line_start line_end = do {
     (next_codept, iter) \<leftarrow> read_utf8 m line_start;
     s \<leftarrow> rtl_loop T line_end
       \<lparr>rt_buf = m, rt_iter = iter, rt_next_ptr = Some line_start, rt_next = next_codept,
        rtl_span_start = None, weak_ltr_span_start = None, did_transform = False\<rparr>;
     rtl_finish s
   }"

end
