(* ===== verification/Rtl_Refine.thy ===== *)
theory Rtl_Refine
  imports Rtl
begin

text \<open>
  \<open>rtl_apply\<close> as a pass over the runes of the line, and the simulation between the two.
\<close>

section \<open>Reversal of a span\<close>

lemma swap_split:
  assumes "i = length xs" and "j = length xs + length ys + 1"
  shows "swap (xs @ a # ys @ b # zs) i j = Some (xs @ b # ys @ a # zs)"
proof -
  have "rd (xs @ a # ys @ b # zs) j = Some b"
    using rd_split [of j "xs @ a # ys" b zs] assms by simp
  moreover have "wr (xs @ b # ys @ b # zs) j a = Some (xs @ b # ys @ a # zs)"
    using wr_split [of j "xs @ b # ys" b zs a] assms by simp
  ultimately show ?thesis
    using assms(1) by (simp add: swap_def rd_split wr_split)
qed

lemma byte_reverse_rev:
  "byte_reverse (xs @ zs @ ys) (length xs) (length xs + length zs - 1) = Some (xs @ rev zs @ ys)"
proof (induction "length zs" arbitrary: xs zs ys rule: less_induct)
  case less
  show ?case
  proof (cases "length zs < 2")
    case True
    then have "zs = [] \<or> (\<exists>z. zs = [z])" by (cases zs; cases "tl zs") auto
    then show ?thesis by (auto simp: byte_reverse.simps)
  next
    case False
    then obtain a mid b where zs: "zs = a # mid @ [b]"
      by (cases zs; cases "tl zs" rule: rev_cases) auto
    have sw: "swap (xs @ a # mid @ b # ys) (length xs) (Suc (length xs + length mid))
        = Some (xs @ b # mid @ a # ys)"
      by (rule swap_split) simp_all
    have "byte_reverse ((xs @ [b]) @ mid @ (a # ys)) (length (xs @ [b]))
        (length (xs @ [b]) + length mid - 1) = Some ((xs @ [b]) @ rev mid @ (a # ys))"
      by (rule less) (simp add: zs)
    then show ?thesis
      using sw by (simp add: zs byte_reverse.simps [of "xs @ a # mid @ b # ys"])
  qed
qed

lemma nibble_ct: "utf8_ct (ucast (b :: u8)) =
   (if drop_bit 4 b = 0xF then 3 else if drop_bit 4 b = 0xE then 2
    else if drop_bit 4 b = 0xC \<or> drop_bit 4 b = 0xD then 1 else 0)"
proof -
  have "drop_bit 4 (ucast b :: u16) = ucast (drop_bit 4 b)"
    by (rule u16_eqI) (simp_all add: bit_simps)
  moreover note u8_u16_inj [where y = "0xF"] u8_u16_inj [where y = "0xE"] u8_u16_inj [where y = "0xC"] u8_u16_inj [where y = "0xD"]
  ultimately show ?thesis by (simp add: utf8_ct_def)
qed

text \<open>At the lead byte, stored last, of a reversed rune.\<close>

lemma rotate_rune_rev:
  assumes "rune_ok r"
  shows "rotate_rune (xs @ rev r @ ys) (length xs + length r - 1) = Some (xs @ r @ ys, length xs)"
proof -
  obtain b bs where r: "r = b # bs" and l: "length bs = utf8_ct (ucast b)"
    using assms by (cases r) (auto simp: rune_ok_def rune_len_def)
  have rd: "rd (xs @ rev r @ ys) (length xs + length r - 1) = Some b"
    using rd_split [of "length xs + length r - 1" "xs @ rev bs" b ys] by (simp add: r)
  consider (c3) "length bs = 3" "drop_bit 4 b = 0xF"
    | (c2) "length bs = 2" "drop_bit 4 b = 0xE"
    | (c1) "length bs = 1" "drop_bit 4 b = 0xC \<or> drop_bit 4 b = 0xD"
    | (c0) "length bs = 0" "drop_bit 4 b \<noteq> 0xF" "drop_bit 4 b \<noteq> 0xE" "drop_bit 4 b \<noteq> 0xC"
        "drop_bit 4 b \<noteq> 0xD"
    using l unfolding nibble_ct by (auto split: if_splits)
  then show ?thesis
  proof cases
    case c3
    then obtain c d e where bs: "bs = [c, d, e]"
      by (auto simp: length_Suc_conv numeral_3_eq_3)
    have "swap (xs @ e # d # c # b # ys) (length xs) (Suc (Suc (Suc (length xs)))) = Some (xs @ b # d # c # e # ys)"
      using swap_split [of "length xs" xs "Suc (Suc (Suc (length xs)))" "[d, c]"] by simp
    moreover have "swap (xs @ b # d # c # e # ys) (length xs + 1) (length xs + 2)
        = Some (xs @ b # c # d # e # ys)"
      using swap_split [of "length xs + 1" "xs @ [b]" "length xs + 2" "[]"] by simp
    ultimately show ?thesis using rd c3(2) by (simp add: rotate_rune_def r bs)
  next
    case c2
    then obtain c d where bs: "bs = [c, d]" by (auto simp: length_Suc_conv numeral_2_eq_2)
    have "swap (xs @ d # c # b # ys) (length xs) (length xs + 2) = Some (xs @ b # c # d # ys)"
      using swap_split [of "length xs" xs "length xs + 2" "[c]"] by simp
    then show ?thesis using rd c2(2) by (simp add: rotate_rune_def r bs)
  next
    case c1
    then obtain c where bs: "bs = [c]" by (auto simp: length_Suc_conv)
    have "swap (xs @ c # b # ys) (length xs) (length xs + 1) = Some (xs @ b # c # ys)"
      using swap_split [of "length xs" xs "length xs + 1" "[]"] by simp
    then show ?thesis using rd c1(2) by (auto simp: rotate_rune_def r bs)
  next
    case c0
    then show ?thesis using rd by (simp add: rotate_rune_def r)
  qed
qed

lemma rotate_runes_revs:
  assumes "\<forall>r \<in> set rs. rune_ok r"
  shows "rotate_runes (xs @ concat (map rev rs) @ ys) (length xs) (length xs + length (concat rs))
       = Some (xs @ concat rs @ ys)"
  using assms
proof (induction rs arbitrary: ys rule: rev_induct)
  case Nil
  show ?case by (simp add: rotate_runes.simps)
next
  case (snoc r rs)
  from snoc.prems have ok: "rune_ok r" by simp
  then have pos: "0 < length r" by (simp add: rune_ok_def rune_len_def)
  let ?X = "xs @ concat (map rev rs)"
  have len: "length (concat (map rev rs)) = length (concat rs)"
    by (induction rs) auto
  have "rotate_rune (?X @ rev r @ ys) (length ?X + length r - 1) = Some (?X @ r @ ys, length ?X)"
    by (rule rotate_rune_rev [OF ok])
  moreover have "rotate_runes (xs @ concat (map rev rs) @ (r @ ys)) (length xs)
      (length xs + length (concat rs)) = Some (xs @ concat rs @ (r @ ys))"
    using snoc by simp
  ultimately show ?case
    using pos len by (subst rotate_runes.simps) (simp add: add.assoc)
qed

theorem reverse_span_runes:
  assumes "\<forall>r \<in> set rs. rune_ok r" and "p = length xs" and "q = length xs + length (concat rs)"
  shows "reverse_span (xs @ concat rs @ ys) p q = Some (xs @ concat (rev rs) @ ys)"
proof -
  have "rev (concat rs) = concat (map rev (rev rs))" by (simp add: rev_concat rev_map)
  moreover have "length (concat (rev rs)) = length (concat rs)" by (induction rs) auto
  ultimately show ?thesis
    using byte_reverse_rev [of xs "concat rs" ys] rotate_runes_revs [of "rev rs" xs ys] assms
    by (simp add: reverse_span_def)
qed

section \<open>The pass over runes\<close>

text \<open>Exchange of paired characters: the effect of \<open>apply_swaps\<close> on one byte and on one rune.\<close>

definition mirror :: "u8 \<Rightarrow> u8" where
  "mirror b = (case find (\<lambda>i. b = RTL_SWAPS ! i) [0..<length RTL_SWAPS] of
      None \<Rightarrow> b | Some i \<Rightarrow> RTL_SWAPS ! (i XOR 1))"

definition mirror_rune :: "rune \<Rightarrow> rune" where
  "mirror_rune r = mirror (hd r) # tl r"

lemma mirror_code:
  "mirror b = (if b = 0x7B then 0x7D else if b = 0x7D then 0x7B else if b = 0x5B then 0x5D
     else if b = 0x5D then 0x5B else if b = 0x28 then 0x29 else if b = 0x29 then 0x28
     else if b = 0x3C then 0x3E else if b = 0x3E then 0x3C else b)"
proof -
  have idx: "[0..<length RTL_SWAPS] = [0, 1, 2, 3, 4, 5, 6, 7]"
    by (simp add: RTL_SWAPS_def upt_rec numeral_eq_Suc)
  show ?thesis unfolding mirror_def idx by (simp add: RTL_SWAPS_def)
qed

lemma apply_swaps_rune:
  assumes "rune_ok r" and "p = length xs"
  shows "apply_swaps (xs @ r @ ys) p = Some (xs @ mirror_rune r @ ys)"
proof -
  obtain b bs where "r = b # bs" using assms(1) by (cases r) (auto simp: rune_ok_def)
  then show ?thesis
    using assms(2)
    by (auto simp: apply_swaps_def rd_split wr_split mirror_rune_def mirror_def split: option.splits)
qed

text \<open>
  An open right-to-left span: the runes before the weak (numeral) run that is open at its
  end, if there is one, and that run.
\<close>

type_synonym span = "rune list \<times> rune list option"
type_synonym line = "rune list \<times> span option \<times> bool"

fun span_runes :: "span \<Rightarrow> rune list" where
  "span_runes (A, None) = A"
| "span_runes (A, Some W) = A @ W"

fun push :: "rune \<Rightarrow> span \<Rightarrow> span" where
  "push r (A, None) = (A @ [r], None)"
| "push r (A, Some W) = (A, Some (W @ [r]))"

definition open_runes :: "span option \<Rightarrow> rune list" where
  "open_runes sp = (case sp of None \<Rightarrow> [] | Some S \<Rightarrow> span_runes S)"

definition follows :: "tables \<Rightarrow> u16 \<Rightarrow> bool" where
  "follows T c \<longleftrightarrow> is_rtl T c \<or> is_neutral T c \<or> is_weak_ltr c \<or> c < 0x20"

definition weak_phase :: "tables \<Rightarrow> u16 \<Rightarrow> span option \<Rightarrow> span option \<times> bool" where
  "weak_phase T c sp =
     (case sp of
        None \<Rightarrow> (None, is_neutral T c)
      | Some (A, W) \<Rightarrow>
          if is_weak_ltr c then (Some (A, Some (case W of None \<Rightarrow> [] | Some W \<Rightarrow> W)), True)
          else if is_neutral T c then (Some (A, W), True)
          else (Some (A @ rev (case W of None \<Rightarrow> [] | Some W \<Rightarrow> W), None), False))"

definition span_phase :: "tables \<Rightarrow> u16 \<Rightarrow> rune \<Rightarrow> bool \<Rightarrow> line \<Rightarrow> line" where
  "span_phase T nxt r neutral l = (case l of (out, sp, did) \<Rightarrow>
     (case sp of
        None \<Rightarrow> if is_rtl T (rune_cp r) \<and> nxt \<noteq> 0 then (out, Some ([r], None), did)
                else (out @ [r], None, did)
      | Some S \<Rightarrow>
          if neutral \<and> follows T nxt then (out, Some (push (mirror_rune r) S), did)
          else if is_rtl T (rune_cp r) then (out, Some (push r S), did)
          else (out @ rev (span_runes S) @ [r], None, True)))"

definition rtl_rune :: "tables \<Rightarrow> u16 \<Rightarrow> rune \<Rightarrow> line \<Rightarrow> line" where
  "rtl_rune T nxt r l = (case l of (out, sp, did) \<Rightarrow>
     (case weak_phase T (rune_cp r) sp of (sp, neutral) \<Rightarrow>
        span_phase T nxt r neutral (out, sp, did)))"

definition next_cp :: "rune list \<Rightarrow> u16" where
  "next_cp rs = (case rs of [] \<Rightarrow> 0 | r # _ \<Rightarrow> rune_cp r)"

fun close_line :: "line \<Rightarrow> rune list \<times> bool" where
  "close_line (out, None, did) = (out, did)"
| "close_line (out, Some (A, W), did) =
     (out @ rev (A @ rev (case W of None \<Rightarrow> [] | Some W \<Rightarrow> W)), True)"

fun rtl_go :: "tables \<Rightarrow> rune list \<Rightarrow> line \<Rightarrow> rune list \<times> bool" where
  "rtl_go T [] l = close_line l"
| "rtl_go T (r # rs) l = rtl_go T rs (rtl_rune T (next_cp rs) r l)"

definition rtl_runes :: "tables \<Rightarrow> rune list \<Rightarrow> rune list \<times> bool" where
  "rtl_runes T rs = rtl_go T rs ([], None, False)"

section \<open>Simulation\<close>

definition line_rune :: "rune \<Rightarrow> bool" where
  "line_rune r \<longleftrightarrow> rune_ok r \<and> hd r \<noteq> 0 \<and> rune_cp r \<noteq> 0"

definition line_ok :: "rune list \<Rightarrow> bool" where
  "line_ok rs \<longleftrightarrow> (\<forall>r \<in> set rs. line_rune r)"

definition runes_ok :: "rune list \<Rightarrow> bool" where
  "runes_ok rs \<longleftrightarrow> (\<forall>r \<in> set rs. rune_ok r)"

definition holds_at :: "rtl_state \<Rightarrow> mem \<Rightarrow> line \<Rightarrow> mem \<Rightarrow> bool" where
  "holds_at s xs l Y \<longleftrightarrow> (case l of (out, sp, did) \<Rightarrow>
     rt_buf s = xs @ concat out @ concat (open_runes sp) @ Y \<and>
     runes_ok (open_runes sp) \<and> did_transform s = did \<and>
     rtl_span_start s = map_option (\<lambda>_. length xs + length (concat out)) sp \<and>
     weak_ltr_span_start s =
       (case sp of Some (A, Some W) \<Rightarrow> Some (length xs + length (concat out) + length (concat A))
        | _ \<Rightarrow> None))"

definition line_pos :: "mem \<Rightarrow> line \<Rightarrow> nat" where
  "line_pos xs l = (case l of (out, sp, did) \<Rightarrow>
     length xs + length (concat out) + length (concat (open_runes sp)))"

lemma length_concat_rev [simp]: "length (concat (rev rs)) = length (concat rs)"
  by (induction rs) auto

lemma open_runes_simps [simp]:
  "open_runes None = []" "open_runes (Some (A, None)) = A" "open_runes (Some (A, Some W)) = A @ W"
  by (simp_all add: open_runes_def)

lemma runes_ok_simps [simp]:
  "runes_ok []" "runes_ok (r # rs) = (rune_ok r \<and> runes_ok rs)"
  "runes_ok (rs @ ts) = (runes_ok rs \<and> runes_ok ts)" "runes_ok (rev rs) = runes_ok rs"
  by (auto simp: runes_ok_def)

lemma reverse_tail:
  assumes "runes_ok W" and "p = length xs" and "q = length xs + length (concat W)"
  shows "reverse_span (xs @ concat W @ Y) p q = Some (xs @ concat (rev W) @ Y)"
  using assms reverse_span_runes by (simp add: runes_ok_def)

lemma rtl_weak_sim:
  assumes "holds_at s xs (out, sp, did) Y" and "p = line_pos xs (out, sp, did)"
  obtains s' where "rtl_weak T s c p = Some (s', snd (weak_phase T c sp))"
    "holds_at s' xs (out, fst (weak_phase T c sp), did) Y"
    "rt_iter s' = rt_iter s" "rt_next s' = rt_next s" "rt_next_ptr s' = rt_next_ptr s"
    "line_pos xs (out, fst (weak_phase T c sp), did) = p"
proof (cases sp)
  case None
  then show ?thesis using assms
    by (intro that [of s]) (auto simp: rtl_weak_def weak_phase_def holds_at_def)
next
  case (Some S)
  obtain A W where S: "S = (A, W)" by (cases S)
  note h = assms(1) [unfolded holds_at_def Some S, simplified]
  show ?thesis
  proof (cases W)
    case W: None
    show ?thesis
    proof (cases "is_weak_ltr c")
      case True
      with h assms(2) show ?thesis
        by (intro that [of "s\<lparr>weak_ltr_span_start := Some p\<rparr>"])
          (auto simp: rtl_weak_def weak_phase_def holds_at_def Some S W line_pos_def)
    next
      case False
      with h assms(2) show ?thesis
        by (intro that [of s])
          (auto simp: rtl_weak_def weak_phase_def holds_at_def Some S W line_pos_def)
    qed
  next
    case W: (Some V)
    show ?thesis
    proof (cases "is_weak_ltr c \<or> is_neutral T c")
      case True
      with h assms(2) show ?thesis
        by (intro that [of s])
          (auto simp: rtl_weak_def weak_phase_def holds_at_def Some S W line_pos_def)
    next
      case False
      have "reverse_span ((xs @ concat out @ concat A) @ concat V @ Y)
          (length xs + length (concat out) + length (concat A)) p
        = Some ((xs @ concat out @ concat A) @ concat (rev V) @ Y)"
        using h assms(2) by (intro reverse_tail) (simp_all add: W line_pos_def Some S)
      with False h assms(2) show ?thesis
        by (intro that [of "s\<lparr>rt_buf := xs @ concat out @ concat A @ concat (rev V) @ Y,
              weak_ltr_span_start := None\<rparr>"])
          (simp_all add: rtl_weak_def weak_phase_def holds_at_def Some S W line_pos_def)
    qed
  qed
qed

lemma open_runes_push: "open_runes (Some (push r S)) = span_runes S @ [r]"
  by (cases S rule: span_runes.cases) auto

lemma rune_ok_mirror:
  assumes "rune_ok r"
  shows "rune_ok (mirror_rune r)" "length (mirror_rune r) = length r"
proof -
  obtain b bs where r: "r = b # bs" using assms by (cases r) (auto simp: rune_ok_def)
  have "utf8_ct (ucast (mirror b)) = utf8_ct (ucast b)"
    by (auto simp: mirror_code utf8_ct_def)
  with assms show "rune_ok (mirror_rune r)"
    by (simp add: rune_ok_def rune_len_def mirror_rune_def r)
  show "length (mirror_rune r) = length r" by (simp add: mirror_rune_def r)
qed

lemma push_weak:
  "(case push r S of (A, Some W) \<Rightarrow> Some (k + length (concat A)) | _ \<Rightarrow> None)
     = (case S of (A, Some W) \<Rightarrow> Some (k + length (concat A)) | _ \<Rightarrow> None)"
  by (cases S rule: span_runes.cases) auto

lemma rtl_span_sim:
  assumes h: "holds_at s xs (out, sp, did) (r @ X)" and p: "p = line_pos xs (out, sp, did)"
    and r: "rune_ok r" and nxt: "rt_next s = nxt"
    and l'_def: "l' = span_phase T nxt r neutral (out, sp, did)"
  obtains s' where "rtl_span T s neutral (rune_cp r) p = Some s'" "holds_at s' xs l' X"
    "rt_iter s' = rt_iter s" "rt_next s' = rt_next s" "rt_next_ptr s' = rt_next_ptr s"
    "line_pos xs l' = p + length r"
proof (cases sp)
  case None
  note h = h [unfolded holds_at_def None, simplified]
  show ?thesis
  proof (cases "is_rtl T (rune_cp r) \<and> nxt \<noteq> 0")
    case True
    with h p r nxt show ?thesis
      by (intro that [of "s\<lparr>rtl_span_start := Some p\<rparr>"])
        (simp_all add: l'_def None span_phase_def rtl_span_def holds_at_def line_pos_def)
  next
    case False
    with h p nxt show ?thesis
      by (intro that [of s])
        (auto simp: l'_def None span_phase_def rtl_span_def holds_at_def line_pos_def)
  qed
next
  case (Some S)
  have o: "open_runes sp = span_runes S" by (simp add: open_runes_def Some)
  note h = h [unfolded holds_at_def, simplified, unfolded o]
  let ?L = "xs @ concat out @ concat (span_runes S)"
  have pL: "p = length ?L" by (simp add: p line_pos_def o)
  have weak: "weak_ltr_span_start s = (case Some (push r' S) of
      Some (A, Some W) \<Rightarrow> Some (length xs + length (concat out) + length (concat A)) | _ \<Rightarrow> None)" for r'
    using h push_weak [where r = r' and S = S] by (simp add: Some)
  show ?thesis
  proof (cases "neutral \<and> follows T nxt")
    case True
    have "apply_swaps (?L @ r @ X) p = Some (?L @ mirror_rune r @ X)"
      by (rule apply_swaps_rune [OF r pL])
    with h True weak [of "mirror_rune r"] pL nxt rune_ok_mirror [OF r] show ?thesis
      by (intro that [of "s\<lparr>rt_buf := ?L @ mirror_rune r @ X\<rparr>"])
        (simp_all add: l'_def Some span_phase_def rtl_span_def holds_at_def line_pos_def
          open_runes_push follows_def)
  next
    case neu: False
    show ?thesis
    proof (cases "is_rtl T (rune_cp r)")
      case True
      with h neu weak [of r] pL r nxt show ?thesis
        by (intro that [of s])
          (auto simp: l'_def Some span_phase_def rtl_span_def holds_at_def line_pos_def
            open_runes_push follows_def)
    next
      case False
      have "reverse_span ((xs @ concat out) @ concat (span_runes S) @ r @ X)
          (length xs + length (concat out)) p
        = Some ((xs @ concat out) @ concat (rev (span_runes S)) @ r @ X)"
        using h pL by (intro reverse_tail) simp_all
      with h neu False pL r nxt show ?thesis
        by (intro that [of "s\<lparr>rt_buf := xs @ concat out @ concat (rev (span_runes S)) @ r @ X,
              did_transform := True, rtl_span_start := None, weak_ltr_span_start := None\<rparr>"])
          (auto simp: l'_def Some span_phase_def rtl_span_def holds_at_def line_pos_def follows_def)
    qed
  qed
qed

text \<open>The state at the head of the loop: \<open>r\<close> has been read, \<open>rs\<close> is left.\<close>

definition rtl_ready :: "rtl_state \<Rightarrow> mem \<Rightarrow> line \<Rightarrow> rune \<Rightarrow> rune list \<Rightarrow> mem \<Rightarrow> bool" where
  "rtl_ready s xs l r rs ys \<longleftrightarrow> holds_at s xs l (r @ concat rs @ ys) \<and>
     rt_next s = rune_cp r \<and> rt_next_ptr s = Some (line_pos xs l) \<and>
     rt_iter s = line_pos xs l + length r"

lemma holds_at_prefix:
  assumes "holds_at s xs l Y"
  obtains L where "rt_buf s = L @ Y" "length L = line_pos xs l"
proof -
  obtain out sp did where l: "l = (out, sp, did)" by (cases l)
  show ?thesis
    using assms by (intro that [of "xs @ concat out @ concat (open_runes sp)"])
      (auto simp: holds_at_def line_pos_def l)
qed

lemma rtl_read_sim:
  assumes h: "rtl_ready s xs l r rs ys" and rs: "line_ok rs"
    and e: "e = line_pos xs l + length r + length (concat rs)"
  obtains s1 where "rtl_read s e = Some s1" "holds_at s1 xs l (r @ concat rs @ ys)"
    "rt_next s1 = next_cp rs"
    "case rs of [] \<Rightarrow> rt_iter s1 = e
     | r' # rs' \<Rightarrow> rt_next_ptr s1 = Some (line_pos xs l + length r) \<and>
                  rt_iter s1 = line_pos xs l + length r + length r'"
proof -
  from h have s: "holds_at s xs l (r @ concat rs @ ys)" "rt_iter s = line_pos xs l + length r"
    by (auto simp: rtl_ready_def)
  from holds_at_prefix [OF s(1)] obtain L where
    L: "rt_buf s = L @ r @ concat rs @ ys" "length L = line_pos xs l" by blast
  show ?thesis
  proof (cases rs)
    case Nil
    with s e show ?thesis
      by (intro that [of "s\<lparr>rt_next := 0, rt_next_ptr := None\<rparr>"])
        (simp_all add: rtl_read_def next_cp_def holds_at_def split: prod.splits)
  next
    case (Cons r' rs')
    from rs have r': "rune_ok r'" "hd r' \<noteq> 0" by (auto simp: Cons line_ok_def line_rune_def)
    then obtain b bs where b: "r' = b # bs" "b \<noteq> 0" by (cases r') (auto simp: rune_ok_def)
    have "rd (L @ r @ r' @ concat rs' @ ys) (rt_iter s) = Some b"
      using rd_split [of "rt_iter s" "L @ r" b] L(2) s(2) by (simp add: b)
    moreover have "read_utf8 (L @ r @ r' @ concat rs' @ ys) (rt_iter s)
        = Some (rune_cp r', rt_iter s + length r')"
      using read_utf8_rune [OF r'(1), of "rt_iter s" "L @ r"] L(2) s(2) by simp
    moreover have "rt_iter s < e" using e s(2) b by (simp add: Cons)
    ultimately show ?thesis
      using s L b(2)
      by (intro that [of "s\<lparr>rt_next_ptr := Some (rt_iter s), rt_iter := rt_iter s + length r',
             rt_next := rune_cp r'\<rparr>"])
        (simp_all add: rtl_read_def next_cp_def Cons holds_at_def split: prod.splits)
  qed
qed

lemma rtl_step_sim:
  assumes h: "rtl_ready s xs l r rs ys" and r: "line_rune r" and rs: "line_ok rs"
    and e: "e = line_pos xs l + length r + length (concat rs)"
    and l'_def: "l' = rtl_rune T (next_cp rs) r l"
  obtains s' where "rtl_step T e s = Some s'" "rt_next s' = next_cp rs"
    "line_pos xs l' = line_pos xs l + length r" "holds_at s' xs l' (concat rs @ ys)"
    "case rs of [] \<Rightarrow> rt_iter s' = e
     | r' # rs' \<Rightarrow> rtl_ready s' xs l' r' rs' ys"
proof -
  obtain out sp did where l: "l = (out, sp, did)" by (cases l)
  let ?p = "line_pos xs l" and ?c = "rune_cp r"
  from rtl_read_sim [OF h rs e] obtain s1 where
    s1: "rtl_read s e = Some s1" "holds_at s1 xs (out, sp, did) (r @ concat rs @ ys)"
      "rt_next s1 = next_cp rs"
      "case rs of [] \<Rightarrow> rt_iter s1 = e
       | r' # rs' \<Rightarrow> rt_next_ptr s1 = Some (?p + length r) \<and> rt_iter s1 = ?p + length r + length r'"
    unfolding l .
  let ?sp = "fst (weak_phase T ?c sp)" and ?n = "snd (weak_phase T ?c sp)"
  have "?p = line_pos xs (out, sp, did)" by (simp add: l)
  from rtl_weak_sim [OF s1(2) this] obtain s2 where
    s2: "rtl_weak T s1 ?c ?p = Some (s2, ?n)" "holds_at s2 xs (out, ?sp, did) (r @ concat rs @ ys)"
      "rt_iter s2 = rt_iter s1" "rt_next s2 = rt_next s1" "rt_next_ptr s2 = rt_next_ptr s1"
      "line_pos xs (out, ?sp, did) = ?p" .
  have ok: "rune_ok r" using r by (simp add: line_rune_def)
  have l': "l' = span_phase T (next_cp rs) r ?n (out, ?sp, did)"
    by (simp add: l'_def rtl_rune_def l split: prod.splits)
  have "rt_next s2 = next_cp rs" using s1(3) s2(4) by simp
  from rtl_span_sim [OF s2(2) s2(6) [symmetric] ok this l'] obtain s3 where
    s3: "rtl_span T s2 ?n ?c ?p = Some s3" "holds_at s3 xs l' (concat rs @ ys)"
      "rt_iter s3 = rt_iter s2" "rt_next s3 = rt_next s2" "rt_next_ptr s3 = rt_next_ptr s2"
      "line_pos xs l' = ?p + length r" .
  have "rtl_step T e s = Some s3"
    using h s1(1) s2(1) s3(1) by (simp add: rtl_step_def rtl_ready_def)
  with s1 s2 s3 show ?thesis
    by (intro that [of s3]) (auto simp: rtl_ready_def next_cp_def split: list.splits)
qed

lemma rtl_loop_sim:
  assumes "line_rune r" and "line_ok rs" and "rtl_ready s xs l r rs ys"
    and "e = line_pos xs l + length r + length (concat rs)"
  shows "\<exists>s' l'. rtl_loop T e s = Some s' \<and> holds_at s' xs l' ys \<and> rt_iter s' = e \<and>
           line_pos xs l' = e \<and> rtl_go T (r # rs) l = close_line l'"
  using assms
proof (induction rs arbitrary: s l r)
  case Nil
  from rtl_step_sim [OF Nil(3,1,2,4) refl, of T] obtain s1 where
    "rtl_step T e s = Some s1" "rt_next s1 = 0" "line_pos xs (rtl_rune T 0 r l) = e"
    "holds_at s1 xs (rtl_rune T 0 r l) ys" "rt_iter s1 = e"
    using Nil(4) by (auto simp: next_cp_def)
  then show ?case
    by (intro exI [of _ s1] exI [of _ "rtl_rune T 0 r l"])
      (simp add: next_cp_def rtl_loop.simps [of T e s])
next
  case (Cons r' rs)
  let ?l = "rtl_rune T (next_cp (r' # rs)) r l"
  from rtl_step_sim [OF Cons.prems(3,1,2,4) refl, of T] obtain s1 where
    s1: "rtl_step T e s = Some s1" "rt_next s1 = rune_cp r'"
      "line_pos xs ?l = line_pos xs l + length r" "rtl_ready s1 xs ?l r' rs ys"
    by (auto simp: next_cp_def)
  have r': "line_rune r'" "line_ok rs" using Cons.prems(2) by (auto simp: line_ok_def)
  have "e = line_pos xs ?l + length r' + length (concat rs)" using Cons.prems(4) s1(3) by simp
  from Cons.IH [OF r' s1(4) this] show ?case
    using s1 r'(1) by (auto simp: line_rune_def rtl_loop.simps [of T e s])
qed

lemma rtl_finish_sim:
  assumes "holds_at s xs l ys" and "rt_iter s = line_pos xs l"
  shows "rtl_finish s = Some (xs @ concat (fst (close_line l)) @ ys, snd (close_line l))"
proof (cases l rule: close_line.cases)
  case (1 out did)
  with assms show ?thesis by (simp add: holds_at_def rtl_finish_def)
next
  case (2 out A W did)
  note h = assms(1) [unfolded holds_at_def 2, simplified]
  show ?thesis
  proof (cases W)
    case None
    have "reverse_span ((xs @ concat out) @ concat A @ ys) (length xs + length (concat out)) (rt_iter s)
        = Some ((xs @ concat out) @ concat (rev A) @ ys)"
      using h assms(2) by (intro reverse_tail) (simp_all add: None 2 line_pos_def)
    with h show ?thesis by (simp add: rtl_finish_def 2 None)
  next
    case (Some V)
    have "reverse_span ((xs @ concat out @ concat A) @ concat V @ ys)
          (length xs + length (concat out) + length (concat A)) (rt_iter s)
        = Some ((xs @ concat out @ concat A) @ concat (rev V) @ ys)"
      using h assms(2) by (intro reverse_tail) (simp_all add: Some 2 line_pos_def)
    moreover have "reverse_span ((xs @ concat out) @ concat (A @ rev V) @ ys)
          (length xs + length (concat out)) (rt_iter s)
        = Some ((xs @ concat out) @ concat (rev (A @ rev V)) @ ys)"
      using h assms(2) by (intro reverse_tail) (simp_all add: Some 2 line_pos_def)
    ultimately show ?thesis using h by (simp add: rtl_finish_def 2 Some)
  qed
qed

theorem rtl_apply_runes:
  assumes rs: "line_ok rs" "rs \<noteq> []" and e: "e = length xs + length (concat rs)"
  shows "rtl_apply T (xs @ concat rs @ ys) (length xs) e
     = Some (xs @ concat (fst (rtl_runes T rs)) @ ys, snd (rtl_runes T rs))"
proof -
  obtain r rs' where r: "rs = r # rs'" using rs(2) by (cases rs) auto
  from rs have ok: "line_rune r" "line_ok rs'" by (auto simp: r line_ok_def)
  let ?l = "([], None, False) :: line" and ?m = "xs @ r @ concat rs' @ ys"
  let ?s = "\<lparr>rt_buf = ?m, rt_iter = length xs + length r, rt_next_ptr = Some (length xs),
      rt_next = rune_cp r, rtl_span_start = None, weak_ltr_span_start = None, did_transform = False\<rparr>"
  have "read_utf8 ?m (length xs) = Some (rune_cp r, length xs + length r)"
    using ok(1) read_utf8_rune [of r "length xs" xs] by (simp add: line_rune_def)
  moreover have "rtl_ready ?s xs ?l r rs' ys"
    by (simp add: rtl_ready_def holds_at_def line_pos_def)
  then obtain s' l' where "rtl_loop T e ?s = Some s'" "holds_at s' xs l' ys" "rt_iter s' = line_pos xs l'"
    "rtl_go T (r # rs') ?l = close_line l'"
    using rtl_loop_sim [OF ok, of ?s xs ?l ys e T] e by (auto simp: line_pos_def r)
  ultimately show ?thesis
    using rtl_finish_sim [of s' xs l' ys] by (simp add: rtl_apply_def r rtl_runes_def)
qed

end
