(* ===== verification/Bidi.thy ===== *)
theory Bidi
  imports Rtl_Refine "HOL-Library.Multiset"
begin

text \<open>
  What the right-to-left pass does to a line, read off its description on runes: which
  runes it moves, where, and when a second pass undoes the first.
\<close>

section \<open>Classes of runes\<close>

definition strong_rtl :: "tables \<Rightarrow> rune \<Rightarrow> bool" where
  "strong_rtl T r \<longleftrightarrow> is_rtl T (rune_cp r) \<and> \<not> is_neutral T (rune_cp r) \<and> \<not> is_weak_ltr (rune_cp r)"

definition strong_ltr :: "tables \<Rightarrow> rune \<Rightarrow> bool" where
  "strong_ltr T r \<longleftrightarrow> \<not> is_rtl T (rune_cp r) \<and> \<not> is_neutral T (rune_cp r) \<and> \<not> is_weak_ltr (rune_cp r)"

definition neutral :: "tables \<Rightarrow> rune \<Rightarrow> bool" where
  "neutral T r \<longleftrightarrow> is_neutral T (rune_cp r) \<and> \<not> is_rtl T (rune_cp r) \<and> \<not> is_weak_ltr (rune_cp r)"

definition numeral_rune :: "tables \<Rightarrow> rune \<Rightarrow> bool" where
  "numeral_rune T r \<longleftrightarrow> is_weak_ltr (rune_cp r) \<and> \<not> is_rtl T (rune_cp r)"

lemmas rune_classes = strong_rtl_def strong_ltr_def neutral_def numeral_rune_def

section \<open>Nothing is lost\<close>

text \<open>A rune up to the exchange of paired characters.\<close>

definition canon :: "rune \<Rightarrow> rune" where
  "canon r = (if hd r \<in> {0x7D, 0x5D, 0x29, 0x3E} then mirror_rune r else r)"

lemma canon_mirror: "r \<noteq> [] \<Longrightarrow> canon (mirror_rune r) = canon r"
  by (cases r) (auto simp: canon_def mirror_rune_def mirror_code)

definition line_runes :: "line \<Rightarrow> rune list" where
  "line_runes l = (case l of (out, sp, did) \<Rightarrow> out @ open_runes sp)"

lemma mset_weak_phase:
  "mset (map f (open_runes (fst (weak_phase T c sp)))) = mset (map f (open_runes sp))"
  by (auto simp: weak_phase_def open_runes_def rev_map [symmetric] split: option.splits prod.splits)

lemma mset_span_phase:
  assumes "f (mirror_rune r) = f r"
  shows "mset (map f (line_runes (span_phase T n r neu l))) = add_mset (f r) (mset (map f (line_runes l)))"
proof -
  obtain out sp did where l: "l = (out, sp, did)" by (cases l)
  show ?thesis
    using assms
    by (cases sp) (auto simp: l line_runes_def span_phase_def open_runes_push,
      simp_all add: open_runes_def rev_map [symmetric])
qed

lemma mset_close_line: "mset (map f (fst (close_line l))) = mset (map f (line_runes l))"
  by (cases l rule: close_line.cases)
    (auto simp: line_runes_def open_runes_def rev_map [symmetric] split: option.splits)

lemma mset_rtl_go:
  "\<forall>r \<in> set rs. f (mirror_rune r) = f r \<Longrightarrow>
     mset (map f (fst (rtl_go T rs l))) = mset (map f (line_runes l)) + mset (map f rs)"
proof (induction rs arbitrary: l)
  case Nil
  show ?case using mset_close_line [of f l] by simp
next
  case (Cons r rs)
  obtain out sp did where l: "l = (out, sp, did)" by (cases l)
  have "mset (map f (line_runes (rtl_rune T (next_cp rs) r l)))
      = add_mset (f r) (mset (map f (line_runes l)))"
    using mset_weak_phase [of f T "rune_cp r" sp] Cons.prems
      mset_span_phase [of f r T "next_cp rs" "snd (weak_phase T (rune_cp r) sp)"
        "(out, fst (weak_phase T (rune_cp r) sp), did)"]
    by (simp add: rtl_rune_def l case_prod_beta) (simp add: line_runes_def)
  with Cons show ?case by simp
qed

lemma mset_rtl_runes:
  "\<forall>r \<in> set rs. f (mirror_rune r) = f r \<Longrightarrow> mset (map f (fst (rtl_runes T rs))) = mset (map f rs)"
  using mset_rtl_go [of rs f T "([], None, False)"] by (simp add: rtl_runes_def line_runes_def)

lemma line_ok_nonempty: "line_ok rs \<Longrightarrow> r \<in> set rs \<Longrightarrow> r \<noteq> []"
  by (auto simp: line_ok_def line_rune_def rune_ok_def)

lemma rtl_runes_mset:
  "line_ok rs \<Longrightarrow> mset (map canon (fst (rtl_runes T rs))) = mset (map canon rs)"
  using canon_mirror line_ok_nonempty by (intro mset_rtl_runes) blast

lemma rtl_runes_length:
  assumes "line_ok rs"
  shows "length (concat (fst (rtl_runes T rs))) = length (concat rs)"
proof -
  have "mset (map length (fst (rtl_runes T rs))) = mset (map length rs)"
    using line_ok_nonempty [OF assms] by (intro mset_rtl_runes) (auto simp: mirror_rune_def)
  from arg_cong [OF this, of sum_mset] show ?thesis
    by (simp only: sum_mset_sum_list length_concat)
qed

text \<open>A pass that reports no change made none.\<close>

lemma rtl_go_unchanged:
  "rtl_go T rs (out, sp, did) = (res, False) \<Longrightarrow> sp = None \<and> \<not> did \<and> res = out @ rs"
proof (induction rs arbitrary: out sp did)
  case Nil
  then show ?case by (cases sp) auto
next
  case (Cons r rs)
  obtain out' sp' did' where l: "rtl_rune T (next_cp rs) r (out, sp, did) = (out', sp', did')"
    by (cases "rtl_rune T (next_cp rs) r (out, sp, did)")
  with Cons.prems Cons.IH have "sp' = None" "\<not> did'" "res = out' @ rs" by auto
  with l show ?case
    by (auto simp: rtl_rune_def weak_phase_def span_phase_def split: option.splits prod.splits if_splits)
qed

section \<open>Lines without right-to-left runes\<close>

lemma rtl_runes_ltr:
  assumes "\<forall>r \<in> set rs. \<not> is_rtl T (rune_cp r)"
  shows "rtl_runes T rs = (rs, False)"
proof -
  have "rtl_go T rs (out, None, False) = (out @ rs, False)" for out
    using assms
    by (induction rs arbitrary: out) (auto simp: rtl_rune_def weak_phase_def span_phase_def)
  from this [of "[]"] show ?thesis by (simp add: rtl_runes_def)
qed

section \<open>A right-to-left line\<close>

text \<open>The steps inside an open span, by class of the rune.\<close>

lemma rtl_rune_strong:
  assumes "strong_rtl T r"
  shows "rtl_rune T n r (out, Some (A, W), did)
       = (out, Some (A @ rev (case W of None \<Rightarrow> [] | Some W \<Rightarrow> W) @ [r], None), did)"
  using assms by (auto simp: rtl_rune_def weak_phase_def span_phase_def strong_rtl_def)

lemma rtl_rune_neutral:
  assumes "is_neutral T (rune_cp r)" "\<not> is_weak_ltr (rune_cp r)" and "follows T n"
  shows "rtl_rune T n r (out, Some S, did) = (out, Some (push (mirror_rune r) S), did)"
  using assms by (cases S) (auto simp: rtl_rune_def weak_phase_def span_phase_def)

lemma rtl_rune_numeral:
  assumes "numeral_rune T r" and "follows T n"
  shows "rtl_rune T n r (out, Some (A, W), did)
       = (out, Some (A, Some ((case W of None \<Rightarrow> [] | Some W \<Rightarrow> W) @ [mirror_rune r])), did)"
  using assms by (auto simp: rtl_rune_def weak_phase_def span_phase_def numeral_rune_def)

lemma rtl_rune_start:
  assumes "is_rtl T (rune_cp r)" and "n \<noteq> 0"
  shows "rtl_rune T n r (out, None, did) = (out, Some ([r], None), did)"
  using assms by (simp add: rtl_rune_def weak_phase_def span_phase_def)

lemma rtl_rune_ltr_outside:
  "\<not> is_rtl T (rune_cp r) \<or> n = 0 \<Longrightarrow> rtl_rune T n r (out, None, did) = (out @ [r], None, did)"
  by (auto simp: rtl_rune_def weak_phase_def span_phase_def)

lemma rtl_rune_close:
  assumes "strong_ltr T r"
  shows "rtl_rune T n r (out, Some (A, None), did) = (out @ rev A @ [r], None, True)"
  using assms by (simp add: rtl_rune_def weak_phase_def span_phase_def strong_ltr_def)

definition rtl_body :: "tables \<Rightarrow> rune \<Rightarrow> bool" where
  "rtl_body T r \<longleftrightarrow> (is_rtl T (rune_cp r) \<or> is_neutral T (rune_cp r)) \<and> \<not> is_weak_ltr (rune_cp r)"

definition mirror_neutral :: "tables \<Rightarrow> rune \<Rightarrow> rune" where
  "mirror_neutral T r = (if is_neutral T (rune_cp r) then mirror_rune r else r)"

lemma follows_next: "\<forall>r \<in> set rs. rtl_body T r \<Longrightarrow> follows T (next_cp rs)"
  by (cases rs) (auto simp: next_cp_def follows_def rtl_body_def)

lemma rtl_go_body:
  "\<forall>r \<in> set rs. rtl_body T r \<Longrightarrow>
     rtl_go T rs (out, Some (A, None), did) = (out @ rev (A @ map (mirror_neutral T) rs), True)"
proof (induction rs arbitrary: A)
  case Nil
  then show ?case by simp
next
  case (Cons r rs)
  then have f: "follows T (next_cp rs)" and r: "rtl_body T r" using follows_next by auto
  have "rtl_rune T (next_cp rs) r (out, Some (A, None), did) = (out, Some (A @ [mirror_neutral T r], None), did)"
  proof (cases "is_neutral T (rune_cp r)")
    case True
    then show ?thesis using r f by (simp add: rtl_rune_neutral rtl_body_def mirror_neutral_def)
  next
    case False
    then show ?thesis
      using r rtl_rune_strong [of T r _ out A None did]
      by (simp add: rtl_body_def mirror_neutral_def strong_rtl_def)
  qed
  with Cons show ?case by simp
qed

lemma rtl_runes_body:
  assumes "is_rtl T (rune_cp r)" and "rs \<noteq> []" and "line_ok rs" and "\<forall>r \<in> set rs. rtl_body T r"
  shows "rtl_runes T (r # rs) = (rev (r # map (mirror_neutral T) rs), True)"
proof -
  have "next_cp rs \<noteq> 0"
    using assms(2,3) by (cases rs) (auto simp: next_cp_def line_ok_def line_rune_def)
  then show ?thesis
    using rtl_go_body [OF assms(4), of "[]" "[r]" False] assms(1)
    by (simp add: rtl_runes_def rtl_rune_start)
qed

section \<open>Numbers inside right-to-left text\<close>

lemma follows_numeral: "numeral_rune T r \<Longrightarrow> follows T (rune_cp r)"
  by (simp add: numeral_rune_def follows_def)

lemma rtl_go_numerals:
  assumes "\<forall>r \<in> set ds. numeral_rune T r \<and> mirror_rune r = r" and "follows T (next_cp rs)"
  shows "rtl_go T (ds @ rs) (out, Some (A, Some W), did) = rtl_go T rs (out, Some (A, Some (W @ ds)), did)"
  using assms
proof (induction ds arbitrary: W)
  case (Cons d ds)
  have "follows T (next_cp (ds @ rs))"
    using Cons.prems follows_numeral by (cases ds) (auto simp: next_cp_def)
  with Cons show ?case by (simp add: rtl_rune_numeral)
qed simp

lemma rtl_go_strong:
  assumes "\<forall>r \<in> set rs. strong_rtl T r"
  shows "rtl_go T (rs @ ts) (out, Some (A, None), did) = rtl_go T ts (out, Some (A @ rs, None), did)"
  using assms
proof (induction rs arbitrary: A)
  case (Cons r rs)
  then show ?case using rtl_rune_strong [of T r _ out A None did] by simp
qed simp

text \<open>The pass up to the end of a number: letters and digits wait in the open span.\<close>

lemma rtl_runes_number_open:
  assumes "\<forall>r \<in> set as. strong_rtl T r" "as \<noteq> []"
    and "\<forall>r \<in> set ds. numeral_rune T r \<and> mirror_rune r = r" "ds \<noteq> []"
    and "line_ok (as @ ds)" and ts: "follows T (next_cp ts)"
  shows "rtl_runes T (as @ ds @ ts) = rtl_go T ts ([], Some (as, Some ds), False)"
proof -
  obtain a as' where as: "as = a # as'" using assms(2) by (cases as) auto
  obtain d ds' where ds: "ds = d # ds'" using assms(4) by (cases ds) auto
  have a: "is_rtl T (rune_cp a)" "\<forall>r \<in> set as'. strong_rtl T r" using assms(1) by (auto simp: as strong_rtl_def)
  have d: "numeral_rune T d" "mirror_rune d = d" "\<forall>r \<in> set ds'. numeral_rune T r \<and> mirror_rune r = r"
    using assms(3) by (auto simp: ds)
  have nz: "next_cp (as' @ ds @ ts) \<noteq> 0"
    using assms(5) by (cases as') (auto simp: as ds next_cp_def line_ok_def line_rune_def)
  have fd: "follows T (next_cp (ds' @ ts))"
    using d(3) ts follows_numeral by (cases ds') (auto simp: next_cp_def)
  have "rtl_runes T (as @ ds @ ts) = rtl_go T (as' @ ds @ ts) ([], Some ([a], None), False)"
    using nz a(1) by (simp add: rtl_runes_def as rtl_rune_start)
  also have "\<dots> = rtl_go T (ds @ ts) ([], Some (as, None), False)"
    using rtl_go_strong [OF a(2)] by (simp add: as)
  also have "\<dots> = rtl_go T (ds' @ ts) ([], Some (as, Some [d]), False)"
    using rtl_rune_numeral [OF d(1) fd, of "[]" as None] by (simp add: ds d(2))
  also have "\<dots> = rtl_go T ts ([], Some (as, Some ds), False)"
    using rtl_go_numerals [OF d(3) ts] by (simp add: ds)
  finally show ?thesis .
qed

text \<open>Between right-to-left words a number keeps its direction.\<close>

lemma rtl_runes_number:
  assumes "\<forall>r \<in> set as. strong_rtl T r" "as \<noteq> []"
    and "\<forall>r \<in> set ds. numeral_rune T r \<and> mirror_rune r = r" "ds \<noteq> []"
    and "\<forall>r \<in> set bs. strong_rtl T r" "bs \<noteq> []" and "line_ok (as @ ds)"
  shows "rtl_runes T (as @ ds @ bs) = (rev bs @ ds @ rev as, True)"
proof -
  obtain b bs' where bs: "bs = b # bs'" using assms(6) by (cases bs) auto
  have b: "strong_rtl T b" "\<forall>r \<in> set bs'. strong_rtl T r" using assms(5) by (auto simp: bs)
  have "follows T (next_cp bs)" using b(1) by (simp add: bs next_cp_def follows_def strong_rtl_def)
  from rtl_runes_number_open [OF assms(1-4,7) this]
  have "rtl_runes T (as @ ds @ bs) = rtl_go T bs' ([], Some (as @ rev ds @ [b], None), False)"
    using rtl_rune_strong [OF b(1), of _ "[]" as "Some ds"] by (simp add: bs)
  also have "\<dots> = (rev bs @ ds @ rev as, True)"
    using rtl_go_strong [OF b(2), of "[]" "[]"] by (simp add: bs)
  finally show ?thesis .
qed

text \<open>
  When the span is closed by a neutral rune in front of left-to-right text, the number has
  not been reversed beforehand, and comes out backwards.
\<close>

lemma rtl_runes_number_closed:
  assumes "\<forall>r \<in> set as. strong_rtl T r" "as \<noteq> []"
    and "\<forall>r \<in> set ds. numeral_rune T r \<and> mirror_rune r = r" "ds \<noteq> []"
    and n: "neutral T n" and l: "strong_ltr T l" "0x20 \<le> rune_cp l" and "line_ok (as @ ds)"
  shows "rtl_runes T (as @ ds @ [n, l]) = (rev ds @ rev as @ [n, l], True)"
proof -
  have "follows T (next_cp [n, l])" using n by (simp add: next_cp_def follows_def neutral_def)
  from rtl_runes_number_open [OF assms(1-4,8) this] n l show ?thesis
    by (auto simp: rtl_rune_def weak_phase_def span_phase_def next_cp_def neutral_def strong_ltr_def follows_def)
qed

section \<open>The second pass\<close>

text \<open>On a line of strong runes the pass reverses each maximal right-to-left run.\<close>

fun flip :: "tables \<Rightarrow> rune list \<Rightarrow> rune list \<Rightarrow> rune list" where
  "flip T A [] = rev A"
| "flip T A (r # rs) = (if strong_rtl T r then flip T (A @ [r]) rs else rev A @ r # flip T [] rs)"

definition strong_line :: "tables \<Rightarrow> rune list \<Rightarrow> bool" where
  "strong_line T rs \<longleftrightarrow> line_ok rs \<and> (\<forall>r \<in> set rs. strong_rtl T r \<or> strong_ltr T r)"

lemma rtl_go_flip:
  assumes "strong_line T rs"
  shows "fst (rtl_go T rs (out, None, did)) = out @ flip T [] rs \<and>
         (\<forall>A. fst (rtl_go T rs (out, Some (A, None), did)) = out @ flip T A rs)"
  using assms
proof (induction rs arbitrary: out did)
  case Nil
  show ?case by simp
next
  case (Cons r rs)
  then have rs: "strong_line T rs" and r: "strong_rtl T r \<or> strong_ltr T r"
    by (auto simp: strong_line_def line_ok_def)
  note IH = Cons.IH [OF rs]
  show ?case
  proof (cases "strong_rtl T r")
    case True
    have "fst (rtl_go T (r # rs) (out, None, did)) = out @ flip T [] (r # rs)"
    proof (cases "next_cp rs = 0")
      case z: True
      then have "rs = []" using rs by (cases rs) (auto simp: strong_line_def next_cp_def line_ok_def line_rune_def)
      then show ?thesis using True by (simp add: next_cp_def rtl_rune_ltr_outside)
    next
      case False
      then show ?thesis using True IH by (simp add: rtl_rune_start strong_rtl_def)
    qed
    then show ?thesis using True IH rtl_rune_strong [OF True, of _ out _ None did] by simp
  next
    case False
    with r have "strong_ltr T r" by simp
    then show ?thesis
      using False IH by (simp add: rtl_rune_close rtl_rune_ltr_outside strong_ltr_def)
  qed
qed

lemma flip_run: "\<forall>r \<in> set B. strong_rtl T r \<Longrightarrow> flip T A (B @ rs) = flip T (A @ B) rs"
  by (induction B arbitrary: A) auto

lemma flip_flip: "\<forall>r \<in> set A. strong_rtl T r \<Longrightarrow> flip T [] (flip T A rs) = A @ rs"
proof (induction rs arbitrary: A)
  case Nil
  then show ?case using flip_run [of "rev A" T "[]" "[]"] by simp
next
  case (Cons r rs)
  then show ?case using flip_run [of "rev A" T "[]"] by simp
qed

lemma set_flip: "set (flip T A rs) = set A \<union> set rs"
  by (induction rs arbitrary: A) auto

lemma strong_line_flip: "strong_line T rs \<Longrightarrow> strong_line T (flip T [] rs)"
  by (simp add: strong_line_def line_ok_def set_flip)

lemma rtl_runes_flip: "strong_line T rs \<Longrightarrow> fst (rtl_runes T rs) = flip T [] rs"
  using rtl_go_flip [of T rs "[]" False] by (simp add: rtl_runes_def)

lemma rtl_runes_involution:
  "strong_line T rs \<Longrightarrow> fst (rtl_runes T (fst (rtl_runes T rs))) = rs"
  by (simp add: rtl_runes_flip strong_line_flip flip_flip)

text \<open>
  A neutral rune at the end of a right-to-left line is moved to its front by the first pass,
  where the second pass does not find it.
\<close>

lemma rtl_runes_trailing_neutral:
  assumes R: "\<forall>r \<in> set rs. strong_rtl T r" "rs \<noteq> []" and n: "neutral T n" "neutral T (mirror_rune n)"
    and ok: "line_ok (rs @ [n])"
  shows "fst (rtl_runes T (rs @ [n])) = mirror_rune n # rev rs"
    and "fst (rtl_runes T (mirror_rune n # rev rs)) = mirror_rune n # rs"
proof -
  obtain r rs' where r: "rs = r # rs'" using R(2) by (cases rs) auto
  have rb: "\<forall>q \<in> set (rs' @ [n]). rtl_body T q" "is_rtl T (rune_cp r)" "line_ok (rs' @ [n])"
    using R n ok by (auto simp: r rtl_body_def neutral_def strong_rtl_def line_ok_def)
  have mn: "map (mirror_neutral T) rs' = rs'"
    using R(1) by (intro map_idI) (auto simp: r mirror_neutral_def strong_rtl_def)
  show "fst (rtl_runes T (rs @ [n])) = mirror_rune n # rev rs"
    using rtl_runes_body [OF rb(2) _ rb(3,1)] n(1)
    by (simp add: r mn mirror_neutral_def neutral_def)
  have sl: "strong_line T (rev rs)" using R(1) ok by (auto simp: strong_line_def line_ok_def)
  have "flip T [] (rev rs) = rs" using flip_run [of "rev rs" T "[]" "[]"] R(1) by simp
  then show "fst (rtl_runes T (mirror_rune n # rev rs)) = mirror_rune n # rs"
    using rtl_go_flip [OF sl, of "[mirror_rune n]" False] n(2)
    by (simp add: rtl_runes_def rtl_rune_ltr_outside neutral_def)
qed

text \<open>
  A right-to-left line with neutral runes inside, blanks and brackets among them, is put back by
  the second pass when it begins and ends with a right-to-left rune.
\<close>

definition rtl_sentence :: "tables \<Rightarrow> rune list \<Rightarrow> bool" where
  "rtl_sentence T rs \<longleftrightarrow> 2 \<le> length rs \<and> line_ok rs \<and> (\<forall>r \<in> set rs. rtl_body T r) \<and>
     (\<forall>r \<in> {hd rs, last rs}. is_rtl T (rune_cp r) \<and> mirror_rune r = r)"

lemma swaps_neutral:
  "\<forall>b \<in> set RTL_SWAPS. rune_len b = 1 \<and> line_rune [mirror b] \<and> \<not> is_weak_ltr (rune_cp [mirror b]) \<and> mirror (mirror b) = b \<and>
     (RANGE (rune_cp [mirror b]) 0x26 0x30 \<or> RANGE (rune_cp [mirror b]) 0x3A 0x41 \<or>
      RANGE (rune_cp [mirror b]) 0x5B 0x61 \<or> RANGE (rune_cp [mirror b]) 0x7B 0xA2)"
  by code_simp

lemma mirror_rune_ascii:
  assumes "line_rune r" and "mirror_rune r \<noteq> r"
  obtains b where "r = [b]" "b \<in> set RTL_SWAPS"
proof -
  obtain b q where r: "r = b # q" using assms(1) by (cases r) (auto simp: line_rune_def rune_ok_def)
  with assms(2) have b: "b \<in> set RTL_SWAPS"
    by (auto simp: mirror_rune_def mirror_code RTL_SWAPS_def split: if_splits)
  with swaps_neutral have "q = []" using assms(1) by (auto simp: r line_rune_def rune_ok_def)
  with r b that show ?thesis by simp
qed

lemma mirror_neutral_body:
  assumes "line_rune r" and "rtl_body T r"
  shows "line_rune (mirror_neutral T r) \<and> rtl_body T (mirror_neutral T r) \<and> mirror_neutral T (mirror_neutral T r) = r"
proof (cases "mirror_neutral T r = r")
  case True
  then show ?thesis using assms by simp
next
  case False
  then have n: "mirror_neutral T r = mirror_rune r" "mirror_rune r \<noteq> r" by (auto simp: mirror_neutral_def split: if_splits)
  from mirror_rune_ascii [OF assms(1) n(2)] obtain b where b: "r = [b]" "b \<in> set RTL_SWAPS" .
  have m: "mirror_rune r = [mirror b]" by (simp add: b(1) mirror_rune_def)
  from swaps_neutral b(2) have s: "line_rune [mirror b]" "\<not> is_weak_ltr (rune_cp [mirror b])" "mirror (mirror b) = b"
    "is_neutral T (rune_cp [mirror b])"
    by (auto simp: is_neutral_def)
  from s(4) have "mirror_neutral T [mirror b] = mirror_rune [mirror b]" by (simp add: mirror_neutral_def)
  then have "mirror_neutral T [mirror b] = r" by (simp add: b(1) mirror_rune_def s(3))
  with s show ?thesis unfolding n(1) m by (simp add: rtl_body_def)
qed

lemma rtl_runes_sentence:
  assumes "rtl_sentence T rs"
  shows "fst (rtl_runes T rs) = rev (map (mirror_neutral T) rs)"
proof -
  obtain r ts where rs: "rs = r # ts" "ts \<noteq> []" using assms by (cases rs) (force simp: rtl_sentence_def)+
  have "mirror_neutral T r = r" using assms by (simp add: rs rtl_sentence_def mirror_neutral_def)
  with rtl_runes_body [of T r ts] assms rs(2) show ?thesis by (simp add: rs(1) rtl_sentence_def line_ok_def)
qed

lemma rtl_sentence_rev:
  assumes "rtl_sentence T rs"
  shows "rtl_sentence T (rev (map (mirror_neutral T) rs))"
    and "hd (rev (map (mirror_neutral T) rs)) = last rs" and "last (rev (map (mirror_neutral T) rs)) = hd rs"
proof -
  have ne: "rs \<noteq> []" using assms by (auto simp: rtl_sentence_def)
  have m: "mirror_neutral T (hd rs) = hd rs" "mirror_neutral T (last rs) = last rs"
    using assms by (simp_all add: rtl_sentence_def mirror_neutral_def)
  show e: "hd (rev (map (mirror_neutral T) rs)) = last rs" "last (rev (map (mirror_neutral T) rs)) = hd rs"
    using ne m by (simp_all add: hd_rev last_rev last_map hd_map)
  show "rtl_sentence T (rev (map (mirror_neutral T) rs))"
    using assms mirror_neutral_body [of _ T] unfolding rtl_sentence_def e by (auto simp: line_ok_def)
qed

lemma rtl_runes_sentence_twice:
  assumes "rtl_sentence T rs"
  shows "fst (rtl_runes T (fst (rtl_runes T rs))) = rs"
proof -
  have "map (mirror_neutral T \<circ> mirror_neutral T) rs = rs"
    using assms mirror_neutral_body [of _ T] by (intro map_idI) (auto simp: rtl_sentence_def line_ok_def)
  then show ?thesis
    using rtl_runes_sentence [OF assms] rtl_runes_sentence [OF rtl_sentence_rev(1) [OF assms]] by (simp add: rev_map)
qed

text \<open>
  The lines that two passes leave as they were, trailing blanks apart: strong runes only, or a
  right-to-left sentence.
\<close>

definition undone_line :: "tables \<Rightarrow> rune list \<Rightarrow> bool" where
  "undone_line T rs \<longleftrightarrow> rs \<noteq> [] \<and>
     (strong_line T rs \<and> (\<forall>r \<in> set rs. last r \<noteq> 0x20) \<or>
      rtl_sentence T rs \<and> last (hd rs) \<noteq> 0x20 \<and> last (last rs) \<noteq> 0x20)"

lemma undone_line_ok: "undone_line T rs \<Longrightarrow> line_ok rs"
  by (auto simp: undone_line_def strong_line_def rtl_sentence_def)

lemma undone_line_twice: "undone_line T rs \<Longrightarrow> fst (rtl_runes T (fst (rtl_runes T rs))) = rs"
  by (auto simp: undone_line_def rtl_runes_involution rtl_runes_sentence_twice)

lemma undone_line_spec:
  assumes "undone_line T rs"
  shows "undone_line T (fst (rtl_runes T rs))"
proof -
  consider "strong_line T rs" "\<forall>r \<in> set rs. last r \<noteq> 0x20" "rs \<noteq> []"
    | "rtl_sentence T rs" "last (hd rs) \<noteq> 0x20" "last (last rs) \<noteq> 0x20" "rs \<noteq> []"
    using assms by (auto simp: undone_line_def)
  then show ?thesis
  proof cases
    case 1
    have "set (flip T [] rs) = set rs" by (simp add: set_flip)
    moreover from this 1(3) have "flip T [] rs \<noteq> []" by (metis set_empty)
    ultimately show ?thesis using 1 strong_line_flip [OF 1(1)] by (simp add: undone_line_def rtl_runes_flip)
  next
    case 2
    then show ?thesis using rtl_sentence_rev [OF 2(1)] by (simp add: undone_line_def rtl_runes_sentence)
  qed
qed

lemma undone_line_end:
  assumes "undone_line T rs"
  shows "last (concat rs) \<noteq> 0x20"
proof -
  have ne: "rs \<noteq> []" "last rs \<noteq> []"
    using assms undone_line_ok [OF assms] line_ok_nonempty [of rs] last_in_set [of rs] by (auto simp: undone_line_def)
  then have "last (concat rs) = last (last rs)" by (cases rs rule: rev_cases) auto
  with assms ne(1) show ?thesis using last_in_set [of rs] by (auto simp: undone_line_def)
qed

section \<open>The contract of the pass\<close>

text \<open>
  What the render hook relies on: a pass over a line is given its bounds, keeps its length, and
  on some lines a second pass undoes it.
\<close>

locale line_pass =
  fixes run :: "mem \<Rightarrow> nat \<Rightarrow> nat \<Rightarrow> (mem \<times> bool) option"
    and spec :: "rune list \<Rightarrow> rune list"
    and pre :: "rune list \<Rightarrow> bool"
  assumes run_spec: "pre rs \<Longrightarrow> rs \<noteq> [] \<Longrightarrow> e = length xs + length (concat rs) \<Longrightarrow>
      map_option fst (run (xs @ concat rs @ ys) (length xs) e) = Some (xs @ concat (spec rs) @ ys)"
    and spec_length: "pre rs \<Longrightarrow> length (concat (spec rs)) = length (concat rs)"
begin

lemma run_frame:
  assumes "pre rs" "rs \<noteq> []" and "m = xs @ concat rs @ ys" "e = length xs + length (concat rs)"
  shows "\<exists>m' did. run m (length xs) e = Some (m', did) \<and> length m' = length m \<and>
     take (length xs) m' = xs \<and> drop e m' = ys"
  using run_spec [OF assms(1,2,4), of ys] spec_length [OF assms(1)] by (auto simp: assms(3,4))

end

locale line_involution = line_pass +
  assumes spec_pre: "pre rs \<Longrightarrow> pre (spec rs)"
    and spec_spec: "pre rs \<Longrightarrow> spec (spec rs) = rs"
begin

lemma run_twice:
  assumes "pre rs" "concat rs \<noteq> []" "e = length xs + length (concat rs)"
  shows "Option.bind (map_option fst (run (xs @ concat rs @ ys) (length xs) e))
           (\<lambda>m. map_option fst (run m (length xs) e)) = Some (xs @ concat rs @ ys)"
proof -
  have "spec rs \<noteq> []" using spec_length [OF assms(1)] assms(2) by auto
  moreover have "rs \<noteq> []" using assms(2) by auto
  ultimately show ?thesis
    using run_spec [of rs e xs ys] run_spec [of "spec rs" e xs ys] spec_pre [OF assms(1)] assms
      spec_spec spec_length by auto
qed

end

interpretation rtl: line_pass "rtl_apply T" "\<lambda>rs. fst (rtl_runes T rs)" line_ok for T
  by unfold_locales (simp_all add: rtl_apply_runes rtl_runes_length)

lemma strong_line_ok: "strong_line T rs \<Longrightarrow> line_ok rs"
  by (simp add: strong_line_def)

interpretation strong: line_involution "rtl_apply T" "\<lambda>rs. fst (rtl_runes T rs)" "strong_line T" for T
  by unfold_locales
    (simp_all add: rtl_apply_runes rtl_runes_length strong_line_ok rtl_runes_involution,
     simp add: rtl_runes_flip strong_line_flip)

interpretation undone: line_involution "rtl_apply T" "\<lambda>rs. fst (rtl_runes T rs)" "undone_line T" for T
  by unfold_locales
    (simp_all add: rtl_apply_runes rtl_runes_length undone_line_ok undone_line_twice undone_line_spec)

end
