(* ===== verification/Patch.thy ===== *)
theory Patch
  imports Unshaper Bidi
begin

text \<open>
  The entry points the firmware is patched with: \<^verbatim>\<open>runtime/patch.c\<close>, \<^verbatim>\<open>runtime/patch.S\<close> and the
  render wrapper assembled by \<^verbatim>\<open>patch.py\<close>.  The original firmware functions they pass control to
  are parameters.
\<close>

section \<open>Types of the Pebble API\<close>

type_synonym i16 = "16 word"

record GPoint =
  pt_x :: i16
  pt_y :: i16

record GSize =
  sz_w :: i16
  sz_h :: i16

record GRect =
  rc_origin :: GPoint
  rc_size :: GSize

datatype GTextAlignment = GTextAlignmentLeft | GTextAlignmentCenter | GTextAlignmentRight

text \<open>
  The overflow mode stays a number: besides the three modes of the API the patch knows the
  magic value \<^verbatim>\<open>0xE5\<close> of its diagnostics app.  Fonts and text attributes are opaque.
\<close>

record ('f, 'a) layout_args =
  la_font :: 'f
  la_box :: GRect
  la_overflow_mode :: nat
  la_alignment :: GTextAlignment
  la_attributes :: "'a option"

section \<open>Measuring text\<close>

text \<open>
  Where \<^verbatim>\<open>TEXT_UNSHAPE\<close> is defined: shape, let the firmware measure the shaped text, unshape.
  \<open>passthru\<close> is the firmware's function, which may change memory as well.
\<close>

definition graphics_text_layout_get_content_size_with_attributes_patch ::
  "tables \<Rightarrow> (mem \<Rightarrow> nat \<Rightarrow> ('f, 'a) layout_args \<Rightarrow> (GSize \<times> mem) option) \<Rightarrow> mem \<Rightarrow> nat \<Rightarrow> ('f, 'a) layout_args
     \<Rightarrow> (GSize \<times> mem) option" where
  "graphics_text_layout_get_content_size_with_attributes_patch T passthru m txt args = do {
     m \<leftarrow> shape_text T m txt;
     (res, m) \<leftarrow> passthru m txt args;
     m \<leftarrow> (if la_overflow_mode args \<noteq> 0xE5 then unshape_text T m txt else Some m);
     Some (res, m)
   }"

text \<open>\<^verbatim>\<open>patch.S\<close>, where it is not defined: shape, then jump to the firmware.\<close>

definition get_content_size_with_attributes_stub ::
  "tables \<Rightarrow> (mem \<Rightarrow> nat \<Rightarrow> ('f, 'a) layout_args \<Rightarrow> (GSize \<times> mem) option) \<Rightarrow> mem \<Rightarrow> nat \<Rightarrow> ('f, 'a) layout_args
     \<Rightarrow> (GSize \<times> mem) option" where
  "get_content_size_with_attributes_stub T passthru m txt args = do {
     m \<leftarrow> shape_text T m txt;
     passthru m txt args
   }"

text \<open>The C wrapper without attributes calls whichever of the two the platform has.\<close>

definition graphics_text_layout_get_content_size_patch ::
  "bool \<Rightarrow> tables \<Rightarrow> (mem \<Rightarrow> nat \<Rightarrow> ('f, 'a) layout_args \<Rightarrow> (GSize \<times> mem) option) \<Rightarrow> mem \<Rightarrow> nat \<Rightarrow> ('f, 'a) layout_args
     \<Rightarrow> (GSize \<times> mem) option" where
  "graphics_text_layout_get_content_size_patch TEXT_UNSHAPE T passthru m txt args =
     (if TEXT_UNSHAPE then graphics_text_layout_get_content_size_with_attributes_patch
      else get_content_size_with_attributes_stub) T passthru m txt (args\<lparr>la_attributes := None\<rparr>)"

section \<open>Alignment\<close>

text \<open>The loop of \<open>gdt_alignment_step\<close>.\<close>

function align_loop :: "tables \<Rightarrow> mem \<Rightarrow> nat \<Rightarrow> GTextAlignment \<Rightarrow> GTextAlignment option" where
  "align_loop T m p alignment =
     (case rd m p of
        None \<Rightarrow> None
      | Some b \<Rightarrow>
          if b = 0 then Some alignment
          else case read_utf8 m p of
              None \<Rightarrow> None
            | Some (codept, q) \<Rightarrow>
                if is_neutral T codept \<or> is_weak_ltr codept then align_loop T m q alignment
                else if is_rtl T codept then Some GTextAlignmentRight
                else Some alignment)"
  by pat_completeness auto
termination
  by (relation "measure (\<lambda>(T, m, p, a). length m - p)") (auto dest: read_utf8_advance)

declare align_loop.simps [simp del]

definition gdt_alignment_step :: "tables \<Rightarrow> mem \<Rightarrow> nat \<Rightarrow> GTextAlignment \<Rightarrow> GTextAlignment option" where
  "gdt_alignment_step T m txt alignment =
     (if alignment = GTextAlignmentLeft then align_loop T m txt alignment else Some alignment)"

section \<open>Drawing text\<close>

text \<open>
  \<open>graphics_draw_text_patch\<close> (\<^verbatim>\<open>patch.S\<close>) shapes the text, replaces the stacked alignment argument
  and jumps to the firmware; the result is the memory and the alignment it hands over.
\<close>

definition graphics_draw_text_patch ::
  "tables \<Rightarrow> mem \<Rightarrow> nat \<Rightarrow> GTextAlignment \<Rightarrow> (mem \<times> GTextAlignment) option" where
  "graphics_draw_text_patch T m txt alignment = do {
     m \<leftarrow> shape_text T m txt;
     alignment \<leftarrow> gdt_alignment_step T m txt alignment;
     Some (m, alignment)
   }"

section \<open>Rendering a line\<close>

definition SRAM_BASE :: nat where
  "SRAM_BASE = 0x10000000"

text \<open>
  \<open>render_rtl_step\<close> looks at absolute addresses: the window of memory \<open>m\<close> starts at address
  \<open>base\<close>, and an access outside the window is undefined.
\<close>

definition ld8 :: "nat \<Rightarrow> mem \<Rightarrow> nat \<Rightarrow> u8 option" where
  "ld8 base m a = (if a < base then None else rd m (a - base))"

definition ld32 :: "nat \<Rightarrow> mem \<Rightarrow> nat \<Rightarrow> nat option" where
  "ld32 base m a = do {
     b0 \<leftarrow> ld8 base m a;
     b1 \<leftarrow> ld8 base m (a + 1);
     b2 \<leftarrow> ld8 base m (a + 2);
     b3 \<leftarrow> ld8 base m (a + 3);
     Some (unat b0 + 256 * unat b1 + 65536 * unat b2 + 16777216 * unat b3)
   }"

text \<open>Which of the two macros the patch script defines for the platform.\<close>

datatype lineend_config = LINEEND_INDIRECT_SP_OFF nat | LINEEND_SP_OFF nat

fun line_ends :: "lineend_config \<Rightarrow> nat \<Rightarrow> mem \<Rightarrow> nat \<Rightarrow> (nat \<times> nat) option" where
  "line_ends (LINEEND_INDIRECT_SP_OFF off) base m callsite_sp = do {
     p \<leftarrow> ld32 base m (callsite_sp + off);
     line_end_1 \<leftarrow> ld32 base m (p + 4 * 2);
     line_end_2 \<leftarrow> ld32 base m (p + 4 * 3);
     Some (line_end_1, line_end_2)
   }"
| "line_ends (LINEEND_SP_OFF off) base m callsite_sp = do {
     line_end_1 \<leftarrow> ld32 base m (callsite_sp + off);
     line_end_2 \<leftarrow> ld32 base m (callsite_sp + off + 4);
     Some (line_end_1, line_end_2)
   }"

text \<open>\<^verbatim>\<open>while (line_end > line_start && *(line_end - 1) == ' ')\<close>\<close>

fun trim_spaces :: "nat \<Rightarrow> mem \<Rightarrow> nat \<Rightarrow> nat \<Rightarrow> nat option" where
  "trim_spaces base m line_start 0 = Some 0"
| "trim_spaces base m line_start (Suc e) =
     (if line_start < Suc e then do {
        b \<leftarrow> ld8 base m e;
        if b = 0x20 then trim_spaces base m line_start e else Some (Suc e)
      }
      else Some (Suc e))"

definition render_rtl_step ::
  "tables \<Rightarrow> lineend_config \<Rightarrow> nat \<Rightarrow> mem \<Rightarrow> nat \<Rightarrow> bool \<Rightarrow> nat \<Rightarrow> mem option" where
  "render_rtl_step T cfg base m line_start more_text callsite_sp =
     (if line_start \<ge> SRAM_BASE then do {
        b \<leftarrow> ld8 base m line_start;
        if b \<noteq> 0 then do {
          (line_end_1, line_end_2) \<leftarrow> line_ends cfg base m callsite_sp;
          line_end \<leftarrow> trim_spaces base m line_start (if more_text then line_end_1 else line_end_2);
          (m, did_transform) \<leftarrow> rtl_apply T m (line_start - base) (line_end - base);
          Some m
        }
        else Some m
      }
      else Some m)"

text \<open>
  The render wrapper (\<open>render_wrap_asm\<close> in \<^verbatim>\<open>patch.py\<close>): run the step, call the firmware's render
  handler, run the step again to put the line back.
\<close>

definition render_wrap ::
  "tables \<Rightarrow> lineend_config \<Rightarrow> nat \<Rightarrow> (mem \<Rightarrow> mem option) \<Rightarrow> mem \<Rightarrow> nat \<Rightarrow> bool \<Rightarrow> nat \<Rightarrow> mem option" where
  "render_wrap T cfg base handler m line_start more_text callsite_sp = do {
     m \<leftarrow> render_rtl_step T cfg base m line_start more_text callsite_sp;
     m \<leftarrow> handler m;
     render_rtl_step T cfg base m line_start more_text callsite_sp
   }"

section \<open>A whole call of the drawing routine\<close>

text \<open>
  The firmware's drawing routine as the patch meets it: a sequence of lines, each reached after
  some code of the firmware and drawn by a render handler at the site that \<^verbatim>\<open>patch.py\<close> has
  replaced by the wrapper, and the code after the last line.  The registers at the site give
  the line's start, the more-text flag and the stack pointer.
\<close>

record draw_line =
  dl_setup :: "mem \<Rightarrow> mem option"
  dl_handler :: "mem \<Rightarrow> mem option"
  dl_start :: nat
  dl_more_text :: bool
  dl_callsite_sp :: nat

record firmware_draw =
  fd_lines :: "draw_line list"
  fd_finish :: "mem \<Rightarrow> mem option"

fun render_lines :: "tables \<Rightarrow> lineend_config \<Rightarrow> nat \<Rightarrow> draw_line list \<Rightarrow> mem \<Rightarrow> mem option" where
  "render_lines T cfg base [] m = Some m"
| "render_lines T cfg base (l # ls) m = do {
     m \<leftarrow> dl_setup l m;
     m \<leftarrow> render_wrap T cfg base (dl_handler l) m (dl_start l) (dl_more_text l) (dl_callsite_sp l);
     render_lines T cfg base ls m
   }"

text \<open>
  The whole call on a platform with \<^verbatim>\<open>TEXT_UNSHAPE\<close>: the hook at the entry, the firmware's
  routine \<open>draw\<close> with the wrapper around every line, and the hook at its end
  (\<open>graphics_draw_text_unshape\<close>, \<^verbatim>\<open>patch.py\<close>), which runs \<open>unshape_text\<close> on the text.
\<close>

definition draw_text_call ::
  "tables \<Rightarrow> lineend_config \<Rightarrow> nat \<Rightarrow> (mem \<Rightarrow> nat \<Rightarrow> GTextAlignment \<Rightarrow> firmware_draw) \<Rightarrow> mem \<Rightarrow> nat \<Rightarrow> GTextAlignment
     \<Rightarrow> mem option" where
  "draw_text_call T cfg base draw m txt alignment = do {
     (m, alignment) \<leftarrow> graphics_draw_text_patch T m txt alignment;
     let fd = draw m txt alignment;
     m \<leftarrow> render_lines T cfg base (fd_lines fd) m;
     m \<leftarrow> fd_finish fd m;
     unshape_text T m txt
   }"

end
