(* ===== verification/Patch_Refine.thy ===== *)
theory Patch_Refine
  imports Patch
begin

text \<open>
  What the hooks of the patch do to the text they are given: measuring and drawing leave it as
  it was, the alignment follows the first rune with a direction, and rendering a line reorders
  it and puts it back.
\<close>

section \<open>Measuring leaves the text as it was\<close>

lemma unshape_text_shaped:
  assumes "tables_ok T" "reversible T" "plain_text T rs"
  shows "unshape_text T (xs @ concat (shape_runes T rs) @ 0 # ys) (length xs) = Some (xs @ concat rs @ 0 # ys)"
  using shaping.restored [of T rs xs ys] shape.run_spec [of T rs xs ys] assms by (simp add: plain_text_def)

text \<open>
  The firmware's routine may change memory around the text, which it takes as
  \<^verbatim>\<open>const char *\<close>.
\<close>

lemma content_size_with_attributes_runes:
  assumes T: "tables_ok T" "reversible T" "plain_text T rs"
    and fw: "passthru (xs @ concat (shape_runes T rs) @ 0 # ys) (length xs) args
       = Some (res, xs' @ concat (shape_runes T rs) @ 0 # ys')" "length xs' = length xs"
  shows "graphics_text_layout_get_content_size_with_attributes_patch T passthru (xs @ concat rs @ 0 # ys) (length xs) args
       = Some (res, xs' @ concat (if la_overflow_mode args \<noteq> 0xE5 then rs else shape_runes T rs) @ 0 # ys')"
    and "get_content_size_with_attributes_stub T passthru (xs @ concat rs @ 0 # ys) (length xs) args
       = Some (res, xs' @ concat (shape_runes T rs) @ 0 # ys')"
  using shape.run_spec [of T rs xs ys] unshape_text_shaped [OF T, of xs' ys'] T fw
  by (simp_all add: graphics_text_layout_get_content_size_with_attributes_patch_def
      get_content_size_with_attributes_stub_def plain_text_def)

section \<open>Alignment by the first rune with an opinion\<close>

definition opinionated :: "tables \<Rightarrow> rune \<Rightarrow> bool" where
  "opinionated T r \<longleftrightarrow> \<not> is_neutral T (rune_cp r) \<and> \<not> is_weak_ltr (rune_cp r)"

definition starts_rtl :: "tables \<Rightarrow> rune list \<Rightarrow> bool" where
  "starts_rtl T rs \<longleftrightarrow> (case find (opinionated T) rs of None \<Rightarrow> False | Some r \<Rightarrow> is_rtl T (rune_cp r))"

lemma align_loop_runes:
  "\<forall>r \<in> set rs. rune_ok r \<and> hd r \<noteq> 0 \<Longrightarrow>
     align_loop T (xs @ concat rs @ 0 # ys) (length xs) a
       = Some (if starts_rtl T rs then GTextAlignmentRight else a)"
proof (induction rs arbitrary: xs)
  case Nil
  then show ?case by (simp add: align_loop.simps rd_split starts_rtl_def)
next
  case (Cons r rs)
  then obtain b bs where r: "r = b # bs" "b \<noteq> 0" "rune_ok r"
    by (cases r) (auto simp: rune_ok_def)
  let ?m = "xs @ r @ concat rs @ 0 # ys"
  have "rd ?m (length xs) = Some b" by (simp add: r(1) rd_split)
  moreover have "read_utf8 ?m (length xs) = Some (rune_cp r, length xs + length r)"
    by (rule read_utf8_rune [OF r(3) refl])
  moreover have "align_loop T ?m (length xs + length r) a
      = Some (if starts_rtl T rs then GTextAlignmentRight else a)"
    using Cons.IH [of "xs @ r"] Cons.prems by simp
  ultimately show ?case
    using r(2) by (simp add: align_loop.simps [of T ?m "length xs"] starts_rtl_def opinionated_def)
qed

lemma gdt_alignment_runes:
  assumes "\<forall>r \<in> set rs. rune_ok r \<and> hd r \<noteq> 0"
  shows "gdt_alignment_step T (xs @ concat rs @ 0 # ys) (length xs) a
     = Some (if a = GTextAlignmentLeft \<and> starts_rtl T rs then GTextAlignmentRight else a)"
  using align_loop_runes [OF assms] by (simp add: gdt_alignment_step_def)

text \<open>
  The hook looks at the text after it has been shaped.  With tables whose letters and forms
  are right-to-left and whose filler is neutral, that makes no difference.
\<close>

definition tables_directed :: "tables \<Rightarrow> bool" where
  "tables_directed T \<longleftrightarrow>
     (\<forall>e \<in> set (shaper_lut T).
        is_rtl T (true_codept e) \<and> \<not> is_weak_ltr (true_codept e) \<and>
        (is_neutral T (true_codept e) \<longrightarrow> is_zero_width T (true_codept e)) \<and>
        (\<forall>f \<in> set (forms e). is_rtl T (word_of_int f) \<and> \<not> is_neutral T (word_of_int f) \<and>
           \<not> is_weak_ltr (word_of_int f))) \<and>
     (\<forall>l \<in> set (ligatures T). \<not> is_zero_width T (fst l)) \<and>
     is_neutral T (ZERO_WIDTH_CODEPT T)"

lemma starts_rtl_Cons:
  "starts_rtl T (r # rs) = (if opinionated T r then is_rtl T (rune_cp r) else starts_rtl T rs)"
  by (simp add: starts_rtl_def)

lemma starts_rtl_written:
  assumes "tables_ok T" "tables_directed T" "e \<in> set (shaper_lut T)"
  shows "starts_rtl T (enc2 (code_form e jp jn ends) # rs)"
proof -
  obtain f where f: "f \<in> set (forms e)" "code_form e jp jn ends = word_of_int f"
    using code_form_in_forms by blast
  have "unat (code_form e jp jn ends) < 0x800"
    using form_bounds [OF assms(1,3) f(1)] by (simp add: f(2))
  from rune_cp_enc2 [OF this] assms(2,3) f show ?thesis
    by (auto simp: starts_rtl_Cons opinionated_def tables_directed_def)
qed

lemma starts_rtl_filler:
  assumes "tables_ok T" "tables_directed T"
  shows "starts_rtl T (enc2 (ZERO_WIDTH_CODEPT T) # rs) = starts_rtl T rs"
  using rune_cp_enc2 [OF zero_width_bound [OF assms(1)]] assms(2)
  by (simp add: starts_rtl_Cons opinionated_def tables_directed_def)

lemma letter_is_rtl:
  assumes "tables_directed T" "find_lut_entry_by_codept T (rune_cp r) = Some e"
    and "\<not> is_zero_width T (rune_cp r)"
  shows "opinionated T r \<and> is_rtl T (rune_cp r)"
  using assms find_lut_entry_Some [OF assms(2)] by (auto simp: tables_directed_def opinionated_def)

text \<open>A contracted ligature still starts with a letter: the erased half is followed by it.\<close>

lemma starts_rtl_ligature:
  assumes T: "tables_ok T" "tables_directed T"
  shows "find_lut_entry_by_codept T c \<noteq> None \<Longrightarrow> \<not> is_zero_width T c \<Longrightarrow>
     starts_rtl T (code_joining T jp (toks T c r rs))"
proof (induction rs arbitrary: c r)
  case Nil
  then show ?case
    using starts_rtl_written [OF T] find_lut_entry_Some [of T c] by (auto simp: classify_def Let_def)
next
  case (Cons r' rs)
  show ?case
  proof (cases "lig_lookup (ligatures T) c (rune_cp r') = 0")
    case True
    then show ?thesis
      using Cons.prems starts_rtl_written [OF T] find_lut_entry_Some [of T c]
      by (auto simp: classify_def Let_def)
  next
    case False
    with tables_okD(5) [OF T(1) False] Cons.IH show ?thesis
      by (simp add: Let_def starts_rtl_filler [OF T])
  qed
qed

lemma starts_rtl_shaped:
  assumes T: "tables_ok T" "tables_directed T"
  shows "starts_rtl T (code_joining T jp (toks T (rune_cp r) r rs)) = starts_rtl T (r # rs)"
proof (induction rs arbitrary: r jp)
  case Nil
  show ?case
  proof (cases "classify T (rune_cp r) r")
    case (Joining e _)
    then have e: "find_lut_entry_by_codept T (rune_cp r) = Some e" "\<not> is_zero_width T (rune_cp r)"
      by (auto simp: classify_def split: if_splits option.splits)
    with Joining show ?thesis
      using starts_rtl_written [OF T] find_lut_entry_Some [OF e(1)] letter_is_rtl [OF T(2) e]
      by (simp add: Let_def starts_rtl_Cons [of T r])
  qed (auto simp: classify_def split: if_splits option.splits)
next
  case (Cons r' rs)
  show ?case
  proof (cases "lig_lookup (ligatures T) (rune_cp r) (rune_cp r') = 0")
    case True
    then have t: "toks T (rune_cp r) r (r' # rs) = classify T (rune_cp r) r # toks T (rune_cp r') r' rs"
      by simp
    show ?thesis
    proof (cases "classify T (rune_cp r) r")
      case (Joining e q)
      then have e: "find_lut_entry_by_codept T (rune_cp r) = Some e" "\<not> is_zero_width T (rune_cp r)"
        by (auto simp: classify_def split: if_splits option.splits)
      with Joining t show ?thesis
        using starts_rtl_written [OF T] find_lut_entry_Some [OF e(1)] letter_is_rtl [OF T(2) e]
        by (simp add: Let_def starts_rtl_Cons [of T r])
    qed (use t Cons.IH in \<open>auto simp: classify_def starts_rtl_Cons split: if_splits option.splits\<close>)
  next
    case False
    note l = tables_okD(5) [OF T(1) False]
    from lig_lookup_entry [OF False] T(2) have "\<not> is_zero_width T (rune_cp r)"
      by (force simp: tables_directed_def)
    with l letter_is_rtl [OF T(2), of r] have "starts_rtl T (r # r' # rs)"
      by (auto simp: starts_rtl_Cons)
    with False l starts_rtl_ligature [OF T] show ?thesis
      by (simp add: Let_def starts_rtl_filler [OF T])
  qed
qed

lemma starts_rtl_shape_runes:
  assumes "tables_ok T" "tables_directed T"
  shows "starts_rtl T (shape_runes T rs) = starts_rtl T rs"
  using starts_rtl_shaped [OF assms]
  by (cases rs) (simp_all add: shape_runes_def tokens_def)

lemma draw_text_patch_runes:
  assumes T: "tables_ok T" "tables_directed T" and rs: "text_ok T rs"
  shows "graphics_draw_text_patch T (xs @ concat rs @ 0 # ys) (length xs) a
    = Some (xs @ concat (shape_runes T rs) @ 0 # ys,
        if a = GTextAlignmentLeft \<and> starts_rtl T rs then GTextAlignmentRight else a)"
proof -
  have "\<forall>r \<in> set (shape_runes T rs). rune_ok r \<and> hd r \<noteq> 0"
    using shape.spec_runes [of T rs] T(1) rs by blast
  from gdt_alignment_runes [OF this] show ?thesis
    using shape.run_spec [of T rs xs ys] T rs
    by (simp add: graphics_draw_text_patch_def starts_rtl_shape_runes)
qed

section \<open>Rendering a line reorders it\<close>

lemma ld8_split: "a = base + length xs \<Longrightarrow> ld8 base (xs @ b # ys) a = Some b"
  by (simp add: ld8_def rd_split)

lemma trim_spaces_line:
  assumes "B \<noteq> []" "last B \<noteq> 0x20"
  shows "trim_spaces base (xs @ B @ replicate k 0x20 @ ys) (base + length xs) (base + length xs + length B + k)
    = Some (base + length xs + length B)"
proof (induction k arbitrary: ys)
  case 0
  obtain B' b where B: "B = B' @ [b]" "b \<noteq> 0x20"
    using assms by (metis append_butlast_last_id)
  have "ld8 base ((xs @ B') @ b # ys) (base + length xs + length B') = Some b" by (rule ld8_split) simp
  with B show ?case by simp
next
  case (Suc k)
  have "ld8 base ((xs @ B @ replicate k 0x20) @ 0x20 # ys) (base + length xs + length B + k) = Some 0x20"
    by (rule ld8_split) simp
  moreover have "replicate (Suc k) 0x20 @ ys = replicate k 0x20 @ 0x20 # ys"
    by (simp add: replicate_app_Cons_same)
  ultimately show ?case using Suc.IH [of "0x20 # ys"] by (simp del: replicate.simps)
qed

text \<open>Where the step finds the line ends: the words must not lie in the line itself.\<close>

fun line_end_slots :: "lineend_config \<Rightarrow> nat \<Rightarrow> mem \<Rightarrow> nat \<Rightarrow> nat list" where
  "line_end_slots (LINEEND_INDIRECT_SP_OFF off) base m callsite_sp = (callsite_sp + off) #
     (case ld32 base m (callsite_sp + off) of None \<Rightarrow> [] | Some p \<Rightarrow> [p + 8, p + 12])"
| "line_end_slots (LINEEND_SP_OFF off) base m callsite_sp = [callsite_sp + off, callsite_sp + off + 4]"

definition slots_apart :: "lineend_config \<Rightarrow> nat \<Rightarrow> mem \<Rightarrow> nat \<Rightarrow> nat \<Rightarrow> nat \<Rightarrow> bool" where
  "slots_apart cfg base m callsite_sp lo hi \<longleftrightarrow>
     (\<forall>a \<in> set (line_end_slots cfg base m callsite_sp). a + 4 \<le> lo \<or> hi \<le> a)"

lemma ld8_frame:
  assumes "length B' = length B" and "a < base + length xs \<or> base + length xs + length B \<le> a"
  shows "ld8 base (xs @ B' @ ys) a = ld8 base (xs @ B @ ys) a"
  using assms by (auto simp: ld8_def rd_def nth_append)

lemma ld32_frame:
  assumes "length B' = length B" and "a + 4 \<le> base + length xs \<or> base + length xs + length B \<le> a"
  shows "ld32 base (xs @ B' @ ys) a = ld32 base (xs @ B @ ys) a"
  using assms(2) by (auto simp: ld32_def ld8_frame [OF assms(1)])

lemma line_ends_frame:
  assumes "slots_apart cfg base (xs @ B @ ys) sp (base + length xs) (base + length xs + length B)"
    and "length B' = length B"
  shows "line_ends cfg base (xs @ B' @ ys) sp = line_ends cfg base (xs @ B @ ys) sp"
    and "slots_apart cfg base (xs @ B' @ ys) sp (base + length xs) (base + length xs + length B)"
  using assms
  by (cases cfg; auto simp: slots_apart_def ld32_frame [OF assms(2)]
      intro: Option.bind_cong split: option.splits)+

definition at_line :: "lineend_config \<Rightarrow> nat \<Rightarrow> mem \<Rightarrow> mem \<Rightarrow> nat \<Rightarrow> mem \<Rightarrow> bool \<Rightarrow> nat \<Rightarrow> bool" where
  "at_line cfg base xs B k ys more_text sp \<longleftrightarrow>
     SRAM_BASE \<le> base + length xs \<and>
     (case line_ends cfg base (xs @ B @ replicate k 0x20 @ ys) sp of
        None \<Rightarrow> False
      | Some (e1, e2) \<Rightarrow> (if more_text then e1 else e2) = base + length xs + length B + k) \<and>
     slots_apart cfg base (xs @ B @ replicate k 0x20 @ ys) sp (base + length xs) (base + length xs + length B)"

lemma at_line_frame:
  assumes "at_line cfg base xs B k ys more_text sp" and "length B' = length B"
  shows "at_line cfg base xs B' k ys more_text sp"
  using assms line_ends_frame [OF _ assms(2), of cfg base xs "replicate k 0x20 @ ys" sp]
  by (auto simp: at_line_def split: option.splits)

lemma render_rtl_step_runes:
  assumes l: "at_line cfg base xs (concat rs) k ys more_text sp"
    and rs: "line_ok rs" "rs \<noteq> []" "last (concat rs) \<noteq> 0x20"
  shows "render_rtl_step T cfg base (xs @ concat rs @ replicate k 0x20 @ ys) (base + length xs) more_text sp
    = Some (xs @ concat (fst (rtl_runes T rs)) @ replicate k 0x20 @ ys)"
proof -
  let ?m = "xs @ concat rs @ replicate k 0x20 @ ys"
  obtain e1 e2 where e: "line_ends cfg base ?m sp = Some (e1, e2)"
    "(if more_text then e1 else e2) = base + length xs + length (concat rs) + k"
    "SRAM_BASE \<le> base + length xs"
    using l by (auto simp: at_line_def split: option.splits)
  obtain r rs' where r: "rs = r # rs'" using rs(2) by (cases rs) auto
  obtain b bs where b: "r = b # bs" "b \<noteq> 0"
    using rs(1) by (cases r) (auto simp: r line_ok_def line_rune_def rune_ok_def)
  have ld: "ld8 base ?m (base + length xs) = Some b"
    by (simp add: r b ld8_split)
  have ne: "concat rs \<noteq> []" by (simp add: r b)
  note tr = trim_spaces_line [OF ne rs(3), of base xs k ys]
  have ap: "rtl_apply T ?m (length xs) (length xs + length (concat rs))
      = Some (xs @ concat (fst (rtl_runes T rs)) @ replicate k 0x20 @ ys, snd (rtl_runes T rs))"
    by (rule rtl_apply_runes [OF rs(1,2) refl])
  have sub: "base + length xs + length (concat rs) - base = length xs + length (concat rs)" by simp
  show ?thesis
    unfolding render_rtl_step_def using e(3) ap
    by (simp add: ld b(2) e(1,2) tr sub)
qed

lemma render_outside_ram:
  "line_start < SRAM_BASE \<Longrightarrow> render_rtl_step T cfg base m line_start more_text sp = Some m"
  by (simp add: render_rtl_step_def)

text \<open>
  The handler may change memory outside the line, as long as the line ends stay where the
  second step looks for them.
\<close>

lemma render_wrap_undone_line:
  assumes l: "at_line cfg base xs (concat rs) k ys more_text sp" and rs: "undone_line T rs"
    and h: "handler (xs @ concat (fst (rtl_runes T rs)) @ replicate k 0x20 @ ys)
       = Some (xs' @ concat (fst (rtl_runes T rs)) @ replicate k 0x20 @ ys')"
    and l': "at_line cfg base xs' (concat (fst (rtl_runes T rs))) k ys' more_text sp" "length xs' = length xs"
  shows "render_wrap T cfg base handler (xs @ concat rs @ replicate k 0x20 @ ys) (base + length xs) more_text sp
    = Some (xs' @ concat rs @ replicate k 0x20 @ ys')"
proof -
  note u = undone_line_spec [OF rs]
  have ne: "rs \<noteq> []" "fst (rtl_runes T rs) \<noteq> []" using rs u by (auto simp: undone_line_def)
  from render_rtl_step_runes [OF l undone_line_ok [OF rs] ne(1) undone_line_end [OF rs], of T]
    render_rtl_step_runes [OF l'(1) undone_line_ok [OF u] ne(2) undone_line_end [OF u], of T]
  show ?thesis by (simp add: render_wrap_def h l'(2) undone_line_twice [OF rs])
qed

section \<open>A whole call of the drawing routine\<close>

text \<open>
  Code of the firmware that runs on a memory of \<open>n\<close> bytes, returns, and leaves the bytes from
  \<open>lo\<close> up to \<open>hi\<close> alone.
\<close>

definition spares :: "nat \<Rightarrow> nat \<Rightarrow> nat \<Rightarrow> (mem \<Rightarrow> mem option) \<Rightarrow> bool" where
  "spares n lo hi f \<longleftrightarrow> (\<forall>xs B ys. length (xs @ B @ ys) = n \<and> length xs = lo \<and> length (xs @ B) = hi \<longrightarrow>
     (\<exists>xs' ys'. f (xs @ B @ ys) = Some (xs' @ B @ ys') \<and> length xs' = lo \<and> length ys' = length ys))"

lemma sparesE:
  assumes "spares n lo hi f" "length (xs @ B @ ys) = n" "length xs = lo" "length (xs @ B) = hi"
  obtains xs' ys' where "f (xs @ B @ ys) = Some (xs' @ B @ ys')" "length xs' = lo" "length ys' = length ys"
  using assms unfolding spares_def by blast

definition keeps_ends :: "lineend_config \<Rightarrow> nat \<Rightarrow> nat \<Rightarrow> (mem \<Rightarrow> mem option) \<Rightarrow> bool" where
  "keeps_ends cfg base sp f \<longleftrightarrow> (\<forall>m m'. f m = Some m' \<longrightarrow>
     line_ends cfg base m' sp = line_ends cfg base m sp \<and> line_end_slots cfg base m' sp = line_end_slots cfg base m sp)"

text \<open>The code in front of a line has recorded its end, in words outside the line.\<close>

definition marks_line :: "nat \<Rightarrow> lineend_config \<Rightarrow> nat \<Rightarrow> draw_line \<Rightarrow> nat \<Rightarrow> nat \<Rightarrow> bool" where
  "marks_line n cfg base l len k \<longleftrightarrow> (\<forall>m m'. length m = n \<longrightarrow> dl_setup l m = Some m' \<longrightarrow>
     (case line_ends cfg base m' (dl_callsite_sp l) of
        None \<Rightarrow> False
      | Some (e1, e2) \<Rightarrow> (if dl_more_text l then e1 else e2) = dl_start l + len + k) \<and>
     slots_apart cfg base m' (dl_callsite_sp l) (dl_start l) (dl_start l + len))"

text \<open>
  A line of the text \<open>rs\<close> at index \<open>txt\<close> of a memory of \<open>n\<close> bytes: a part of the text that two
  passes leave as it was, then blanks.  The firmware's code changes neither the text nor,
  while it draws the line, the line ends.
\<close>

definition draws_line :: "tables \<Rightarrow> lineend_config \<Rightarrow> nat \<Rightarrow> nat \<Rightarrow> nat \<Rightarrow> rune list \<Rightarrow> draw_line \<Rightarrow> bool" where
  "draws_line T cfg base n txt rs l \<longleftrightarrow>
     (let hi = txt + length (concat rs) + 1 in
      spares n txt hi (dl_setup l) \<and> spares n txt hi (dl_handler l) \<and>
      keeps_ends cfg base (dl_callsite_sp l) (dl_handler l) \<and>
      (\<exists>ps ln k qs. rs = ps @ ln @ replicate k [0x20] @ qs \<and> undone_line T ln \<and>
         dl_start l = base + txt + length (concat ps) \<and> marks_line n cfg base l (length (concat ln)) k))"

lemma concat_blanks [simp]: "concat (replicate k [b]) = replicate k b"
  by (induction k) auto

lemma draws_line_step:
  assumes l: "draws_line T cfg base n (length xs) rs l" and ram: "SRAM_BASE \<le> base + length xs"
    and n: "length (xs @ concat rs @ 0 # ys) = n"
  obtains xs' ys' where
    "Option.bind (dl_setup l (xs @ concat rs @ 0 # ys))
       (\<lambda>m. render_wrap T cfg base (dl_handler l) m (dl_start l) (dl_more_text l) (dl_callsite_sp l))
     = Some (xs' @ concat rs @ 0 # ys')" "length xs' = length xs" "length (xs' @ concat rs @ 0 # ys') = n"
proof -
  let ?sp = "dl_callsite_sp l" and ?hi = "length xs + length (concat rs) + 1"
  from l obtain ps ln k qs where rs: "rs = ps @ ln @ replicate k [0x20] @ qs" and u: "undone_line T ln"
    and start: "dl_start l = base + length xs + length (concat ps)" and mark: "marks_line n cfg base l (length (concat ln)) k"
    and sp: "spares n (length xs) ?hi (dl_setup l)" "spares n (length xs) ?hi (dl_handler l)"
    and ke: "keeps_ends cfg base ?sp (dl_handler l)"
    by (auto simp: draws_line_def Let_def)
  let ?ln = "fst (rtl_runes T ln)"
  have len: "length (concat ?ln) = length (concat ln)" by (rule rtl_runes_length [OF undone_line_ok [OF u]])
  obtain x1 y1 where s1: "dl_setup l (xs @ concat rs @ 0 # ys) = Some (x1 @ concat rs @ 0 # y1)"
    "length x1 = length xs" "length y1 = length ys"
    using sparesE [OF sp(1), of xs "concat rs @ [0]" ys] n by auto
  define X where "X = x1 @ concat ps"
  define Y where "Y = concat qs @ 0 # y1"
  have m1: "x1 @ concat rs @ 0 # y1 = X @ concat ln @ replicate k 0x20 @ Y" by (simp add: X_def Y_def rs)
  have st: "dl_start l = base + length X" by (simp add: X_def start s1(2))
  have n1: "length (X @ concat ln @ replicate k 0x20 @ Y) = n" using n s1(2,3) by (simp add: m1 [symmetric])
  have at: "at_line cfg base X (concat ln) k Y (dl_more_text l) ?sp"
    using mark [unfolded marks_line_def, rule_format, OF n s1(1)] ram s1(2)
    by (auto simp: at_line_def m1 st X_def split: option.splits)
  obtain x2 y2 where h: "dl_handler l (X @ concat ?ln @ replicate k 0x20 @ Y)
      = Some (x2 @ concat ps @ concat ?ln @ replicate k 0x20 @ concat qs @ 0 # y2)"
    "length x2 = length xs" "length y2 = length y1"
    using sparesE [OF sp(2), of x1 "concat ps @ concat ?ln @ replicate k 0x20 @ concat qs @ [0]" y1] n1 s1(2) len
    by (auto simp: X_def Y_def rs)
  define X2 where "X2 = x2 @ concat ps"
  define Y2 where "Y2 = concat qs @ 0 # y2"
  have h2: "dl_handler l (X @ concat ?ln @ replicate k 0x20 @ Y) = Some (X2 @ concat ?ln @ replicate k 0x20 @ Y2)"
    "length X2 = length X"
    using h s1(2) by (simp_all add: X2_def Y2_def X_def)
  have "at_line cfg base X (concat ?ln) k Y (dl_more_text l) ?sp" by (rule at_line_frame [OF at len])
  then have at2: "at_line cfg base X2 (concat ?ln) k Y2 (dl_more_text l) ?sp"
    using ke [unfolded keeps_ends_def, rule_format, OF h2(1)] h2(2)
    by (auto simp: at_line_def slots_apart_def split: option.splits)
  have "render_wrap T cfg base (dl_handler l) (X @ concat ln @ replicate k 0x20 @ Y) (dl_start l) (dl_more_text l) ?sp
      = Some (x2 @ concat rs @ 0 # y2)"
    using render_wrap_undone_line [of cfg base X ln k Y "dl_more_text l" ?sp T "dl_handler l" X2 Y2, OF at u h2(1) at2 h2(2)] by (simp add: st X2_def Y2_def rs)
  then show ?thesis using s1 h(2,3) n by (intro that [of x2 y2]) (simp_all add: m1)
qed

lemma render_lines_spare:
  assumes "\<forall>l \<in> set ls. draws_line T cfg base n (length xs) rs l" and "SRAM_BASE \<le> base + length xs"
    and "length (xs @ concat rs @ 0 # ys) = n"
  shows "\<exists>xs' ys'. render_lines T cfg base ls (xs @ concat rs @ 0 # ys) = Some (xs' @ concat rs @ 0 # ys') \<and>
     length xs' = length xs \<and> length (xs' @ concat rs @ 0 # ys') = n"
  using assms
proof (induction ls arbitrary: xs ys)
  case (Cons l ls)
  from Cons.prems have "draws_line T cfg base n (length xs) rs l" by simp
  from draws_line_step [OF this Cons.prems(2,3)] obtain xs' ys' where
    s: "Option.bind (dl_setup l (xs @ concat rs @ 0 # ys))
       (\<lambda>m. render_wrap T cfg base (dl_handler l) m (dl_start l) (dl_more_text l) (dl_callsite_sp l))
     = Some (xs' @ concat rs @ 0 # ys')" "length xs' = length xs" "length (xs' @ concat rs @ 0 # ys') = n" .
  from s(1) have "render_lines T cfg base (l # ls) (xs @ concat rs @ 0 # ys) = render_lines T cfg base ls (xs' @ concat rs @ 0 # ys')"
    by (auto simp: bind_eq_Some_conv)
  with Cons.IH [of xs' ys'] Cons.prems(1,2) s(2,3) show ?case by simp
qed auto

theorem draw_text_call_runes:
  assumes T: "tables_ok T" "tables_directed T" "reversible T" and rs: "plain_text T rs"
    and ram: "SRAM_BASE \<le> base + length xs" and n: "n = length (xs @ concat rs @ 0 # ys)"
    and fd: "draw (xs @ concat (shape_runes T rs) @ 0 # ys) (length xs)
        (if a = GTextAlignmentLeft \<and> starts_rtl T rs then GTextAlignmentRight else a) = fd"
    and ls: "\<forall>l \<in> set (fd_lines fd). draws_line T cfg base n (length xs) (shape_runes T rs) l"
    and fin: "spares n (length xs) (length xs + length (concat rs) + 1) (fd_finish fd)"
  shows "\<exists>xs' ys'. draw_text_call T cfg base draw (xs @ concat rs @ 0 # ys) (length xs) a
     = Some (xs' @ concat rs @ 0 # ys') \<and> length xs' = length xs \<and> length ys' = length ys"
proof -
  have rs': "text_ok T rs" using rs by (simp add: plain_text_def)
  have len: "length (concat (shape_runes T rs)) = length (concat rs)"
    using shape_runes_lengths(1) [OF T(1) rs'] by (simp add: lengths_def length_concat)
  have "length (xs @ concat (shape_runes T rs) @ 0 # ys) = n" by (simp add: n len)
  from render_lines_spare [OF ls ram this] obtain x1 y1 where
    r: "render_lines T cfg base (fd_lines fd) (xs @ concat (shape_runes T rs) @ 0 # ys) = Some (x1 @ concat (shape_runes T rs) @ 0 # y1)"
    "length x1 = length xs" "length (x1 @ concat (shape_runes T rs) @ 0 # y1) = n" by blast
  obtain x2 y2 where f: "fd_finish fd (x1 @ concat (shape_runes T rs) @ 0 # y1) = Some (x2 @ concat (shape_runes T rs) @ 0 # y2)"
    "length x2 = length xs" "length y2 = length y1"
    using sparesE [OF fin, of x1 "concat (shape_runes T rs) @ [0]" y1] r(2,3) len by auto
  have "length y2 = length ys" using f(3) r(2,3) by (simp add: n len)
  moreover have "draw_text_call T cfg base draw (xs @ concat rs @ 0 # ys) (length xs) a = Some (x2 @ concat rs @ 0 # y2)"
    using draw_text_patch_runes [OF T(1,2) rs', of xs ys a] r f(1,2) unshape_text_shaped [OF T(1,3) rs, of x2 y2]
    by (simp add: draw_text_call_def fd)
  ultimately show ?thesis using f(2) by blast
qed

end
