(* ===== verification/C_Abi.thy ===== *)
theory C_Abi
  imports Prelude
begin

text \<open>
  C types and the procedure call standard of the target (AAPCS for a Cortex-M3 without floating
  point unit, with the variable-size enumerations of the bare-metal toolchain): sizes, alignments
  and bit offsets of the members of a structure, and the words in which a call passes its arguments.
  The declarations of \<^verbatim>\<open>runtime/pebble.h\<close> are terms of these types.
\<close>

section \<open>Types\<close>

text \<open>
  \<open>UInt n\<close> and \<open>SInt n\<close> are integers of \<open>n\<close> bytes.  An enumerator carries the value written in the source,
  if any.  \<open>Opaque\<close> is a structure declared by name only.  The qualifiers \<^verbatim>\<open>const\<close> and \<^verbatim>\<open>static\<close> have no
  influence on layout and calls and are left out.
\<close>

datatype ctype =
    Void | Bool | UInt nat | SInt nat | Double
  | CEnum "(string \<times> int option) list"
  | Ptr ctype
  | FunPtr ctype "ctype list"
  | Arr nat ctype
  | Opaque string
  | CStruct bool "member list"
  | CUnion "member list"
and member =
    Member string ctype
  | BitField string ctype nat

datatype proto = Proto string ctype "ctype list" | Variadic string ctype "ctype list"

primrec pname :: "proto \<Rightarrow> string" where
  "pname (Proto n r ts) = n"
| "pname (Variadic n r ts) = n"

primrec pret :: "proto \<Rightarrow> ctype" where
  "pret (Proto n r ts) = r"
| "pret (Variadic n r ts) = r"

primrec pargs :: "proto \<Rightarrow> ctype list" where
  "pargs (Proto n r ts) = ts"
| "pargs (Variadic n r ts) = ts"

section \<open>Enumerations\<close>

text \<open>An enumerator without a value is one more than the one before it, the first one is zero.\<close>

fun enum_values :: "int \<Rightarrow> (string \<times> int option) list \<Rightarrow> (string \<times> int) list" where
  "enum_values n [] = []"
| "enum_values n ((x, None) # es) = (x, n) # enum_values (n + 1) es"
| "enum_values n ((x, Some v) # es) = (x, v) # enum_values (v + 1) es"

definition enum_size :: "(string \<times> int option) list \<Rightarrow> nat" where
  "enum_size es =
     (let vs = map snd (enum_values 0 es) in
      if list_all (\<lambda>v. 0 \<le> v \<and> v < 2 ^ 8) vs \<or> list_all (\<lambda>v. - (2 ^ 7) \<le> v \<and> v < 2 ^ 7) vs then 1
      else if list_all (\<lambda>v. 0 \<le> v \<and> v < 2 ^ 16) vs \<or> list_all (\<lambda>v. - (2 ^ 15) \<le> v \<and> v < 2 ^ 15) vs then 2
      else 4)"

section \<open>Layout\<close>

definition align_up :: "nat \<Rightarrow> nat \<Rightarrow> nat" where
  "align_up n a = (n + a - 1) div a * a"

text \<open>
  Bit offsets count from the start of the structure.  A bit-field takes the next bits unless it would
  cross a boundary of its container type; in a packed structure members follow one another.
\<close>

fun sizeof :: "ctype \<Rightarrow> nat" and alignof :: "ctype \<Rightarrow> nat"
  and mbits :: "member \<Rightarrow> nat" and malign :: "member \<Rightarrow> nat"
  and member_start :: "bool \<Rightarrow> nat \<Rightarrow> member \<Rightarrow> nat"
  and members_end :: "bool \<Rightarrow> nat \<Rightarrow> member list \<Rightarrow> nat" and members_align :: "member list \<Rightarrow> nat"
  and members_max :: "member list \<Rightarrow> nat" where
  "sizeof Void = 0"
| "sizeof Bool = 1"
| "sizeof (UInt n) = n"
| "sizeof (SInt n) = n"
| "sizeof Double = 8"
| "sizeof (CEnum es) = enum_size es"
| "sizeof (Ptr t) = 4"
| "sizeof (FunPtr r ts) = 4"
| "sizeof (Arr n t) = n * sizeof t"
| "sizeof (Opaque x) = 0"
| "sizeof (CStruct packed ms) =
     align_up (members_end packed 0 ms) (8 * (if packed then 1 else members_align ms)) div 8"
| "sizeof (CUnion ms) = align_up (members_max ms) (8 * members_align ms) div 8"
| "alignof Void = 1"
| "alignof Bool = 1"
| "alignof (UInt n) = n"
| "alignof (SInt n) = n"
| "alignof Double = 8"
| "alignof (CEnum es) = enum_size es"
| "alignof (Ptr t) = 4"
| "alignof (FunPtr r ts) = 4"
| "alignof (Arr n t) = alignof t"
| "alignof (Opaque x) = 1"
| "alignof (CStruct packed ms) = (if packed then 1 else members_align ms)"
| "alignof (CUnion ms) = members_align ms"
| "mbits (Member x t) = 8 * sizeof t"
| "mbits (BitField x t w) = w"
| "malign (Member x t) = alignof t"
| "malign (BitField x t w) = alignof t"
| "member_start packed n (Member x t) = align_up n (8 * (if packed then 1 else alignof t))"
| "member_start packed n (BitField x t w) =
     (if packed \<or> n mod (8 * sizeof t) + w \<le> 8 * sizeof t then n else align_up n (8 * sizeof t))"
| "members_end packed n [] = n"
| "members_end packed n (m # ms) = members_end packed (member_start packed n m + mbits m) ms"
| "members_align [] = 1"
| "members_align (m # ms) = max (malign m) (members_align ms)"
| "members_max [] = 0"
| "members_max (m # ms) = max (mbits m) (members_max ms)"

text \<open>The members with their bit offsets.\<close>

fun struct_layout :: "bool \<Rightarrow> nat \<Rightarrow> member list \<Rightarrow> (nat \<times> member) list" where
  "struct_layout packed n [] = []"
| "struct_layout packed n (m # ms) =
     (member_start packed n m, m) # struct_layout packed (member_start packed n m + mbits m) ms"

section \<open>Calls\<close>

text \<open>
  The argument words of a call are numbered: 0 to 3 are the registers r0 to r3, word 4 is at the
  stack pointer on entry, and so on.  An argument smaller than a word is widened to one; one that
  needs 8-byte alignment starts at an even word; a structure may begin in registers and continue on
  the stack.  A result larger than a word that is a structure or union is returned through a pointer
  in word 0.
\<close>

definition arg_words :: "ctype \<Rightarrow> nat" where
  "arg_words t = (sizeof t + 3) div 4"

fun arg_slots :: "nat \<Rightarrow> ctype list \<Rightarrow> nat list list" where
  "arg_slots n [] = []"
| "arg_slots n (t # ts) =
     (let s = (if alignof t = 8 then align_up n 2 else n) in
      [s ..< s + arg_words t] # arg_slots (s + arg_words t) ts)"

fun by_address :: "ctype \<Rightarrow> bool" where
  "by_address (CStruct packed ms) \<longleftrightarrow> 4 < sizeof (CStruct packed ms)"
| "by_address (CUnion ms) \<longleftrightarrow> 4 < sizeof (CUnion ms)"
| "by_address t \<longleftrightarrow> False"

definition call_slots :: "proto \<Rightarrow> nat list list" where
  "call_slots p = arg_slots (if by_address (pret p) then 1 else 0) (pargs p)"

datatype location = Register nat | Stack nat

text \<open>A register, or a byte offset from the stack pointer on entry.\<close>

definition slot_location :: "nat \<Rightarrow> location" where
  "slot_location n = (if n < 4 then Register n else Stack (4 * (n - 4)))"

section \<open>Well-formed types\<close>

text \<open>Complete object types with the integer widths of the target; bit-fields fit their container.\<close>

fun wf_type :: "ctype \<Rightarrow> bool" and wf_member :: "member \<Rightarrow> bool" where
  "wf_type Void \<longleftrightarrow> False"
| "wf_type Bool \<longleftrightarrow> True"
| "wf_type (UInt n) \<longleftrightarrow> n \<in> {1, 2, 4, 8}"
| "wf_type (SInt n) \<longleftrightarrow> n \<in> {1, 2, 4, 8}"
| "wf_type Double \<longleftrightarrow> True"
| "wf_type (CEnum es) \<longleftrightarrow> True"
| "wf_type (Ptr t) \<longleftrightarrow> True"
| "wf_type (FunPtr r ts) \<longleftrightarrow> True"
| "wf_type (Arr n t) \<longleftrightarrow> wf_type t"
| "wf_type (Opaque x) \<longleftrightarrow> False"
| "wf_type (CStruct packed ms) \<longleftrightarrow> list_all wf_member ms"
| "wf_type (CUnion ms) \<longleftrightarrow> list_all wf_member ms"
| "wf_member (Member x t) \<longleftrightarrow> wf_type t"
| "wf_member (BitField x t w) \<longleftrightarrow> wf_type t \<and> 0 < w \<and> w \<le> 8 * sizeof t"

lemma align_up:
  assumes "0 < a"
  shows "n \<le> align_up n a" "align_up n a < n + a" "a dvd align_up n a"
proof -
  have "(n + a - 1) div a * a + (n + a - 1) mod a = n + a - 1" by (rule div_mult_mod_eq)
  moreover have "(n + a - 1) mod a < a" using assms by simp
  ultimately show "n \<le> align_up n a" "align_up n a < n + a" unfolding align_up_def using assms by linarith+
qed (simp add: align_up_def)

lemma enum_size_cases: "enum_size es \<in> {1, 2, 4}"
  by (simp add: enum_size_def Let_def)

text \<open>Alignments are powers of two up to eight, and the size of a type is a multiple of its alignment.\<close>

definition alignments :: "nat set" where
  "alignments = {1, 2, 4, 8}"

lemma max_alignments: "a \<in> alignments \<Longrightarrow> b \<in> alignments \<Longrightarrow> max a b \<in> alignments"
  by (auto simp: alignments_def max_def)

lemma members_align_alignments:
  "(\<And>m. m \<in> set ms \<Longrightarrow> malign m \<in> alignments) \<Longrightarrow> members_align ms \<in> alignments"
  by (induction ms) (simp_all add: alignments_def, simp add: max_def)

lemma wf_align:
  "wf_type t \<Longrightarrow> alignof t \<in> alignments" "wf_member m \<Longrightarrow> malign m \<in> alignments"
proof (induction t and m)
  case (CEnum es)
  then show ?case using enum_size_cases [of es] by (auto simp: alignments_def)
next
  case (CStruct packed ms)
  then have "members_align ms \<in> alignments" by (intro members_align_alignments) (simp add: list_all_iff)
  then show ?case by (simp add: alignments_def)
next
  case (CUnion ms)
  then show ?case by (auto intro!: members_align_alignments simp: list_all_iff)
qed (auto simp: alignments_def)

lemma wf_align_pos: "wf_type t \<Longrightarrow> 0 < alignof t"
  using wf_align(1) by (fastforce simp: alignments_def)

lemma align_up_div: "0 < a \<Longrightarrow> a dvd align_up n (8 * a) div 8"
proof -
  assume "0 < a"
  then obtain k where "align_up n (8 * a) = 8 * a * k" using align_up(3) [of "8 * a" n] by (auto elim: dvdE)
  then show ?thesis by simp
qed

lemma alignof_dvd_sizeof: "wf_type t \<Longrightarrow> alignof t dvd sizeof t" and "wf_member m \<Longrightarrow> True"
proof (induction t and m)
  case (CStruct packed ms)
  then show ?case using wf_align_pos [of "CStruct packed ms"] by (auto intro: align_up_div)
next
  case (CUnion ms)
  then show ?case using wf_align_pos [of "CUnion ms"] by (auto intro: align_up_div)
qed auto

section \<open>Members do not overlap\<close>

lemma member_start_ge: "wf_member m \<Longrightarrow> n \<le> member_start packed n m"
  by (cases m) (auto intro!: align_up(1) dest: wf_align_pos)

lemma members_end_ge: "list_all wf_member ms \<Longrightarrow> n \<le> members_end packed n ms"
proof (induction ms arbitrary: n)
  case (Cons m ms)
  then have "n \<le> member_start packed n m + mbits m" using member_start_ge [of m n packed] by simp
  also have "\<dots> \<le> members_end packed (member_start packed n m + mbits m) ms" using Cons by simp
  finally show ?case by simp
qed simp

lemma layout_bounds:
  "list_all wf_member ms \<Longrightarrow> (k, m) \<in> set (struct_layout packed n ms) \<Longrightarrow>
     n \<le> k \<and> k + mbits m \<le> members_end packed n ms"
proof (induction ms arbitrary: n)
  case (Cons m' ms)
  let ?s = "member_start packed n m'"
  have s: "n \<le> ?s" using Cons.prems(1) by (simp add: member_start_ge)
  show ?case
  proof (cases "(k, m) = (?s, m')")
    case True
    then show ?thesis using s members_end_ge [of ms "?s + mbits m'" packed] Cons.prems(1) by simp
  next
    case False
    then have "?s + mbits m' \<le> k \<and> k + mbits m \<le> members_end packed (?s + mbits m') ms"
      using Cons by (auto intro!: Cons.IH)
    then show ?thesis using s by simp
  qed
qed simp

lemma layout_disjoint:
  "list_all wf_member ms \<Longrightarrow> sorted_wrt (\<lambda>(k, m) (k', m'). k + mbits m \<le> k') (struct_layout packed n ms)"
proof (induction ms arbitrary: n)
  case (Cons m ms)
  then show ?case using layout_bounds [of ms] by (auto dest: layout_bounds)
qed simp

lemma members_align_max: "m \<in> set ms \<Longrightarrow> malign m \<le> members_align ms"
  by (induction ms) auto

lemma layout_aligned:
  "list_all wf_member ms \<Longrightarrow> (k, Member x t) \<in> set (struct_layout False n ms) \<Longrightarrow> 8 * alignof t dvd k"
  by (induction ms arbitrary: n) (auto intro!: align_up(3) simp: wf_align_pos)

text \<open>A structure as the target lays it out, and a union.\<close>

fun laid_out :: "ctype \<Rightarrow> bool" where
  "laid_out (CStruct packed ms) \<longleftrightarrow>
     sorted_wrt (\<lambda>(k, m) (k', m'). k + mbits m \<le> k') (struct_layout packed 0 ms) \<and>
     (\<forall>(k, m) \<in> set (struct_layout packed 0 ms). k + mbits m \<le> 8 * sizeof (CStruct packed ms)) \<and>
     (\<forall>(k, m) \<in> set (struct_layout packed 0 ms). \<not> packed \<longrightarrow>
        (case m of Member x t \<Rightarrow> 8 * alignof t dvd k | BitField x t w \<Rightarrow> True)) \<and>
     alignof (CStruct packed ms) dvd sizeof (CStruct packed ms)"
| "laid_out (CUnion ms) \<longleftrightarrow>
     (\<forall>m \<in> set ms. mbits m \<le> 8 * sizeof (CUnion ms)) \<and> alignof (CUnion ms) dvd sizeof (CUnion ms)"
| "laid_out t \<longleftrightarrow> alignof t dvd sizeof t"

lemma sizeof_Struct_ge: "wf_type (CStruct packed ms) \<Longrightarrow> members_end packed 0 ms \<le> 8 * sizeof (CStruct packed ms)"
proof -
  assume wf: "wf_type (CStruct packed ms)"
  let ?a = "if packed then 1 else members_align ms"
  have "0 < ?a" using wf_align_pos [OF wf] by simp
  then have "8 dvd align_up (members_end packed 0 ms) (8 * ?a)" using align_up(3) [of "8 * ?a"] dvd_mult_left by fastforce
  then show ?thesis using \<open>0 < ?a\<close> align_up(1) [of "8 * ?a" "members_end packed 0 ms"] by simp
qed

lemma members_max_ge: "m \<in> set ms \<Longrightarrow> mbits m \<le> members_max ms"
  by (induction ms) auto

lemma sizeof_Union_ge: "wf_type (CUnion ms) \<Longrightarrow> m \<in> set ms \<Longrightarrow> mbits m \<le> 8 * sizeof (CUnion ms)"
proof -
  assume wf: "wf_type (CUnion ms)" and m: "m \<in> set ms"
  have a: "0 < members_align ms" using wf_align_pos [OF wf] by simp
  then have "8 dvd align_up (members_max ms) (8 * members_align ms)"
    using align_up(3) [of "8 * members_align ms"] dvd_mult_left by fastforce
  then have "members_max ms \<le> 8 * sizeof (CUnion ms)"
    using a align_up(1) [of "8 * members_align ms" "members_max ms"] by simp
  with members_max_ge [OF m] show ?thesis by linarith
qed

lemma wf_laid_out: "wf_type t \<Longrightarrow> laid_out t"
proof (induction t rule: laid_out.induct)
  case (1 packed ms)
  then have wf: "list_all wf_member ms" by simp
  have "k + mbits m \<le> 8 * sizeof (CStruct packed ms)" if "(k, m) \<in> set (struct_layout packed 0 ms)" for k m
    using layout_bounds [OF wf that] sizeof_Struct_ge [OF 1] by linarith
  moreover have "8 * alignof t dvd k" if "(k, Member x t) \<in> set (struct_layout packed 0 ms)" "\<not> packed" for k x t
    using layout_aligned [OF wf] that by simp
  ultimately show ?case using layout_disjoint [OF wf] alignof_dvd_sizeof [OF 1]
    by (auto simp del: sizeof.simps alignof.simps split: member.splits)
next
  case (2 ms)
  then show ?case using sizeof_Union_ge [OF 2] alignof_dvd_sizeof [OF 2] by (simp del: sizeof.simps alignof.simps)
qed (simp_all only: laid_out.simps alignof_dvd_sizeof)

section \<open>Arguments arrive\<close>

lemma arg_slots_length: "length (arg_slots n ts) = length ts"
  by (induction ts arbitrary: n) (simp_all add: Let_def)

lemma arg_slots_words: "map length (arg_slots n ts) = map arg_words ts"
  by (induction ts arbitrary: n) (simp_all add: Let_def)

lemma arg_slots_ge: "x \<in> set (concat (arg_slots n ts)) \<Longrightarrow> n \<le> x"
proof (induction ts arbitrary: n)
  case (Cons t ts)
  let ?s = "if alignof t = 8 then align_up n 2 else n"
  have "n \<le> ?s" using align_up(1) [of 2 n] by simp
  moreover have "x \<in> set [?s ..< ?s + arg_words t] \<or> x \<in> set (concat (arg_slots (?s + arg_words t) ts))"
    using Cons.prems by (simp only: arg_slots.simps Let_def concat.simps set_append Un_iff)
  then have "?s \<le> x" using Cons.IH [of "?s + arg_words t"] by (auto simp del: set_concat if_split)
  ultimately show ?case by (rule order_trans)
qed simp

text \<open>The words of the arguments follow one another, so no two arguments share a word.\<close>

lemma arg_slots_sorted: "sorted_wrt (<) (concat (arg_slots n ts))"
proof (induction ts arbitrary: n)
  case (Cons t ts)
  let ?s = "if alignof t = 8 then align_up n 2 else n"
  have "x < y" if "x \<in> set [?s ..< ?s + arg_words t]" "y \<in> set (concat (arg_slots (?s + arg_words t) ts))" for x y
    using that(1) arg_slots_ge [OF that(2)] by simp
  moreover have "sorted_wrt (<) [?s ..< ?s + arg_words t]" by (rule sorted_wrt_upt)
  ultimately show ?case unfolding arg_slots.simps Let_def concat.simps sorted_wrt_append
    using Cons.IH by blast
qed simp

text \<open>Writing the words of the arguments into their slots.\<close>

fun put_words :: "nat list \<Rightarrow> 'w list \<Rightarrow> (nat \<Rightarrow> 'w) \<Rightarrow> nat \<Rightarrow> 'w" where
  "put_words (s # ss) (w # ws) f = put_words ss ws (f(s := w))"
| "put_words _ _ f = f"

lemma put_words_other: "x \<notin> set ss \<Longrightarrow> put_words ss ws f x = f x"
  by (induction ss ws f rule: put_words.induct) auto

lemma put_words_same: "distinct ss \<Longrightarrow> length ss = length ws \<Longrightarrow> map (put_words ss ws f) ss = ws"
proof (induction ss ws f rule: put_words.induct)
  case (1 s ss w ws f)
  then show ?case by (simp add: put_words_other del: fun_upd_apply) (simp add: put_words_other)
qed auto

definition pass_args :: "proto \<Rightarrow> 'w list list \<Rightarrow> (nat \<Rightarrow> 'w) \<Rightarrow> nat \<Rightarrow> 'w" where
  "pass_args p vs f = put_words (concat (call_slots p)) (concat vs) f"

definition received_args :: "proto \<Rightarrow> (nat \<Rightarrow> 'w) \<Rightarrow> 'w list list" where
  "received_args p f = map (map f) (call_slots p)"

lemma map_concat_inj: "map length xss = map length yss \<Longrightarrow> concat xss = concat yss \<Longrightarrow> xss = yss"
proof (induction xss arbitrary: yss)
  case (Cons xs xss)
  then show ?case by (cases yss) auto
qed simp

lemma args_received:
  assumes "map length vs = map arg_words (pargs p)"
  shows "received_args p (pass_args p vs f) = vs"
proof (rule map_concat_inj)
  let ?ss = "concat (call_slots p)"
  have l: "map length (call_slots p) = map length vs" using assms by (simp add: call_slots_def arg_slots_words)
  then show "map length (received_args p (pass_args p vs f)) = map length vs"
    by (simp add: received_args_def o_def)
  have "length ?ss = length (concat vs)" using l by (simp add: length_concat)
  moreover have "distinct ?ss"
    unfolding call_slots_def using arg_slots_sorted strict_sorted_iff by blast
  ultimately have "map (pass_args p vs f) ?ss = concat vs" unfolding pass_args_def by (rule put_words_same [rotated])
  then show "concat (received_args p (pass_args p vs f)) = concat vs"
    by (simp add: received_args_def map_concat)
qed

end
