(* ===== verification/Pebble_Types.thy ===== *)
theory Pebble_Types
  imports C_Abi
begin

text \<open>
  The types \<^verbatim>\<open>runtime/pebble.h\<close> declares, in its order: enumerations with the values it writes,
  structures and unions member by member, function pointers with their argument types, and the
  structures known by name only.  The type \<open>X\<close> of the header is the constant \<open>X_t\<close>.
\<close>

section \<open>Clicks\<close>

definition ButtonId_t :: ctype where
  "ButtonId_t = CEnum [(''BUTTON_ID_BACK'', Some 0), (''BUTTON_ID_UP'', None), (''BUTTON_ID_SELECT'', None),
     (''BUTTON_ID_DOWN'', None), (''NUM_BUTTONS'', None)]"

section \<open>Watch Info\<close>

definition WatchInfoModel_t :: ctype where
  "WatchInfoModel_t = CEnum [(''WATCH_INFO_MODEL_UNKNOWN'', None), (''WATCH_INFO_MODEL_PEBBLE_ORIGINAL'', None),
     (''WATCH_INFO_MODEL_PEBBLE_STEEL'', None), (''WATCH_INFO_MODEL_PEBBLE_TIME'', None),
     (''WATCH_INFO_MODEL_PEBBLE_TIME_STEEL'', None), (''WATCH_INFO_MODEL_PEBBLE_TIME_ROUND_14'', None),
     (''WATCH_INFO_MODEL_PEBBLE_TIME_ROUND_20'', None)]"

definition WatchInfoColor_t :: ctype where
  "WatchInfoColor_t = CEnum [(''WATCH_INFO_COLOR_UNKNOWN'', Some 0), (''WATCH_INFO_COLOR_BLACK'', Some 1),
     (''WATCH_INFO_COLOR_WHITE'', Some 2), (''WATCH_INFO_COLOR_RED'', Some 3),
     (''WATCH_INFO_COLOR_ORANGE'', Some 4), (''WATCH_INFO_COLOR_GRAY'', Some 5), (''WATCH_INFO_COLOR_STAINLESS_STEEL'', Some 6),
     (''WATCH_INFO_COLOR_MATTE_BLACK'', Some 7), (''WATCH_INFO_COLOR_BLUE'', Some 8),
     (''WATCH_INFO_COLOR_GREEN'', Some 9), (''WATCH_INFO_COLOR_PINK'', Some 10),
     (''WATCH_INFO_COLOR_TIME_WHITE'', Some 11), (''WATCH_INFO_COLOR_TIME_BLACK'', Some 12),
     (''WATCH_INFO_COLOR_TIME_RED'', Some 13), (''WATCH_INFO_COLOR_TIME_STEEL_SILVER'', Some 14),
     (''WATCH_INFO_COLOR_TIME_STEEL_BLACK'', Some 15), (''WATCH_INFO_COLOR_TIME_STEEL_GOLD'', Some 16),
     (''WATCH_INFO_COLOR_TIME_ROUND_SILVER_14'', Some 17), (''WATCH_INFO_COLOR_TIME_ROUND_BLACK_14'', Some 18),
     (''WATCH_INFO_COLOR_TIME_ROUND_SILVER_20'', Some 19), (''WATCH_INFO_COLOR_TIME_ROUND_BLACK_20'', Some 20),
     (''WATCH_INFO_COLOR_TIME_ROUND_ROSE_GOLD_14'', Some 21)]"

definition WatchInfoVersion_t :: ctype where
  "WatchInfoVersion_t = CStruct False [Member ''major'' (UInt 1), Member ''minor'' (UInt 1), Member ''patch'' (UInt 1)]"

section \<open>Wall Time\<close>

definition WeekDay_t :: ctype where
  "WeekDay_t = CEnum [(''TODAY'', Some 0), (''SUNDAY'', None), (''MONDAY'', None), (''TUESDAY'', None),
     (''WEDNESDAY'', None), (''THURSDAY'', None), (''FRIDAY'', None), (''SATURDAY'', None)]"

section \<open>Connection Service\<close>

definition ConnectionHandler_t :: ctype where
  "ConnectionHandler_t = FunPtr Void [Bool]"

definition ConnectionHandlers_t :: ctype where
  "ConnectionHandlers_t = CStruct False [Member ''pebble_app_connection_handler'' ConnectionHandler_t,
     Member ''pebblekit_connection_handler'' ConnectionHandler_t]"

definition BluetoothConnectionHandler_t :: ctype where
  "BluetoothConnectionHandler_t = ConnectionHandler_t"

section \<open>App Focus Service\<close>

definition AppFocusHandler_t :: ctype where
  "AppFocusHandler_t = FunPtr Void [Bool]"

definition AppFocusHandlers_t :: ctype where
  "AppFocusHandlers_t = CStruct False [Member ''will_focus'' AppFocusHandler_t, Member ''did_focus'' AppFocusHandler_t]"

section \<open>Battery State Service\<close>

definition BatteryChargeState_t :: ctype where
  "BatteryChargeState_t = CStruct False [Member ''charge_percent'' (UInt 1), Member ''is_charging'' Bool, Member ''is_plugged'' Bool]"

definition BatteryStateHandler_t :: ctype where
  "BatteryStateHandler_t = FunPtr Void [BatteryChargeState_t]"

section \<open>Accelerometer Service\<close>

definition AccelData_t :: ctype where
  "AccelData_t = CStruct True [Member ''x'' (SInt 2), Member ''y'' (SInt 2), Member ''z'' (SInt 2),
     Member ''did_vibrate'' Bool, Member ''timestamp'' (UInt 8)]"

definition AccelRawData_t :: ctype where
  "AccelRawData_t = CStruct True [Member ''x'' (SInt 2), Member ''y'' (SInt 2), Member ''z'' (SInt 2)]"

definition AccelAxisType_t :: ctype where
  "AccelAxisType_t = CEnum [(''ACCEL_AXIS_X'', Some 0), (''ACCEL_AXIS_Y'', Some 1), (''ACCEL_AXIS_Z'', Some 2)]"

definition AccelDataHandler_t :: ctype where
  "AccelDataHandler_t = FunPtr Void [Ptr AccelData_t, UInt 4]"

definition AccelRawDataHandler_t :: ctype where
  "AccelRawDataHandler_t = FunPtr Void [Ptr AccelRawData_t, UInt 4, UInt 8]"

definition AccelTapHandler_t :: ctype where
  "AccelTapHandler_t = FunPtr Void [AccelAxisType_t, SInt 4]"

definition AccelSamplingRate_t :: ctype where
  "AccelSamplingRate_t = CEnum [(''ACCEL_SAMPLING_10HZ'', Some 10), (''ACCEL_SAMPLING_25HZ'', Some 25),
     (''ACCEL_SAMPLING_50HZ'', Some 50), (''ACCEL_SAMPLING_100HZ'', Some 100)]"

section \<open>Compass Service\<close>

definition CompassStatus_t :: ctype where
  "CompassStatus_t = CEnum [(''CompassStatusDataInvalid'', Some 0), (''CompassStatusCalibrating'', None),
     (''CompassStatusCalibrated'', None)]"

definition CompassHeading_t :: ctype where
  "CompassHeading_t = SInt 4"

definition CompassHeadingData_t :: ctype where
  "CompassHeadingData_t = CStruct False [Member ''magnetic_heading'' CompassHeading_t, Member ''true_heading'' CompassHeading_t,
     Member ''compass_status'' CompassStatus_t, Member ''is_declination_valid'' Bool]"

definition CompassHeadingHandler_t :: ctype where
  "CompassHeadingHandler_t = FunPtr Void [CompassHeadingData_t]"

section \<open>Tick Timer Service\<close>

definition TimeUnits_t :: ctype where
  "TimeUnits_t = CEnum [(''SECOND_UNIT'', Some (2 ^ 0)), (''MINUTE_UNIT'', Some (2 ^ 1)), (''HOUR_UNIT'', Some (2 ^ 2)),
     (''DAY_UNIT'', Some (2 ^ 3)), (''MONTH_UNIT'', Some (2 ^ 4)), (''YEAR_UNIT'', Some (2 ^ 5))]"

definition TickHandler_t :: ctype where
  "TickHandler_t = FunPtr Void [Ptr (Opaque ''tm''), TimeUnits_t]"

section \<open>Health Service\<close>

definition HealthMetric_t :: ctype where
  "HealthMetric_t = CEnum [(''HealthMetricStepCount'', None), (''HealthMetricActiveSeconds'', None),
     (''HealthMetricWalkedDistanceMeters'', None), (''HealthMetricSleepSeconds'', None),
     (''HealthMetricSleepRestfulSeconds'', None), (''HealthMetricRestingKCalories'', None),
     (''HealthMetricActiveKCalories'', None)]"

definition HealthValue_t :: ctype where
  "HealthValue_t = SInt 4"

definition HealthServiceTimeScope_t :: ctype where
  "HealthServiceTimeScope_t = CEnum [(''HealthServiceTimeScopeOnce'', None), (''HealthServiceTimeScopeWeekly'', None),
     (''HealthServiceTimeScopeDailyWeekdayOrWeekend'', None), (''HealthServiceTimeScopeDaily'', None)]"

definition HealthActivityMask_t :: ctype where
  "HealthActivityMask_t = UInt 4"

definition HealthActivity_t :: ctype where
  "HealthActivity_t = CEnum [(''HealthActivityNone'', Some 0), (''HealthActivitySleep'', Some (2 ^ 0)),
     (''HealthActivityRestfulSleep'', Some (2 ^ 1))]"

definition HealthActivityIteratorCB_t :: ctype where
  "HealthActivityIteratorCB_t = FunPtr Bool [HealthActivity_t, SInt 4, SInt 4, Ptr Void]"

definition HealthIterationDirection_t :: ctype where
  "HealthIterationDirection_t = CEnum [(''HealthIterationDirectionPast'', None), (''HealthIterationDirectionFuture'', None)]"

definition HealthServiceAccessibilityMask_t :: ctype where
  "HealthServiceAccessibilityMask_t = CEnum [(''HealthServiceAccessibilityMaskAvailable'', Some (2 ^ 0)),
     (''HealthServiceAccessibilityMaskNoPermission'', Some (2 ^ 1)),
     (''HealthServiceAccessibilityMaskNotSupported'', Some (2 ^ 2)),
     (''HealthServiceAccessibilityMaskNotAvailable'', Some (2 ^ 3))]"

definition HealthEventType_t :: ctype where
  "HealthEventType_t = CEnum [(''HealthEventSignificantUpdate'', Some 0), (''HealthEventMovementUpdate'', Some 1),
     (''HealthEventSleepUpdate'', Some 2)]"

definition HealthEventHandler_t :: ctype where
  "HealthEventHandler_t = FunPtr Void [HealthEventType_t, Ptr Void]"

definition AmbientLightLevel_t :: ctype where
  "AmbientLightLevel_t = CEnum [(''AmbientLightLevelUnknown'', Some 0), (''AmbientLightLevelVeryDark'', None),
     (''AmbientLightLevelDark'', None), (''AmbientLightLevelLight'', None),
     (''AmbientLightLevelVeryLight'', None)]"

definition HealthMinuteData_t :: ctype where
  "HealthMinuteData_t = CStruct False [Member ''steps'' (UInt 1), Member ''orientation'' (UInt 1), Member ''vmc'' (UInt 2),
     BitField ''is_invalid'' Bool 1, BitField ''light'' AmbientLightLevel_t 3, BitField ''padding'' (UInt 1) 4,
     Member ''reserved'' (Arr 7 (UInt 1))]"

definition MeasurementSystem_t :: ctype where
  "MeasurementSystem_t = CEnum [(''MeasurementSystemUnknown'', None), (''MeasurementSystemMetric'', None),
     (''MeasurementSystemImperial'', None)]"

section \<open>Data Logging\<close>

definition DataLoggingSessionRef_t :: ctype where
  "DataLoggingSessionRef_t = Ptr Void"

definition DataLoggingItemType_t :: ctype where
  "DataLoggingItemType_t = CEnum [(''DATA_LOGGING_BYTE_ARRAY'', Some 0), (''DATA_LOGGING_UINT'', Some 2),
     (''DATA_LOGGING_INT'', Some 3)]"

definition DataLoggingResult_t :: ctype where
  "DataLoggingResult_t = CEnum [(''DATA_LOGGING_SUCCESS'', Some 0), (''DATA_LOGGING_BUSY'', None), (''DATA_LOGGING_FULL'', None),
     (''DATA_LOGGING_NOT_FOUND'', None), (''DATA_LOGGING_CLOSED'', None),
     (''DATA_LOGGING_INVALID_PARAMS'', None), (''DATA_LOGGING_INTERNAL_ERR'', None)]"

section \<open>UUID\<close>

definition Uuid_t :: ctype where
  "Uuid_t = CStruct True [Member ''byte0'' (UInt 1), Member ''byte1'' (UInt 1), Member ''byte2'' (UInt 1),
     Member ''byte3'' (UInt 1), Member ''byte4'' (UInt 1), Member ''byte5'' (UInt 1), Member ''byte6'' (UInt 1),
     Member ''byte7'' (UInt 1), Member ''byte8'' (UInt 1), Member ''byte9'' (UInt 1),
     Member ''byte10'' (UInt 1), Member ''byte11'' (UInt 1), Member ''byte12'' (UInt 1),
     Member ''byte13'' (UInt 1), Member ''byte14'' (UInt 1), Member ''byte15'' (UInt 1)]"

section \<open>Logging\<close>

definition AppLogLevel_t :: ctype where
  "AppLogLevel_t = CEnum [(''APP_LOG_LEVEL_ERROR'', Some 1), (''APP_LOG_LEVEL_WARNING'', Some 50),
     (''APP_LOG_LEVEL_INFO'', Some 100), (''APP_LOG_LEVEL_DEBUG'', Some 200), (''APP_LOG_LEVEL_DEBUG_VERBOSE'', Some 255)]"

section \<open>Dictionary\<close>

definition DictionaryResult_t :: ctype where
  "DictionaryResult_t = CEnum [(''DICT_OK'', Some 0), (''DICT_NOT_ENOUGH_STORAGE'', Some (2 ^ 1)),
     (''DICT_INVALID_ARGS'', Some (2 ^ 2)), (''DICT_INTERNAL_INCONSISTENCY'', Some (2 ^ 3)), (''DICT_MALLOC_FAILED'', Some (2 ^ 4))]"

definition TupleType_t :: ctype where
  "TupleType_t = CEnum [(''TUPLE_BYTE_ARRAY'', Some 0), (''TUPLE_CSTRING'', Some 1), (''TUPLE_UINT'', Some 2),
     (''TUPLE_INT'', Some 3)]"

definition Tuple_t :: ctype where
  "Tuple_t = CStruct True [Member ''key'' (UInt 4), BitField ''type'' TupleType_t 8, Member ''length'' (UInt 2),
     Member ''value'' (Arr 0 (CUnion [Member ''data'' (Arr 0 (UInt 1)), Member ''cstring'' (Arr 0 (UInt 1)),
     Member ''uint8'' (UInt 1), Member ''uint16'' (UInt 2), Member ''uint32'' (UInt 4),
     Member ''int8'' (SInt 1), Member ''int16'' (SInt 2), Member ''int32'' (SInt 4)]))]"

definition Dictionary_t :: ctype where
  "Dictionary_t = Opaque ''Dictionary''"

definition DictionaryIterator_t :: ctype where
  "DictionaryIterator_t = CStruct False [Member ''dictionary'' (Ptr Dictionary_t), Member ''end'' (Ptr Void),
     Member ''cursor'' (Ptr Tuple_t)]"

definition Tuplet_t :: ctype where
  "Tuplet_t = CStruct False [Member ''type'' TupleType_t, Member ''key'' (UInt 4),
     Member '''' (CUnion [Member ''bytes'' (CStruct False [Member ''data'' (Ptr (UInt 1)),
     Member ''length'' (UInt 2)]), Member ''cstring'' (CStruct False [Member ''data'' (Ptr (UInt 1)),
     Member ''length'' (UInt 2)]), Member ''integer'' (CStruct False [Member ''storage'' (UInt 4),
     Member ''width'' (UInt 2)])])]"

definition DictionarySerializeCallback_t :: ctype where
  "DictionarySerializeCallback_t = FunPtr Void [Ptr (UInt 1), UInt 2, Ptr Void]"

definition DictionaryKeyUpdatedCallback_t :: ctype where
  "DictionaryKeyUpdatedCallback_t = FunPtr Void [UInt 4, Ptr Tuple_t, Ptr Tuple_t, Ptr Void]"

section \<open>Dictation\<close>

definition DictationSession_t :: ctype where
  "DictationSession_t = Opaque ''DictationSession''"

definition DictationSessionStatus_t :: ctype where
  "DictationSessionStatus_t = CEnum [(''DictationSessionStatusSuccess'', None),
     (''DictationSessionStatusFailureTranscriptionRejected'', None), (''DictationSessionStatusFailureTranscriptionRejectedWithError'', None),
     (''DictationSessionStatusFailureSystemAborted'', None),
     (''DictationSessionStatusFailureNoSpeechDetected'', None), (''DictationSessionStatusFailureConnectivityError'', None),
     (''DictationSessionStatusFailureDisabled'', None), (''DictationSessionStatusFailureInternalError'', None),
     (''DictationSessionStatusFailureRecognizerError'', None)]"

definition DictationSessionStatusCallback_t :: ctype where
  "DictationSessionStatusCallback_t = FunPtr Void [Ptr DictationSession_t, DictationSessionStatus_t, Ptr (UInt 1), Ptr Void]"

section \<open>App Message\<close>

definition AppMessageResult_t :: ctype where
  "AppMessageResult_t = CEnum [(''APP_MSG_OK'', Some 0), (''APP_MSG_SEND_TIMEOUT'', Some (2 ^ 1)),
     (''APP_MSG_SEND_REJECTED'', Some (2 ^ 2)), (''APP_MSG_NOT_CONNECTED'', Some (2 ^ 3)), (''APP_MSG_APP_NOT_RUNNING'', Some (2 ^ 4)),
     (''APP_MSG_INVALID_ARGS'', Some (2 ^ 5)), (''APP_MSG_BUSY'', Some (2 ^ 6)),
     (''APP_MSG_BUFFER_OVERFLOW'', Some (2 ^ 7)), (''APP_MSG_ALREADY_RELEASED'', Some (2 ^ 9)),
     (''APP_MSG_CALLBACK_ALREADY_REGISTERED'', Some (2 ^ 10)), (''APP_MSG_CALLBACK_NOT_REGISTERED'', Some (2 ^ 11)),
     (''APP_MSG_OUT_OF_MEMORY'', Some (2 ^ 12)), (''APP_MSG_CLOSED'', Some (2 ^ 13)), (''APP_MSG_INTERNAL_ERROR'', Some (2 ^ 14)),
     (''APP_MSG_INVALID_STATE'', Some (2 ^ 15))]"

definition AppMessageInboxReceived_t :: ctype where
  "AppMessageInboxReceived_t = FunPtr Void [Ptr DictionaryIterator_t, Ptr Void]"

definition AppMessageInboxDropped_t :: ctype where
  "AppMessageInboxDropped_t = FunPtr Void [AppMessageResult_t, Ptr Void]"

definition AppMessageOutboxSent_t :: ctype where
  "AppMessageOutboxSent_t = FunPtr Void [Ptr DictionaryIterator_t, Ptr Void]"

definition AppMessageOutboxFailed_t :: ctype where
  "AppMessageOutboxFailed_t = FunPtr Void [Ptr DictionaryIterator_t, AppMessageResult_t, Ptr Void]"

section \<open>App Sync\<close>

definition AppSyncTupleChangedCallback_t :: ctype where
  "AppSyncTupleChangedCallback_t = FunPtr Void [UInt 4, Ptr Tuple_t, Ptr Tuple_t, Ptr Void]"

definition AppSyncErrorCallback_t :: ctype where
  "AppSyncErrorCallback_t = FunPtr Void [DictionaryResult_t, AppMessageResult_t, Ptr Void]"

definition AppSync_t :: ctype where
  "AppSync_t = CStruct False [Member ''current_iter'' DictionaryIterator_t,
     Member '''' (CUnion [Member ''current'' (Ptr Dictionary_t), Member ''buffer'' (Ptr (UInt 1))]),
     Member ''buffer_size'' (UInt 2),
     Member ''callback'' (CStruct False [Member ''value_changed'' AppSyncTupleChangedCallback_t,
     Member ''error'' AppSyncErrorCallback_t, Member ''context'' (Ptr Void)])]"

section \<open>Resources\<close>

definition ResHandle_t :: ctype where
  "ResHandle_t = Ptr Void"

section \<open>App Worker\<close>

definition AppWorkerResult_t :: ctype where
  "AppWorkerResult_t = CEnum [(''APP_WORKER_RESULT_SUCCESS'', Some 0), (''APP_WORKER_RESULT_NO_WORKER'', Some 1),
     (''APP_WORKER_RESULT_DIFFERENT_APP'', Some 2), (''APP_WORKER_RESULT_NOT_RUNNING'', Some 3),
     (''APP_WORKER_RESULT_ALREADY_RUNNING'', Some 4), (''APP_WORKER_RESULT_ASKING_CONFIRMATION'', Some 5)]"

definition AppWorkerMessage_t :: ctype where
  "AppWorkerMessage_t = CStruct False [Member ''data0'' (UInt 2), Member ''data1'' (UInt 2), Member ''data2'' (UInt 2)]"

definition AppWorkerMessageHandler_t :: ctype where
  "AppWorkerMessageHandler_t = FunPtr Void [UInt 2, Ptr AppWorkerMessage_t]"

section \<open>App Comm\<close>

definition SniffInterval_t :: ctype where
  "SniffInterval_t = CEnum [(''SNIFF_INTERVAL_NORMAL'', Some 0), (''SNIFF_INTERVAL_REDUCED'', Some 1)]"

section \<open>Timer\<close>

definition AppTimer_t :: ctype where
  "AppTimer_t = Opaque ''AppTimer''"

definition AppTimerCallback_t :: ctype where
  "AppTimerCallback_t = FunPtr Void [Ptr Void]"

section \<open>Storage\<close>

definition StatusCode_t :: ctype where
  "StatusCode_t = CEnum [(''S_SUCCESS'', Some 0), (''E_ERROR'', Some (- 1)), (''E_UNKNOWN'', Some (- 2)),
     (''E_INTERNAL'', Some (- 3)), (''E_INVALID_ARGUMENT'', Some (- 4)), (''E_OUT_OF_MEMORY'', Some (- 5)),
     (''E_OUT_OF_STORAGE'', Some (- 6)), (''E_OUT_OF_RESOURCES'', Some (- 7)), (''E_RANGE'', Some (- 8)),
     (''E_DOES_NOT_EXIST'', Some (- 9)), (''E_INVALID_OPERATION'', Some (- 10)), (''E_BUSY'', Some (- 11)),
     (''E_AGAIN'', Some (- 12)), (''S_TRUE'', Some 1), (''S_FALSE'', Some 0), (''S_NO_MORE_ITEMS'', Some 2),
     (''S_NO_ACTION_REQUIRED'', Some 3)]"

definition status_t_t :: ctype where
  "status_t_t = SInt 4"

section \<open>Wakeup\<close>

definition WakeupId_t :: ctype where
  "WakeupId_t = SInt 4"

definition WakeupHandler_t :: ctype where
  "WakeupHandler_t = FunPtr Void [WakeupId_t, SInt 4]"

section \<open>Launch Reason\<close>

definition AppLaunchReason_t :: ctype where
  "AppLaunchReason_t = CEnum [(''APP_LAUNCH_SYSTEM'', Some 0), (''APP_LAUNCH_USER'', None), (''APP_LAUNCH_PHONE'', None),
     (''APP_LAUNCH_WAKEUP'', None), (''APP_LAUNCH_WORKER'', None), (''APP_LAUNCH_QUICK_LAUNCH'', None),
     (''APP_LAUNCH_TIMELINE_ACTION'', None)]"

section \<open>Graphics Types\<close>

definition GColor8_t :: ctype where
  "GColor8_t = CUnion [Member ''argb'' (UInt 1), Member '''' (CStruct False [BitField ''b'' (UInt 1) 2,
     BitField ''g'' (UInt 1) 2, BitField ''r'' (UInt 1) 2, BitField ''a'' (UInt 1) 2])]"

definition GColor_t :: ctype where
  "GColor_t = GColor8_t"

definition GPoint_t :: ctype where
  "GPoint_t = CStruct False [Member ''x'' (SInt 2), Member ''y'' (SInt 2)]"

definition GSize_t :: ctype where
  "GSize_t = CStruct False [Member ''w'' (SInt 2), Member ''h'' (SInt 2)]"

definition GRect_t :: ctype where
  "GRect_t = CStruct False [Member ''origin'' GPoint_t, Member ''size'' GSize_t]"

definition GBitmapFormat_t :: ctype where
  "GBitmapFormat_t = CEnum [(''GBitmapFormat1Bit'', Some 0), (''GBitmapFormat8Bit'', None),
     (''GBitmapFormat1BitPalette'', None), (''GBitmapFormat2BitPalette'', None), (''GBitmapFormat4BitPalette'', None),
     (''GBitmapFormat8BitCircular'', None)]"

definition GBitmap_t :: ctype where
  "GBitmap_t = Opaque ''GBitmap''"

definition GBitmapSequence_t :: ctype where
  "GBitmapSequence_t = Opaque ''GBitmapSequence''"

definition GBitmapDataRowInfo_t :: ctype where
  "GBitmapDataRowInfo_t = CStruct False [Member ''data'' (Ptr (UInt 1)), Member ''min_x'' (SInt 2), Member ''max_x'' (SInt 2)]"

definition GAlign_t :: ctype where
  "GAlign_t = CEnum [(''GAlignCenter'', None), (''GAlignTopLeft'', None), (''GAlignTopRight'', None),
     (''GAlignTop'', None), (''GAlignLeft'', None), (''GAlignBottom'', None), (''GAlignRight'', None),
     (''GAlignBottomRight'', None), (''GAlignBottomLeft'', None)]"

definition GCompOp_t :: ctype where
  "GCompOp_t = CEnum [(''GCompOpAssign'', None), (''GCompOpAssignInverted'', None), (''GCompOpOr'', None),
     (''GCompOpAnd'', None), (''GCompOpClear'', None), (''GCompOpSet'', None)]"

definition GContext_t :: ctype where
  "GContext_t = Opaque ''GContext''"

definition GEdgeInsets_t :: ctype where
  "GEdgeInsets_t = CStruct False [Member ''top'' (SInt 2), Member ''right'' (SInt 2), Member ''bottom'' (SInt 2),
     Member ''left'' (SInt 2)]"

section \<open>Drawing\<close>

definition GCornerMask_t :: ctype where
  "GCornerMask_t = CEnum [(''GCornerNone'', Some 0), (''GCornerTopLeft'', Some (2 ^ 0)), (''GCornerTopRight'', Some (2 ^ 1)),
     (''GCornerBottomLeft'', Some (2 ^ 2)), (''GCornerBottomRight'', Some (2 ^ 3)),
     (''GCornersAll'', Some ((2 ^ 0) OR (2 ^ 1) OR (2 ^ 2) OR (2 ^ 3))), (''GCornersTop'', Some ((2 ^ 0) OR (2 ^ 1))),
     (''GCornersBottom'', Some ((2 ^ 2) OR (2 ^ 3))), (''GCornersLeft'', Some ((2 ^ 0) OR (2 ^ 2))),
     (''GCornersRight'', Some ((2 ^ 1) OR (2 ^ 3)))]"

definition GOvalScaleMode_t :: ctype where
  "GOvalScaleMode_t = CEnum [(''GOvalScaleModeFitCircle'', None), (''GOvalScaleModeFillCircle'', None)]"

section \<open>Draw Command\<close>

definition GDrawCommand_t :: ctype where
  "GDrawCommand_t = Opaque ''GDrawCommand''"

definition GDrawCommandFrame_t :: ctype where
  "GDrawCommandFrame_t = Opaque ''GDrawCommandFrame''"

definition GDrawCommandImage_t :: ctype where
  "GDrawCommandImage_t = Opaque ''GDrawCommandImage''"

definition GDrawCommandList_t :: ctype where
  "GDrawCommandList_t = Opaque ''GDrawCommandList''"

definition GDrawCommandListIteratorCb_t :: ctype where
  "GDrawCommandListIteratorCb_t = FunPtr Bool [Ptr GDrawCommand_t, UInt 4, Ptr Void]"

definition GDrawCommandSequence_t :: ctype where
  "GDrawCommandSequence_t = Opaque ''GDrawCommandSequence''"

definition GDrawCommandType_t :: ctype where
  "GDrawCommandType_t = CEnum [(''GDrawCommandTypeInvalid'', Some 0), (''GDrawCommandTypePath'', None),
     (''GDrawCommandTypeCircle'', None), (''GDrawCommandTypePrecisePath'', None)]"

section \<open>Path Drawing\<close>

definition GPathInfo_t :: ctype where
  "GPathInfo_t = CStruct False [Member ''num_points'' (UInt 4), Member ''points'' (Ptr GPoint_t)]"

definition GPath_t :: ctype where
  "GPath_t = CStruct False [Member ''num_points'' (UInt 4), Member ''points'' (Ptr GPoint_t),
     Member ''rotation'' (SInt 4), Member ''offset'' GPoint_t]"

section \<open>Fonts\<close>

definition FontInfo_t :: ctype where
  "FontInfo_t = Opaque ''FontInfo''"

definition GFont_t :: ctype where
  "GFont_t = Ptr FontInfo_t"

section \<open>Text Drawing\<close>

definition GTextOverflowMode_t :: ctype where
  "GTextOverflowMode_t = CEnum [(''GTextOverflowModeWordWrap'', None), (''GTextOverflowModeTrailingEllipsis'', None),
     (''GTextOverflowModeFill'', None)]"

definition GTextAlignment_t :: ctype where
  "GTextAlignment_t = CEnum [(''GTextAlignmentLeft'', None), (''GTextAlignmentCenter'', None), (''GTextAlignmentRight'', None)]"

definition GTextAttributes_t :: ctype where
  "GTextAttributes_t = Opaque ''GTextAttributes''"

section \<open>Smartstrap\<close>

definition SmartstrapResult_t :: ctype where
  "SmartstrapResult_t = CEnum [(''SmartstrapResultOk'', Some 0), (''SmartstrapResultInvalidArgs'', None),
     (''SmartstrapResultNotPresent'', None), (''SmartstrapResultBusy'', None),
     (''SmartstrapResultServiceUnavailable'', None), (''SmartstrapResultAttributeUnsupported'', None),
     (''SmartstrapResultTimeOut'', None)]"

definition SmartstrapServiceId_t :: ctype where
  "SmartstrapServiceId_t = UInt 2"

definition SmartstrapAttributeId_t :: ctype where
  "SmartstrapAttributeId_t = UInt 2"

definition SmartstrapAttribute_t :: ctype where
  "SmartstrapAttribute_t = Opaque ''SmartstrapAttribute''"

definition SmartstrapServiceAvailabilityHandler_t :: ctype where
  "SmartstrapServiceAvailabilityHandler_t = FunPtr Void [SmartstrapServiceId_t, Bool]"

definition SmartstrapReadHandler_t :: ctype where
  "SmartstrapReadHandler_t = FunPtr Void [Ptr SmartstrapAttribute_t, SmartstrapResult_t, Ptr (UInt 1), UInt 4]"

definition SmartstrapWriteHandler_t :: ctype where
  "SmartstrapWriteHandler_t = FunPtr Void [Ptr SmartstrapAttribute_t, SmartstrapResult_t]"

definition SmartstrapNotifyHandler_t :: ctype where
  "SmartstrapNotifyHandler_t = FunPtr Void [Ptr SmartstrapAttribute_t]"

definition SmartstrapHandlers_t :: ctype where
  "SmartstrapHandlers_t = CStruct False [Member ''availability_did_change'' SmartstrapServiceAvailabilityHandler_t,
     Member ''did_read'' SmartstrapReadHandler_t, Member ''did_write'' SmartstrapWriteHandler_t,
     Member ''notified'' SmartstrapNotifyHandler_t]"

section \<open>Clicks\<close>

definition ClickRecognizerRef_t :: ctype where
  "ClickRecognizerRef_t = Ptr Void"

definition ClickHandler_t :: ctype where
  "ClickHandler_t = FunPtr Void [ClickRecognizerRef_t, Ptr Void]"

definition ClickConfigProvider_t :: ctype where
  "ClickConfigProvider_t = FunPtr Void [Ptr Void]"

section \<open>Layer\<close>

definition Layer_t :: ctype where
  "Layer_t = Opaque ''Layer''"

definition LayerUpdateProc_t :: ctype where
  "LayerUpdateProc_t = FunPtr Void [Ptr Layer_t, Ptr GContext_t]"

section \<open>Window\<close>

definition Window_t :: ctype where
  "Window_t = Opaque ''Window''"

definition WindowHandler_t :: ctype where
  "WindowHandler_t = FunPtr Void [Ptr Window_t]"

definition WindowHandlers_t :: ctype where
  "WindowHandlers_t = CStruct False [Member ''load'' WindowHandler_t, Member ''appear'' WindowHandler_t,
     Member ''disappear'' WindowHandler_t, Member ''unload'' WindowHandler_t]"

section \<open>Animation\<close>

definition Animation_t :: ctype where
  "Animation_t = Opaque ''Animation''"

definition AnimationProgress_t :: ctype where
  "AnimationProgress_t = SInt 4"

definition AnimationCurve_t :: ctype where
  "AnimationCurve_t = CEnum [(''AnimationCurveLinear'', Some 0), (''AnimationCurveEaseIn'', Some 1),
     (''AnimationCurveEaseOut'', Some 2), (''AnimationCurveEaseInOut'', Some 3), (''AnimationCurveDefault'', Some 3),
     (''AnimationCurveCustomFunction'', Some 4), (''AnimationCurveCustomInterpolationFunction'', Some 5),
     (''AnimationCurve_Reserved1'', Some 6), (''AnimationCurve_Reserved2'', Some 7)]"

definition AnimationCurveFunction_t :: ctype where
  "AnimationCurveFunction_t = FunPtr AnimationProgress_t [AnimationProgress_t]"

definition AnimationStartedHandler_t :: ctype where
  "AnimationStartedHandler_t = FunPtr Void [Ptr Animation_t, Ptr Void]"

definition AnimationStoppedHandler_t :: ctype where
  "AnimationStoppedHandler_t = FunPtr Void [Ptr Animation_t, Bool, Ptr Void]"

definition AnimationHandlers_t :: ctype where
  "AnimationHandlers_t = CStruct False [Member ''started'' AnimationStartedHandler_t, Member ''stopped'' AnimationStoppedHandler_t]"

definition AnimationSetupImplementation_t :: ctype where
  "AnimationSetupImplementation_t = FunPtr Void [Ptr Animation_t]"

definition AnimationUpdateImplementation_t :: ctype where
  "AnimationUpdateImplementation_t = FunPtr Void [Ptr Animation_t, AnimationProgress_t]"

definition AnimationTeardownImplementation_t :: ctype where
  "AnimationTeardownImplementation_t = FunPtr Void [Ptr Animation_t]"

definition AnimationImplementation_t :: ctype where
  "AnimationImplementation_t = CStruct False [Member ''setup'' AnimationSetupImplementation_t,
     Member ''update'' AnimationUpdateImplementation_t, Member ''teardown'' AnimationTeardownImplementation_t]"

section \<open>Property Animation\<close>

definition PropertyAnimation_t :: ctype where
  "PropertyAnimation_t = Opaque ''PropertyAnimation''"

definition GPointReturn_t :: ctype where
  "GPointReturn_t = GPoint_t"

definition GRectReturn_t :: ctype where
  "GRectReturn_t = GRect_t"

definition Int16Setter_t :: ctype where
  "Int16Setter_t = FunPtr Void [Ptr Void, SInt 2]"

definition Int16Getter_t :: ctype where
  "Int16Getter_t = FunPtr (SInt 2) [Ptr Void]"

definition UInt32Setter_t :: ctype where
  "UInt32Setter_t = FunPtr Void [Ptr Void, UInt 4]"

definition UInt32Getter_t :: ctype where
  "UInt32Getter_t = FunPtr (UInt 4) [Ptr Void]"

definition GPointSetter_t :: ctype where
  "GPointSetter_t = FunPtr Void [Ptr Void, GPoint_t]"

definition GPointGetter_t :: ctype where
  "GPointGetter_t = FunPtr GPointReturn_t [Ptr Void]"

definition GRectSetter_t :: ctype where
  "GRectSetter_t = FunPtr Void [Ptr Void, GRect_t]"

definition GRectGetter_t :: ctype where
  "GRectGetter_t = FunPtr GRectReturn_t [Ptr Void]"

definition GColor8Setter_t :: ctype where
  "GColor8Setter_t = FunPtr Void [Ptr Void, GColor8_t]"

definition GColor8Getter_t :: ctype where
  "GColor8Getter_t = FunPtr GColor8_t [Ptr Void]"

definition PropertyAnimationAccessors_t :: ctype where
  "PropertyAnimationAccessors_t = CStruct False [Member ''setter'' (CUnion [Member ''int16'' Int16Setter_t, Member ''gpoint'' GPointSetter_t,
     Member ''grect'' GRectSetter_t, Member ''gcolor8'' GColor8Setter_t, Member ''uint32'' UInt32Setter_t]),
     Member ''getter'' (CUnion [Member ''int16'' Int16Getter_t, Member ''gpoint'' GPointGetter_t,
     Member ''grect'' GRectGetter_t, Member ''gcolor8'' GColor8Getter_t, Member ''uint32'' UInt32Getter_t])]"

definition PropertyAnimationImplementation_t :: ctype where
  "PropertyAnimationImplementation_t = CStruct False [Member ''base'' AnimationImplementation_t,
     Member ''accessors'' PropertyAnimationAccessors_t]"

section \<open>Text Layer\<close>

definition TextLayer_t :: ctype where
  "TextLayer_t = Opaque ''TextLayer''"

section \<open>Scroll Layer\<close>

definition ScrollLayer_t :: ctype where
  "ScrollLayer_t = Opaque ''ScrollLayer''"

definition ScrollLayerCallback_t :: ctype where
  "ScrollLayerCallback_t = FunPtr Void [Ptr ScrollLayer_t, Ptr Void]"

definition ScrollLayerCallbacks_t :: ctype where
  "ScrollLayerCallbacks_t = CStruct False [Member ''click_config_provider'' ClickConfigProvider_t,
     Member ''content_offset_changed_handler'' ScrollLayerCallback_t]"

definition ContentIndicator_t :: ctype where
  "ContentIndicator_t = Opaque ''ContentIndicator''"

definition ContentIndicatorDirection_t :: ctype where
  "ContentIndicatorDirection_t = CEnum [(''ContentIndicatorDirectionUp'', Some 0), (''ContentIndicatorDirectionDown'', None),
     (''NumContentIndicatorDirections'', None)]"

definition ContentIndicatorConfig_t :: ctype where
  "ContentIndicatorConfig_t = CStruct False [Member ''layer'' (Ptr Layer_t), Member ''times_out'' Bool, Member ''alignment'' GAlign_t,
     Member ''colors'' (CStruct False [Member ''foreground'' GColor_t, Member ''background'' GColor_t])]"

section \<open>Menu Layer\<close>

definition MenuIndex_t :: ctype where
  "MenuIndex_t = CStruct False [Member ''section'' (UInt 2), Member ''row'' (UInt 2)]"

definition MenuCellSpan_t :: ctype where
  "MenuCellSpan_t = CStruct False [Member ''y'' (SInt 2), Member ''h'' (SInt 2), Member ''sep'' (SInt 2),
     Member ''index'' MenuIndex_t]"

definition MenuLayer_t :: ctype where
  "MenuLayer_t = Opaque ''MenuLayer''"

definition MenuLayerGetNumberOfSectionsCallback_t :: ctype where
  "MenuLayerGetNumberOfSectionsCallback_t = FunPtr (UInt 2) [Ptr MenuLayer_t, Ptr Void]"

definition MenuLayerGetNumberOfRowsInSectionsCallback_t :: ctype where
  "MenuLayerGetNumberOfRowsInSectionsCallback_t = FunPtr (UInt 2) [Ptr MenuLayer_t, UInt 2, Ptr Void]"

definition MenuLayerGetCellHeightCallback_t :: ctype where
  "MenuLayerGetCellHeightCallback_t = FunPtr (SInt 2) [Ptr MenuLayer_t, Ptr MenuIndex_t, Ptr Void]"

definition MenuLayerGetHeaderHeightCallback_t :: ctype where
  "MenuLayerGetHeaderHeightCallback_t = FunPtr (SInt 2) [Ptr MenuLayer_t, UInt 2, Ptr Void]"

definition MenuLayerGetSeparatorHeightCallback_t :: ctype where
  "MenuLayerGetSeparatorHeightCallback_t = FunPtr (SInt 2) [Ptr MenuLayer_t, Ptr MenuIndex_t, Ptr Void]"

definition MenuLayerDrawRowCallback_t :: ctype where
  "MenuLayerDrawRowCallback_t = FunPtr Void [Ptr GContext_t, Ptr Layer_t, Ptr MenuIndex_t, Ptr Void]"

definition MenuLayerDrawHeaderCallback_t :: ctype where
  "MenuLayerDrawHeaderCallback_t = FunPtr Void [Ptr GContext_t, Ptr Layer_t, UInt 2, Ptr Void]"

definition MenuLayerDrawSeparatorCallback_t :: ctype where
  "MenuLayerDrawSeparatorCallback_t = FunPtr Void [Ptr GContext_t, Ptr Layer_t, Ptr MenuIndex_t, Ptr Void]"

definition MenuLayerSelectCallback_t :: ctype where
  "MenuLayerSelectCallback_t = FunPtr Void [Ptr MenuLayer_t, Ptr MenuIndex_t, Ptr Void]"

definition MenuLayerSelectionChangedCallback_t :: ctype where
  "MenuLayerSelectionChangedCallback_t = FunPtr Void [Ptr MenuLayer_t, MenuIndex_t, MenuIndex_t, Ptr Void]"

definition MenuLayerSelectionWillChangeCallback_t :: ctype where
  "MenuLayerSelectionWillChangeCallback_t = FunPtr Void [Ptr MenuLayer_t, Ptr MenuIndex_t, MenuIndex_t, Ptr Void]"

definition MenuLayerDrawBackgroundCallback_t :: ctype where
  "MenuLayerDrawBackgroundCallback_t = FunPtr Void [Ptr GContext_t, Ptr Layer_t, Bool, Ptr Void]"

definition MenuLayerCallbacks_t :: ctype where
  "MenuLayerCallbacks_t = CStruct False [Member ''get_num_sections'' MenuLayerGetNumberOfSectionsCallback_t,
     Member ''get_num_rows'' MenuLayerGetNumberOfRowsInSectionsCallback_t,
     Member ''get_cell_height'' MenuLayerGetCellHeightCallback_t,
     Member ''get_header_height'' MenuLayerGetHeaderHeightCallback_t,
     Member ''draw_row'' MenuLayerDrawRowCallback_t, Member ''draw_header'' MenuLayerDrawHeaderCallback_t,
     Member ''select_click'' MenuLayerSelectCallback_t, Member ''select_long_click'' MenuLayerSelectCallback_t,
     Member ''selection_changed'' MenuLayerSelectionChangedCallback_t,
     Member ''get_separator_height'' MenuLayerGetSeparatorHeightCallback_t,
     Member ''draw_separator'' MenuLayerDrawSeparatorCallback_t,
     Member ''selection_will_change'' MenuLayerSelectionWillChangeCallback_t,
     Member ''draw_background'' MenuLayerDrawBackgroundCallback_t]"

definition MenuRowAlign_t :: ctype where
  "MenuRowAlign_t = CEnum [(''MenuRowAlignNone'', None), (''MenuRowAlignCenter'', None), (''MenuRowAlignTop'', None),
     (''MenuRowAlignBottom'', None)]"

section \<open>Simple Menu Layer\<close>

definition SimpleMenuLayer_t :: ctype where
  "SimpleMenuLayer_t = Opaque ''SimpleMenuLayer''"

definition SimpleMenuLayerSelectCallback_t :: ctype where
  "SimpleMenuLayerSelectCallback_t = FunPtr Void [SInt 4, Ptr Void]"

definition SimpleMenuItem_t :: ctype where
  "SimpleMenuItem_t = CStruct False [Member ''title'' (Ptr (UInt 1)), Member ''subtitle'' (Ptr (UInt 1)),
     Member ''icon'' (Ptr GBitmap_t), Member ''callback'' SimpleMenuLayerSelectCallback_t]"

definition SimpleMenuSection_t :: ctype where
  "SimpleMenuSection_t = CStruct False [Member ''title'' (Ptr (UInt 1)), Member ''items'' (Ptr SimpleMenuItem_t),
     Member ''num_items'' (UInt 4)]"

section \<open>Action Bar Layer\<close>

definition ActionBarLayerIconPressAnimation_t :: ctype where
  "ActionBarLayerIconPressAnimation_t = CEnum [(''ActionBarLayerIconPressAnimationNone'', Some 0),
     (''ActionBarLayerIconPressAnimationMoveLeft'', None), (''ActionBarLayerIconPressAnimationMoveUp'', None),
     (''ActionBarLayerIconPressAnimationMoveRight'', None), (''ActionBarLayerIconPressAnimationMoveDown'', None)]"

definition ActionBarLayer_t :: ctype where
  "ActionBarLayer_t = Opaque ''ActionBarLayer''"

section \<open>Status Bar Layer\<close>

definition StatusBarLayer_t :: ctype where
  "StatusBarLayer_t = Opaque ''StatusBarLayer''"

definition StatusBarLayerSeparatorMode_t :: ctype where
  "StatusBarLayerSeparatorMode_t = CEnum [(''StatusBarLayerSeparatorModeNone'', Some 0), (''StatusBarLayerSeparatorModeDotted'', Some 1)]"

section \<open>Bitmap Layer\<close>

definition BitmapLayer_t :: ctype where
  "BitmapLayer_t = Opaque ''BitmapLayer''"

section \<open>Rot Bitmap Layer\<close>

definition RotBitmapLayer_t :: ctype where
  "RotBitmapLayer_t = Opaque ''RotBitmapLayer''"

section \<open>Number Window\<close>

definition NumberWindow_t :: ctype where
  "NumberWindow_t = Opaque ''NumberWindow''"

definition NumberWindowCallback_t :: ctype where
  "NumberWindowCallback_t = FunPtr Void [Ptr NumberWindow_t, Ptr Void]"

definition NumberWindowCallbacks_t :: ctype where
  "NumberWindowCallbacks_t = CStruct False [Member ''incremented'' NumberWindowCallback_t,
     Member ''decremented'' NumberWindowCallback_t, Member ''selected'' NumberWindowCallback_t]"

section \<open>Action Menu\<close>

definition ActionMenuItem_t :: ctype where
  "ActionMenuItem_t = Opaque ''ActionMenuItem''"

definition ActionMenuLevel_t :: ctype where
  "ActionMenuLevel_t = Opaque ''ActionMenuLevel''"

definition ActionMenuAlign_t :: ctype where
  "ActionMenuAlign_t = CEnum [(''ActionMenuAlignTop'', Some 0), (''ActionMenuAlignCenter'', None)]"

definition ActionMenu_t :: ctype where
  "ActionMenu_t = Opaque ''ActionMenu''"

definition ActionMenuDidCloseCb_t :: ctype where
  "ActionMenuDidCloseCb_t = FunPtr Void [Ptr ActionMenu_t, Ptr ActionMenuItem_t, Ptr Void]"

definition ActionMenuLevelDisplayMode_t :: ctype where
  "ActionMenuLevelDisplayMode_t = CEnum [(''ActionMenuLevelDisplayModeWide'', None), (''ActionMenuLevelDisplayModeThin'', None)]"

definition ActionMenuPerformActionCb_t :: ctype where
  "ActionMenuPerformActionCb_t = FunPtr Void [Ptr ActionMenu_t, Ptr ActionMenuItem_t, Ptr Void]"

definition ActionMenuEachItemCb_t :: ctype where
  "ActionMenuEachItemCb_t = FunPtr Void [Ptr ActionMenuItem_t, Ptr Void]"

definition ActionMenuConfig_t :: ctype where
  "ActionMenuConfig_t = CStruct False [Member ''root_level'' (Ptr ActionMenuLevel_t), Member ''context'' (Ptr Void),
     Member ''colors'' (CStruct False [Member ''background'' GColor_t, Member ''foreground'' GColor_t]),
     Member ''will_close'' ActionMenuDidCloseCb_t, Member ''did_close'' ActionMenuDidCloseCb_t,
     Member ''align'' ActionMenuAlign_t]"

section \<open>Vibes\<close>

definition VibePattern_t :: ctype where
  "VibePattern_t = CStruct False [Member ''durations'' (Ptr (UInt 4)), Member ''num_segments'' (UInt 4)]"

section \<open>Standard Time\<close>

definition tm_t :: ctype where
  "tm_t = CStruct False [Member ''tm_sec'' (SInt 4), Member ''tm_min'' (SInt 4), Member ''tm_hour'' (SInt 4),
     Member ''tm_mday'' (SInt 4), Member ''tm_mon'' (SInt 4), Member ''tm_year'' (SInt 4),
     Member ''tm_wday'' (SInt 4), Member ''tm_yday'' (SInt 4), Member ''tm_isdst'' (SInt 4),
     Member ''tm_gmtoff'' (SInt 4), Member ''tm_zone'' (Arr 6 (UInt 1))]"

section \<open>All of them\<close>

definition pebble_enums :: "ctype list" where
  "pebble_enums =
    [ButtonId_t, WatchInfoModel_t, WatchInfoColor_t, WeekDay_t, AccelAxisType_t, AccelSamplingRate_t,
     CompassStatus_t, TimeUnits_t, HealthMetric_t, HealthServiceTimeScope_t, HealthActivity_t,
     HealthIterationDirection_t, HealthServiceAccessibilityMask_t, HealthEventType_t, AmbientLightLevel_t,
     MeasurementSystem_t, DataLoggingItemType_t, DataLoggingResult_t, AppLogLevel_t, DictionaryResult_t,
     TupleType_t, DictationSessionStatus_t, AppMessageResult_t, AppWorkerResult_t, SniffInterval_t,
     StatusCode_t, AppLaunchReason_t, GBitmapFormat_t, GAlign_t, GCompOp_t, GCornerMask_t, GOvalScaleMode_t,
     GDrawCommandType_t, GTextOverflowMode_t, GTextAlignment_t, SmartstrapResult_t, AnimationCurve_t,
     ContentIndicatorDirection_t, MenuRowAlign_t, ActionBarLayerIconPressAnimation_t,
     StatusBarLayerSeparatorMode_t, ActionMenuAlign_t, ActionMenuLevelDisplayMode_t]"

definition pebble_structs :: "ctype list" where
  "pebble_structs =
    [WatchInfoVersion_t, ConnectionHandlers_t, AppFocusHandlers_t, BatteryChargeState_t, AccelData_t,
     AccelRawData_t, CompassHeadingData_t, HealthMinuteData_t, Uuid_t, Tuple_t, DictionaryIterator_t, Tuplet_t,
     AppSync_t, AppWorkerMessage_t, GColor8_t, GPoint_t, GSize_t, GRect_t, GBitmapDataRowInfo_t, GEdgeInsets_t,
     GPathInfo_t, GPath_t, SmartstrapHandlers_t, WindowHandlers_t, AnimationHandlers_t,
     AnimationImplementation_t, PropertyAnimationAccessors_t, PropertyAnimationImplementation_t,
     ScrollLayerCallbacks_t, ContentIndicatorConfig_t, MenuIndex_t, MenuCellSpan_t, MenuLayerCallbacks_t,
     SimpleMenuItem_t, SimpleMenuSection_t, NumberWindowCallbacks_t, ActionMenuConfig_t, VibePattern_t, tm_t]"

end
