(* ===== verification/Pebble_Api.thy ===== *)
theory Pebble_Api
  imports Pebble_Types
begin

text \<open>
  The functions \<^verbatim>\<open>runtime/pebble.h\<close> declares, as their signatures, one list per group of the header.
  The firmware implements them and the repository has no code for them, so a signature is all there
  is to translate: it decides where a call passes its arguments, which is what the patches rely on.
\<close>

definition api_Internationalization :: "proto list" where
  "api_Internationalization =
    [ Proto ''i18n_get_system_locale'' (Ptr (UInt 1)) [] ]"

definition api_WatchInfo :: "proto list" where
  "api_WatchInfo =
    [ Proto ''watch_info_get_model'' WatchInfoModel_t [],
      Proto ''watch_info_get_firmware_version'' WatchInfoVersion_t [],
      Proto ''watch_info_get_color'' WatchInfoColor_t [] ]"

definition api_Math :: "proto list" where
  "api_Math =
    [ Proto ''sin_lookup'' (SInt 4) [SInt 4],
      Proto ''cos_lookup'' (SInt 4) [SInt 4],
      Proto ''atan2_lookup'' (SInt 4) [SInt 2, SInt 2] ]"

definition api_WallTime :: "proto list" where
  "api_WallTime =
    [ Proto ''clock_copy_time_string'' Void [Ptr (UInt 1), UInt 1],
      Proto ''clock_is_24h_style'' Bool [],
      Proto ''clock_to_timestamp'' (SInt 4) [WeekDay_t, SInt 4, SInt 4],
      Proto ''clock_is_timezone_set'' Bool [],
      Proto ''clock_get_timezone'' Void [Ptr (UInt 1), UInt 4] ]"

definition api_ConnectionService :: "proto list" where
  "api_ConnectionService =
    [ Proto ''connection_service_peek_pebble_app_connection'' Bool [],
      Proto ''connection_service_peek_pebblekit_connection'' Bool [],
      Proto ''connection_service_subscribe'' Void [ConnectionHandlers_t],
      Proto ''connection_service_unsubscribe'' Void [],
      Proto ''bluetooth_connection_service_peek'' Bool [],
      Proto ''bluetooth_connection_service_subscribe'' Void [ConnectionHandler_t],
      Proto ''bluetooth_connection_service_unsubscribe'' Void [] ]"

definition api_AppFocusService :: "proto list" where
  "api_AppFocusService =
    [ Proto ''app_focus_service_subscribe_handlers'' Void [AppFocusHandlers_t],
      Proto ''app_focus_service_subscribe'' Void [AppFocusHandler_t],
      Proto ''app_focus_service_unsubscribe'' Void [] ]"

definition api_BatteryStateService :: "proto list" where
  "api_BatteryStateService =
    [ Proto ''battery_state_service_subscribe'' Void [BatteryStateHandler_t],
      Proto ''battery_state_service_unsubscribe'' Void [],
      Proto ''battery_state_service_peek'' BatteryChargeState_t [] ]"

definition api_AccelerometerService :: "proto list" where
  "api_AccelerometerService =
    [ Proto ''accel_service_peek'' (SInt 4) [Ptr AccelData_t],
      Proto ''accel_service_set_sampling_rate'' (SInt 4) [AccelSamplingRate_t],
      Proto ''accel_service_set_samples_per_update'' (SInt 4) [UInt 4],
      Proto ''accel_data_service_subscribe'' Void [UInt 4, AccelDataHandler_t],
      Proto ''accel_data_service_unsubscribe'' Void [],
      Proto ''accel_tap_service_subscribe'' Void [AccelTapHandler_t],
      Proto ''accel_tap_service_unsubscribe'' Void [],
      Proto ''accel_raw_data_service_subscribe'' Void [UInt 4, AccelRawDataHandler_t] ]"

definition api_CompassService :: "proto list" where
  "api_CompassService =
    [ Proto ''compass_service_set_heading_filter'' (SInt 4) [CompassHeading_t],
      Proto ''compass_service_subscribe'' Void [CompassHeadingHandler_t],
      Proto ''compass_service_unsubscribe'' Void [],
      Proto ''compass_service_peek'' (SInt 4) [Ptr CompassHeadingData_t] ]"

definition api_TickTimerService :: "proto list" where
  "api_TickTimerService =
    [ Proto ''tick_timer_service_subscribe'' Void [TimeUnits_t, TickHandler_t],
      Proto ''tick_timer_service_unsubscribe'' Void [] ]"

definition api_HealthService :: "proto list" where
  "api_HealthService =
    [ Proto ''health_service_sum'' HealthValue_t [HealthMetric_t, SInt 4, SInt 4],
      Proto ''health_service_sum_today'' HealthValue_t [HealthMetric_t],
      Proto ''health_service_sum_averaged'' HealthValue_t [HealthMetric_t, SInt 4, SInt 4,
        HealthServiceTimeScope_t],
      Proto ''health_service_peek_current_activities'' HealthActivityMask_t [],
      Proto ''health_service_activities_iterate'' Void [HealthActivityMask_t, SInt 4, SInt 4,
        HealthIterationDirection_t, HealthActivityIteratorCB_t, Ptr Void],
      Proto ''health_service_metric_accessible'' HealthServiceAccessibilityMask_t [HealthMetric_t, SInt 4,
        SInt 4],
      Proto ''health_service_metric_averaged_accessible'' HealthServiceAccessibilityMask_t [HealthMetric_t,
        SInt 4, SInt 4, HealthServiceTimeScope_t] ]"

definition api_HealthService2 :: "proto list" where
  "api_HealthService2 =
    [ Proto ''health_service_any_activity_accessible'' HealthServiceAccessibilityMask_t [HealthActivityMask_t,
        SInt 4, SInt 4],
      Proto ''health_service_events_subscribe'' Bool [HealthEventHandler_t, Ptr Void],
      Proto ''health_service_events_unsubscribe'' Bool [],
      Proto ''health_service_get_minute_history'' (UInt 4) [Ptr HealthMinuteData_t, UInt 4, Ptr (SInt 4),
        Ptr (SInt 4)],
      Proto ''health_service_get_measurement_system_for_display'' MeasurementSystem_t [HealthMetric_t] ]"

definition api_DataLogging :: "proto list" where
  "api_DataLogging =
    [ Proto ''data_logging_create'' DataLoggingSessionRef_t [UInt 4, DataLoggingItemType_t, UInt 2, Bool],
      Proto ''data_logging_finish'' Void [DataLoggingSessionRef_t],
      Proto ''data_logging_log'' DataLoggingResult_t [DataLoggingSessionRef_t, Ptr Void, UInt 4] ]"

definition api_UUID :: "proto list" where
  "api_UUID =
    [ Proto ''uuid_equal'' Bool [Ptr Uuid_t, Ptr Uuid_t],
      Proto ''uuid_to_string'' Void [Ptr Uuid_t, Ptr (UInt 1)] ]"

definition api_Logging :: "proto list" where
  "api_Logging =
    [ Variadic ''app_log'' Void [UInt 1, Ptr (UInt 1), SInt 4, Ptr (UInt 1)] ]"

definition api_Dictionary :: "proto list" where
  "api_Dictionary =
    [ Variadic ''dict_calc_buffer_size'' (UInt 4) [UInt 1],
      Proto ''dict_size'' (UInt 4) [Ptr DictionaryIterator_t],
      Proto ''dict_write_begin'' DictionaryResult_t [Ptr DictionaryIterator_t, Ptr (UInt 1), UInt 2],
      Proto ''dict_write_data'' DictionaryResult_t [Ptr DictionaryIterator_t, UInt 4, Ptr (UInt 1), UInt 2],
      Proto ''dict_write_cstring'' DictionaryResult_t [Ptr DictionaryIterator_t, UInt 4, Ptr (UInt 1)],
      Proto ''dict_write_int'' DictionaryResult_t [Ptr DictionaryIterator_t, UInt 4, Ptr Void, UInt 1, Bool],
      Proto ''dict_write_uint8'' DictionaryResult_t [Ptr DictionaryIterator_t, UInt 4, UInt 1],
      Proto ''dict_write_uint16'' DictionaryResult_t [Ptr DictionaryIterator_t, UInt 4, UInt 2],
      Proto ''dict_write_uint32'' DictionaryResult_t [Ptr DictionaryIterator_t, UInt 4, UInt 4],
      Proto ''dict_write_int8'' DictionaryResult_t [Ptr DictionaryIterator_t, UInt 4, SInt 1],
      Proto ''dict_write_int16'' DictionaryResult_t [Ptr DictionaryIterator_t, UInt 4, SInt 2],
      Proto ''dict_write_int32'' DictionaryResult_t [Ptr DictionaryIterator_t, UInt 4, SInt 4],
      Proto ''dict_write_end'' (UInt 4) [Ptr DictionaryIterator_t],
      Proto ''dict_read_begin_from_buffer'' (Ptr Tuple_t) [Ptr DictionaryIterator_t, Ptr (UInt 1), UInt 2],
      Proto ''dict_read_next'' (Ptr Tuple_t) [Ptr DictionaryIterator_t],
      Proto ''dict_read_first'' (Ptr Tuple_t) [Ptr DictionaryIterator_t] ]"

definition api_Dictionary2 :: "proto list" where
  "api_Dictionary2 =
    [ Proto ''dict_serialize_tuplets'' DictionaryResult_t [DictionarySerializeCallback_t, Ptr Void,
        Ptr Tuplet_t, UInt 1],
      Proto ''dict_serialize_tuplets_to_buffer'' DictionaryResult_t [Ptr Tuplet_t, UInt 1, Ptr (UInt 1),
        Ptr (UInt 4)],
      Proto ''dict_serialize_tuplets_to_buffer_with_iter'' DictionaryResult_t [Ptr DictionaryIterator_t,
        Ptr Tuplet_t, UInt 1, Ptr (UInt 1), Ptr (UInt 4)],
      Proto ''dict_write_tuplet'' DictionaryResult_t [Ptr DictionaryIterator_t, Ptr Tuplet_t],
      Proto ''dict_calc_buffer_size_from_tuplets'' (UInt 4) [Ptr Tuplet_t, UInt 1],
      Proto ''dict_merge'' DictionaryResult_t [Ptr DictionaryIterator_t, Ptr (UInt 4),
        Ptr DictionaryIterator_t, Bool, DictionaryKeyUpdatedCallback_t, Ptr Void],
      Proto ''dict_find'' (Ptr Tuple_t) [Ptr DictionaryIterator_t, UInt 4] ]"

definition api_Dictation :: "proto list" where
  "api_Dictation =
    [ Proto ''dictation_session_create'' (Ptr DictationSession_t) [UInt 4, DictationSessionStatusCallback_t,
        Ptr Void],
      Proto ''dictation_session_destroy'' Void [Ptr DictationSession_t],
      Proto ''dictation_session_start'' DictationSessionStatus_t [Ptr DictationSession_t],
      Proto ''dictation_session_stop'' DictationSessionStatus_t [Ptr DictationSession_t],
      Proto ''dictation_session_enable_confirmation'' Void [Ptr DictationSession_t, Bool],
      Proto ''dictation_session_enable_error_dialogs'' Void [Ptr DictationSession_t, Bool] ]"

definition api_AppMessage :: "proto list" where
  "api_AppMessage =
    [ Proto ''app_message_open'' AppMessageResult_t [UInt 4, UInt 4],
      Proto ''app_message_deregister_callbacks'' Void [],
      Proto ''app_message_get_context'' (Ptr Void) [],
      Proto ''app_message_set_context'' (Ptr Void) [Ptr Void],
      Proto ''app_message_register_inbox_received'' AppMessageInboxReceived_t [AppMessageInboxReceived_t],
      Proto ''app_message_register_inbox_dropped'' AppMessageInboxDropped_t [AppMessageInboxDropped_t],
      Proto ''app_message_register_outbox_sent'' AppMessageOutboxSent_t [AppMessageOutboxSent_t],
      Proto ''app_message_register_outbox_failed'' AppMessageOutboxFailed_t [AppMessageOutboxFailed_t],
      Proto ''app_message_inbox_size_maximum'' (UInt 4) [],
      Proto ''app_message_outbox_size_maximum'' (UInt 4) [] ]"

definition api_AppMessage2 :: "proto list" where
  "api_AppMessage2 =
    [ Proto ''app_message_outbox_begin'' AppMessageResult_t [Ptr (Ptr DictionaryIterator_t)],
      Proto ''app_message_outbox_send'' AppMessageResult_t [] ]"

definition api_AppSync :: "proto list" where
  "api_AppSync =
    [ Proto ''app_sync_init'' Void [Ptr AppSync_t, Ptr (UInt 1), UInt 2, Ptr Tuplet_t, UInt 1,
        AppSyncTupleChangedCallback_t, AppSyncErrorCallback_t, Ptr Void],
      Proto ''app_sync_deinit'' Void [Ptr AppSync_t],
      Proto ''app_sync_set'' AppMessageResult_t [Ptr AppSync_t, Ptr Tuplet_t, UInt 1],
      Proto ''app_sync_get'' (Ptr Tuple_t) [Ptr AppSync_t, UInt 4] ]"

definition api_Resources :: "proto list" where
  "api_Resources =
    [ Proto ''resource_get_handle'' ResHandle_t [UInt 4],
      Proto ''resource_size'' (UInt 4) [ResHandle_t],
      Proto ''resource_load'' (UInt 4) [ResHandle_t, Ptr (UInt 1), UInt 4],
      Proto ''resource_load_byte_range'' (UInt 4) [ResHandle_t, UInt 4, Ptr (UInt 1), UInt 4] ]"

definition api_App :: "proto list" where
  "api_App =
    [ Proto ''app_event_loop'' Void [] ]"

definition api_AppWorker :: "proto list" where
  "api_AppWorker =
    [ Proto ''app_worker_is_running'' Bool [],
      Proto ''app_worker_launch'' AppWorkerResult_t [],
      Proto ''app_worker_kill'' AppWorkerResult_t [],
      Proto ''app_worker_message_subscribe'' Bool [AppWorkerMessageHandler_t],
      Proto ''app_worker_message_unsubscribe'' Bool [],
      Proto ''app_worker_send_message'' Void [UInt 1, Ptr AppWorkerMessage_t] ]"

definition api_AppComm :: "proto list" where
  "api_AppComm =
    [ Proto ''app_comm_set_sniff_interval'' Void [SniffInterval_t],
      Proto ''app_comm_get_sniff_interval'' SniffInterval_t [] ]"

definition api_Timer :: "proto list" where
  "api_Timer =
    [ Proto ''psleep'' Void [SInt 4],
      Proto ''app_timer_register'' (Ptr AppTimer_t) [UInt 4, AppTimerCallback_t, Ptr Void],
      Proto ''app_timer_reschedule'' Bool [Ptr AppTimer_t, UInt 4],
      Proto ''app_timer_cancel'' Void [Ptr AppTimer_t] ]"

definition api_MemoryManagement :: "proto list" where
  "api_MemoryManagement =
    [ Proto ''heap_bytes_free'' (UInt 4) [],
      Proto ''heap_bytes_used'' (UInt 4) [] ]"

definition api_Storage :: "proto list" where
  "api_Storage =
    [ Proto ''persist_exists'' Bool [UInt 4],
      Proto ''persist_get_size'' (SInt 4) [UInt 4],
      Proto ''persist_read_bool'' Bool [UInt 4],
      Proto ''persist_read_int'' (SInt 4) [UInt 4],
      Proto ''persist_read_data'' (SInt 4) [UInt 4, Ptr Void, UInt 4],
      Proto ''persist_read_string'' (SInt 4) [UInt 4, Ptr (UInt 1), UInt 4],
      Proto ''persist_write_bool'' status_t_t [UInt 4, Bool],
      Proto ''persist_write_int'' status_t_t [UInt 4, SInt 4],
      Proto ''persist_write_data'' (SInt 4) [UInt 4, Ptr Void, UInt 4],
      Proto ''persist_write_string'' (SInt 4) [UInt 4, Ptr (UInt 1)],
      Proto ''persist_delete'' status_t_t [UInt 4] ]"

definition api_Wakeup :: "proto list" where
  "api_Wakeup =
    [ Proto ''wakeup_service_subscribe'' Void [WakeupHandler_t],
      Proto ''wakeup_schedule'' WakeupId_t [SInt 4, SInt 4, Bool],
      Proto ''wakeup_cancel'' Void [WakeupId_t],
      Proto ''wakeup_cancel_all'' Void [],
      Proto ''wakeup_get_launch_event'' Bool [Ptr WakeupId_t, Ptr (SInt 4)],
      Proto ''wakeup_query'' Bool [WakeupId_t, Ptr (SInt 4)] ]"

definition api_LaunchReason :: "proto list" where
  "api_LaunchReason =
    [ Proto ''launch_reason'' AppLaunchReason_t [],
      Proto ''launch_get_args'' (UInt 4) [] ]"

definition api_GraphicsTypes :: "proto list" where
  "api_GraphicsTypes =
    [ Proto ''gcolor_equal'' Bool [GColor8_t, GColor8_t],
      Proto ''gcolor_legible_over'' GColor8_t [GColor8_t],
      Proto ''gpoint_equal'' Bool [Ptr GPoint_t, Ptr GPoint_t],
      Proto ''gsize_equal'' Bool [Ptr GSize_t, Ptr GSize_t],
      Proto ''grect_equal'' Bool [Ptr GRect_t, Ptr GRect_t],
      Proto ''grect_is_empty'' Bool [Ptr GRect_t],
      Proto ''grect_standardize'' Void [Ptr GRect_t],
      Proto ''grect_clip'' Void [Ptr GRect_t, Ptr GRect_t],
      Proto ''grect_contains_point'' Bool [Ptr GRect_t, Ptr GPoint_t],
      Proto ''grect_center_point'' GPoint_t [Ptr GRect_t],
      Proto ''grect_crop'' GRect_t [GRect_t, SInt 4] ]"

definition api_GraphicsTypes2 :: "proto list" where
  "api_GraphicsTypes2 =
    [ Proto ''gbitmap_get_bytes_per_row'' (UInt 2) [Ptr GBitmap_t],
      Proto ''gbitmap_get_format'' GBitmapFormat_t [Ptr GBitmap_t],
      Proto ''gbitmap_get_data'' (Ptr (UInt 1)) [Ptr GBitmap_t],
      Proto ''gbitmap_set_data'' Void [Ptr GBitmap_t, Ptr (UInt 1), GBitmapFormat_t, UInt 2, Bool],
      Proto ''gbitmap_get_bounds'' GRect_t [Ptr GBitmap_t],
      Proto ''gbitmap_set_bounds'' Void [Ptr GBitmap_t, GRect_t],
      Proto ''gbitmap_get_palette'' (Ptr GColor_t) [Ptr GBitmap_t],
      Proto ''gbitmap_set_palette'' Void [Ptr GBitmap_t, Ptr GColor_t, Bool],
      Proto ''gbitmap_create_with_resource'' (Ptr GBitmap_t) [UInt 4],
      Proto ''gbitmap_create_with_data'' (Ptr GBitmap_t) [Ptr (UInt 1)],
      Proto ''gbitmap_create_as_sub_bitmap'' (Ptr GBitmap_t) [Ptr GBitmap_t, GRect_t],
      Proto ''gbitmap_create_from_png_data'' (Ptr GBitmap_t) [Ptr (UInt 1), UInt 4],
      Proto ''gbitmap_create_blank'' (Ptr GBitmap_t) [GSize_t, GBitmapFormat_t],
      Proto ''gbitmap_create_blank_with_palette'' (Ptr GBitmap_t) [GSize_t, GBitmapFormat_t, Ptr GColor_t,
        Bool],
      Proto ''gbitmap_create_palettized_from_1bit'' (Ptr GBitmap_t) [Ptr GBitmap_t],
      Proto ''gbitmap_destroy'' Void [Ptr GBitmap_t] ]"

definition api_GraphicsTypes3 :: "proto list" where
  "api_GraphicsTypes3 =
    [ Proto ''gbitmap_sequence_create_with_resource'' (Ptr GBitmapSequence_t) [UInt 4],
      Proto ''gbitmap_sequence_update_bitmap_next_frame'' Bool [Ptr GBitmapSequence_t, Ptr GBitmap_t,
        Ptr (UInt 4)],
      Proto ''gbitmap_sequence_update_bitmap_by_elapsed'' Bool [Ptr GBitmapSequence_t, Ptr GBitmap_t, UInt 4],
      Proto ''gbitmap_sequence_destroy'' Void [Ptr GBitmapSequence_t],
      Proto ''gbitmap_sequence_restart'' Bool [Ptr GBitmapSequence_t],
      Proto ''gbitmap_sequence_get_current_frame_idx'' (SInt 4) [Ptr GBitmapSequence_t],
      Proto ''gbitmap_sequence_get_total_num_frames'' (UInt 4) [Ptr GBitmapSequence_t],
      Proto ''gbitmap_sequence_get_play_count'' (UInt 4) [Ptr GBitmapSequence_t],
      Proto ''gbitmap_sequence_set_play_count'' Void [Ptr GBitmapSequence_t, UInt 4],
      Proto ''gbitmap_sequence_get_bitmap_size'' GSize_t [Ptr GBitmapSequence_t],
      Proto ''gbitmap_get_data_row_info'' GBitmapDataRowInfo_t [Ptr GBitmap_t, UInt 2],
      Proto ''grect_align'' Void [Ptr GRect_t, Ptr GRect_t, GAlign_t, Bool] ]"

definition api_GraphicsTypes4 :: "proto list" where
  "api_GraphicsTypes4 =
    [ Proto ''grect_inset'' GRect_t [GRect_t, GEdgeInsets_t] ]"

definition api_GraphicsContext :: "proto list" where
  "api_GraphicsContext =
    [ Proto ''graphics_context_set_stroke_color'' Void [Ptr GContext_t, GColor_t],
      Proto ''graphics_context_set_fill_color'' Void [Ptr GContext_t, GColor_t],
      Proto ''graphics_context_set_text_color'' Void [Ptr GContext_t, GColor_t],
      Proto ''graphics_context_set_compositing_mode'' Void [Ptr GContext_t, GCompOp_t],
      Proto ''graphics_context_set_antialiased'' Void [Ptr GContext_t, Bool],
      Proto ''graphics_context_set_stroke_width'' Void [Ptr GContext_t, UInt 1] ]"

definition api_Drawing :: "proto list" where
  "api_Drawing =
    [ Proto ''graphics_draw_pixel'' Void [Ptr GContext_t, GPoint_t],
      Proto ''graphics_draw_line'' Void [Ptr GContext_t, GPoint_t, GPoint_t],
      Proto ''graphics_draw_rect'' Void [Ptr GContext_t, GRect_t],
      Proto ''graphics_fill_rect'' Void [Ptr GContext_t, GRect_t, UInt 2, GCornerMask_t],
      Proto ''graphics_draw_circle'' Void [Ptr GContext_t, GPoint_t, UInt 2],
      Proto ''graphics_fill_circle'' Void [Ptr GContext_t, GPoint_t, UInt 2],
      Proto ''graphics_draw_round_rect'' Void [Ptr GContext_t, GRect_t, UInt 2],
      Proto ''graphics_draw_bitmap_in_rect'' Void [Ptr GContext_t, Ptr GBitmap_t, GRect_t],
      Proto ''graphics_capture_frame_buffer'' (Ptr GBitmap_t) [Ptr GContext_t],
      Proto ''graphics_capture_frame_buffer_format'' (Ptr GBitmap_t) [Ptr GContext_t, GBitmapFormat_t],
      Proto ''graphics_release_frame_buffer'' Bool [Ptr GContext_t, Ptr GBitmap_t],
      Proto ''graphics_frame_buffer_is_captured'' Bool [Ptr GContext_t],
      Proto ''graphics_draw_rotated_bitmap'' Void [Ptr GContext_t, Ptr GBitmap_t, GPoint_t, SInt 4, GPoint_t],
      Proto ''graphics_draw_arc'' Void [Ptr GContext_t, GRect_t, GOvalScaleMode_t, SInt 4, SInt 4] ]"

definition api_Drawing2 :: "proto list" where
  "api_Drawing2 =
    [ Proto ''graphics_fill_radial'' Void [Ptr GContext_t, GRect_t, GOvalScaleMode_t, UInt 2, SInt 4, SInt 4],
      Proto ''gpoint_from_polar'' GPoint_t [GRect_t, GOvalScaleMode_t, SInt 4],
      Proto ''grect_centered_from_polar'' GRect_t [GRect_t, GOvalScaleMode_t, SInt 4, GSize_t] ]"

definition api_DrawCommand :: "proto list" where
  "api_DrawCommand =
    [ Proto ''gdraw_command_draw'' Void [Ptr GContext_t, Ptr GDrawCommand_t],
      Proto ''gdraw_command_get_type'' GDrawCommandType_t [Ptr GDrawCommand_t],
      Proto ''gdraw_command_set_fill_color'' Void [Ptr GDrawCommand_t, GColor_t],
      Proto ''gdraw_command_get_fill_color'' GColor_t [Ptr GDrawCommand_t],
      Proto ''gdraw_command_set_stroke_color'' Void [Ptr GDrawCommand_t, GColor_t],
      Proto ''gdraw_command_get_stroke_color'' GColor_t [Ptr GDrawCommand_t],
      Proto ''gdraw_command_set_stroke_width'' Void [Ptr GDrawCommand_t, UInt 1],
      Proto ''gdraw_command_get_stroke_width'' (UInt 1) [Ptr GDrawCommand_t],
      Proto ''gdraw_command_get_num_points'' (UInt 2) [Ptr GDrawCommand_t],
      Proto ''gdraw_command_set_point'' Void [Ptr GDrawCommand_t, UInt 2, GPoint_t],
      Proto ''gdraw_command_get_point'' GPoint_t [Ptr GDrawCommand_t, UInt 2],
      Proto ''gdraw_command_set_radius'' Void [Ptr GDrawCommand_t, UInt 2],
      Proto ''gdraw_command_get_radius'' (UInt 2) [Ptr GDrawCommand_t],
      Proto ''gdraw_command_set_path_open'' Void [Ptr GDrawCommand_t, Bool],
      Proto ''gdraw_command_get_path_open'' Bool [Ptr GDrawCommand_t],
      Proto ''gdraw_command_set_hidden'' Void [Ptr GDrawCommand_t, Bool],
      Proto ''gdraw_command_get_hidden'' Bool [Ptr GDrawCommand_t],
      Proto ''gdraw_command_frame_draw'' Void [Ptr GContext_t, Ptr GDrawCommandSequence_t,
        Ptr GDrawCommandFrame_t, GPoint_t],
      Proto ''gdraw_command_frame_set_duration'' Void [Ptr GDrawCommandFrame_t, UInt 4],
      Proto ''gdraw_command_frame_get_duration'' (UInt 4) [Ptr GDrawCommandFrame_t],
      Proto ''gdraw_command_image_create_with_resource'' (Ptr GDrawCommandImage_t) [UInt 4],
      Proto ''gdraw_command_image_clone'' (Ptr GDrawCommandImage_t) [Ptr GDrawCommandImage_t],
      Proto ''gdraw_command_image_destroy'' Void [Ptr GDrawCommandImage_t],
      Proto ''gdraw_command_image_draw'' Void [Ptr GContext_t, Ptr GDrawCommandImage_t, GPoint_t],
      Proto ''gdraw_command_image_get_bounds_size'' GSize_t [Ptr GDrawCommandImage_t],
      Proto ''gdraw_command_image_set_bounds_size'' Void [Ptr GDrawCommandImage_t, GSize_t],
      Proto ''gdraw_command_image_get_command_list'' (Ptr GDrawCommandList_t) [Ptr GDrawCommandImage_t] ]"

definition api_DrawCommand2 :: "proto list" where
  "api_DrawCommand2 =
    [ Proto ''gdraw_command_list_iterate'' Void [Ptr GDrawCommandList_t, GDrawCommandListIteratorCb_t,
        Ptr Void],
      Proto ''gdraw_command_list_draw'' Void [Ptr GContext_t, Ptr GDrawCommandList_t],
      Proto ''gdraw_command_list_get_command'' (Ptr GDrawCommand_t) [Ptr GDrawCommandList_t, UInt 2],
      Proto ''gdraw_command_list_get_num_commands'' (UInt 4) [Ptr GDrawCommandList_t],
      Proto ''gdraw_command_sequence_create_with_resource'' (Ptr GDrawCommandSequence_t) [UInt 4],
      Proto ''gdraw_command_sequence_clone'' (Ptr GDrawCommandSequence_t) [Ptr GDrawCommandSequence_t],
      Proto ''gdraw_command_sequence_destroy'' Void [Ptr GDrawCommandSequence_t],
      Proto ''gdraw_command_sequence_get_frame_by_elapsed'' (Ptr GDrawCommandFrame_t) [Ptr GDrawCommandSequence_t,
        UInt 4],
      Proto ''gdraw_command_sequence_get_frame_by_index'' (Ptr GDrawCommandFrame_t) [Ptr GDrawCommandSequence_t,
        UInt 4],
      Proto ''gdraw_command_sequence_get_bounds_size'' GSize_t [Ptr GDrawCommandSequence_t],
      Proto ''gdraw_command_sequence_set_bounds_size'' Void [Ptr GDrawCommandSequence_t, GSize_t],
      Proto ''gdraw_command_sequence_get_play_count'' (UInt 4) [Ptr GDrawCommandSequence_t],
      Proto ''gdraw_command_sequence_set_play_count'' Void [Ptr GDrawCommandSequence_t, UInt 4],
      Proto ''gdraw_command_sequence_get_total_duration'' (UInt 4) [Ptr GDrawCommandSequence_t],
      Proto ''gdraw_command_sequence_get_num_frames'' (UInt 4) [Ptr GDrawCommandSequence_t],
      Proto ''gdraw_command_frame_get_command_list'' (Ptr GDrawCommandList_t) [Ptr GDrawCommandFrame_t] ]"

definition api_PathDrawing :: "proto list" where
  "api_PathDrawing =
    [ Proto ''gpath_create'' (Ptr GPath_t) [Ptr GPathInfo_t],
      Proto ''gpath_destroy'' Void [Ptr GPath_t],
      Proto ''gpath_draw_filled'' Void [Ptr GContext_t, Ptr GPath_t],
      Proto ''gpath_draw_outline'' Void [Ptr GContext_t, Ptr GPath_t],
      Proto ''gpath_rotate_to'' Void [Ptr GPath_t, SInt 4],
      Proto ''gpath_move_to'' Void [Ptr GPath_t, GPoint_t],
      Proto ''gpath_draw_outline_open'' Void [Ptr GContext_t, Ptr GPath_t] ]"

definition api_Fonts :: "proto list" where
  "api_Fonts =
    [ Proto ''fonts_get_system_font'' GFont_t [Ptr (UInt 1)],
      Proto ''fonts_load_custom_font'' GFont_t [ResHandle_t],
      Proto ''fonts_unload_custom_font'' Void [GFont_t] ]"

definition api_TextDrawing :: "proto list" where
  "api_TextDrawing =
    [ Proto ''graphics_text_attributes_create'' (Ptr GTextAttributes_t) [],
      Proto ''graphics_text_attributes_destroy'' Void [Ptr GTextAttributes_t],
      Proto ''graphics_text_attributes_restore_default_text_flow'' Void [Ptr GTextAttributes_t],
      Proto ''graphics_text_attributes_enable_screen_text_flow'' Void [Ptr GTextAttributes_t, UInt 1],
      Proto ''graphics_text_attributes_restore_default_paging'' Void [Ptr GTextAttributes_t],
      Proto ''graphics_text_attributes_enable_paging'' Void [Ptr GTextAttributes_t, GPoint_t, GRect_t],
      Proto ''graphics_draw_text'' Void [Ptr GContext_t, Ptr (UInt 1), GFont_t, GRect_t, GTextOverflowMode_t,
        GTextAlignment_t, Ptr GTextAttributes_t],
      Proto ''graphics_text_layout_get_content_size'' GSize_t [Ptr (UInt 1), GFont_t, GRect_t,
        GTextOverflowMode_t, GTextAlignment_t],
      Proto ''graphics_text_layout_get_content_size_with_attributes'' GSize_t [Ptr (UInt 1), GFont_t, GRect_t,
        GTextOverflowMode_t, GTextAlignment_t, Ptr GTextAttributes_t] ]"

definition api_Smartstrap :: "proto list" where
  "api_Smartstrap =
    [ Proto ''smartstrap_subscribe'' SmartstrapResult_t [SmartstrapHandlers_t],
      Proto ''smartstrap_unsubscribe'' Void [],
      Proto ''smartstrap_set_timeout'' Void [UInt 2],
      Proto ''smartstrap_attribute_create'' (Ptr SmartstrapAttribute_t) [SmartstrapServiceId_t,
        SmartstrapAttributeId_t, UInt 4],
      Proto ''smartstrap_attribute_destroy'' Void [Ptr SmartstrapAttribute_t],
      Proto ''smartstrap_service_is_available'' Bool [SmartstrapServiceId_t],
      Proto ''smartstrap_attribute_get_service_id'' SmartstrapServiceId_t [Ptr SmartstrapAttribute_t],
      Proto ''smartstrap_attribute_get_attribute_id'' SmartstrapAttributeId_t [Ptr SmartstrapAttribute_t],
      Proto ''smartstrap_attribute_read'' SmartstrapResult_t [Ptr SmartstrapAttribute_t],
      Proto ''smartstrap_attribute_begin_write'' SmartstrapResult_t [Ptr SmartstrapAttribute_t,
        Ptr (Ptr (UInt 1)), Ptr (UInt 4)],
      Proto ''smartstrap_attribute_end_write'' SmartstrapResult_t [Ptr SmartstrapAttribute_t, UInt 4, Bool] ]"

definition api_Clicks :: "proto list" where
  "api_Clicks =
    [ Proto ''click_number_of_clicks_counted'' (UInt 1) [ClickRecognizerRef_t],
      Proto ''click_recognizer_get_button_id'' ButtonId_t [ClickRecognizerRef_t],
      Proto ''click_recognizer_is_repeating'' Bool [ClickRecognizerRef_t] ]"

definition api_Layer :: "proto list" where
  "api_Layer =
    [ Proto ''layer_create'' (Ptr Layer_t) [GRect_t],
      Proto ''layer_create_with_data'' (Ptr Layer_t) [GRect_t, UInt 4],
      Proto ''layer_destroy'' Void [Ptr Layer_t],
      Proto ''layer_mark_dirty'' Void [Ptr Layer_t],
      Proto ''layer_set_update_proc'' Void [Ptr Layer_t, LayerUpdateProc_t],
      Proto ''layer_set_frame'' Void [Ptr Layer_t, GRect_t],
      Proto ''layer_get_frame'' GRect_t [Ptr Layer_t],
      Proto ''layer_set_bounds'' Void [Ptr Layer_t, GRect_t],
      Proto ''layer_get_bounds'' GRect_t [Ptr Layer_t],
      Proto ''layer_convert_point_to_screen'' GPoint_t [Ptr Layer_t, GPoint_t],
      Proto ''layer_convert_rect_to_screen'' GRect_t [Ptr Layer_t, GRect_t],
      Proto ''layer_get_window'' (Ptr (Opaque ''Window'')) [Ptr Layer_t],
      Proto ''layer_remove_from_parent'' Void [Ptr Layer_t],
      Proto ''layer_remove_child_layers'' Void [Ptr Layer_t],
      Proto ''layer_add_child'' Void [Ptr Layer_t, Ptr Layer_t],
      Proto ''layer_insert_below_sibling'' Void [Ptr Layer_t, Ptr Layer_t],
      Proto ''layer_insert_above_sibling'' Void [Ptr Layer_t, Ptr Layer_t],
      Proto ''layer_set_hidden'' Void [Ptr Layer_t, Bool],
      Proto ''layer_get_hidden'' Bool [Ptr Layer_t] ]"

definition api_Layer2 :: "proto list" where
  "api_Layer2 =
    [ Proto ''layer_set_clips'' Void [Ptr Layer_t, Bool],
      Proto ''layer_get_clips'' Bool [Ptr Layer_t],
      Proto ''layer_get_data'' (Ptr Void) [Ptr Layer_t] ]"

definition api_Window :: "proto list" where
  "api_Window =
    [ Proto ''window_create'' (Ptr Window_t) [],
      Proto ''window_destroy'' Void [Ptr Window_t],
      Proto ''window_set_click_config_provider'' Void [Ptr Window_t, ClickConfigProvider_t],
      Proto ''window_set_click_config_provider_with_context'' Void [Ptr Window_t, ClickConfigProvider_t,
        Ptr Void],
      Proto ''window_get_click_config_provider'' ClickConfigProvider_t [Ptr Window_t],
      Proto ''window_get_click_config_context'' (Ptr Void) [Ptr Window_t],
      Proto ''window_set_window_handlers'' Void [Ptr Window_t, WindowHandlers_t],
      Proto ''window_get_root_layer'' (Ptr Layer_t) [Ptr Window_t],
      Proto ''window_set_background_color'' Void [Ptr Window_t, GColor_t],
      Proto ''window_is_loaded'' Bool [Ptr Window_t],
      Proto ''window_set_user_data'' Void [Ptr Window_t, Ptr Void],
      Proto ''window_get_user_data'' (Ptr Void) [Ptr Window_t],
      Proto ''window_single_click_subscribe'' Void [ButtonId_t, ClickHandler_t],
      Proto ''window_single_repeating_click_subscribe'' Void [ButtonId_t, UInt 2, ClickHandler_t],
      Proto ''window_multi_click_subscribe'' Void [ButtonId_t, UInt 1, UInt 1, UInt 2, Bool, ClickHandler_t],
      Proto ''window_long_click_subscribe'' Void [ButtonId_t, UInt 2, ClickHandler_t, ClickHandler_t],
      Proto ''window_raw_click_subscribe'' Void [ButtonId_t, ClickHandler_t, ClickHandler_t, Ptr Void],
      Proto ''window_set_click_context'' Void [ButtonId_t, Ptr Void] ]"

definition api_WindowStack :: "proto list" where
  "api_WindowStack =
    [ Proto ''window_stack_push'' Void [Ptr Window_t, Bool],
      Proto ''window_stack_pop'' (Ptr Window_t) [Bool],
      Proto ''window_stack_pop_all'' Void [Bool],
      Proto ''window_stack_remove'' Bool [Ptr Window_t, Bool],
      Proto ''window_stack_get_top_window'' (Ptr Window_t) [],
      Proto ''window_stack_contains_window'' Bool [Ptr Window_t] ]"

definition api_Animation :: "proto list" where
  "api_Animation =
    [ Proto ''animation_create'' (Ptr Animation_t) [],
      Proto ''animation_destroy'' Bool [Ptr Animation_t],
      Proto ''animation_clone'' (Ptr Animation_t) [Ptr Animation_t],
      Variadic ''animation_sequence_create'' (Ptr Animation_t) [Ptr Animation_t, Ptr Animation_t,
        Ptr Animation_t],
      Proto ''animation_sequence_create_from_array'' (Ptr Animation_t) [Ptr (Ptr Animation_t), UInt 4],
      Variadic ''animation_spawn_create'' (Ptr Animation_t) [Ptr Animation_t, Ptr Animation_t,
        Ptr Animation_t],
      Proto ''animation_spawn_create_from_array'' (Ptr Animation_t) [Ptr (Ptr Animation_t), UInt 4],
      Proto ''animation_set_elapsed'' Bool [Ptr Animation_t, UInt 4],
      Proto ''animation_get_elapsed'' Bool [Ptr Animation_t, Ptr (SInt 4)],
      Proto ''animation_set_reverse'' Bool [Ptr Animation_t, Bool],
      Proto ''animation_get_reverse'' Bool [Ptr Animation_t],
      Proto ''animation_set_play_count'' Bool [Ptr Animation_t, UInt 4],
      Proto ''animation_get_play_count'' (UInt 4) [Ptr Animation_t],
      Proto ''animation_set_duration'' Bool [Ptr Animation_t, UInt 4],
      Proto ''animation_get_duration'' (UInt 4) [Ptr Animation_t, Bool, Bool],
      Proto ''animation_set_delay'' Bool [Ptr Animation_t, UInt 4],
      Proto ''animation_get_delay'' (UInt 4) [Ptr Animation_t] ]"

definition api_Animation2 :: "proto list" where
  "api_Animation2 =
    [ Proto ''animation_set_curve'' Bool [Ptr Animation_t, AnimationCurve_t],
      Proto ''animation_get_curve'' AnimationCurve_t [Ptr Animation_t],
      Proto ''animation_set_custom_curve'' Bool [Ptr Animation_t, AnimationCurveFunction_t],
      Proto ''animation_get_custom_curve'' AnimationCurveFunction_t [Ptr Animation_t],
      Proto ''animation_set_handlers'' Bool [Ptr Animation_t, AnimationHandlers_t, Ptr Void],
      Proto ''animation_get_context'' (Ptr Void) [Ptr Animation_t],
      Proto ''animation_schedule'' Bool [Ptr Animation_t],
      Proto ''animation_unschedule'' Bool [Ptr Animation_t],
      Proto ''animation_unschedule_all'' Void [],
      Proto ''animation_is_scheduled'' Bool [Ptr Animation_t] ]"

definition api_Animation3 :: "proto list" where
  "api_Animation3 =
    [ Proto ''animation_set_implementation'' Bool [Ptr Animation_t, Ptr AnimationImplementation_t],
      Proto ''animation_get_implementation'' (Ptr AnimationImplementation_t) [Ptr Animation_t] ]"

definition api_PropertyAnimation :: "proto list" where
  "api_PropertyAnimation =
    [ Proto ''property_animation_create_layer_frame'' (Ptr PropertyAnimation_t) [Ptr Layer_t, Ptr GRect_t,
        Ptr GRect_t],
      Proto ''property_animation_create_bounds_origin'' (Ptr PropertyAnimation_t) [Ptr Layer_t, Ptr GPoint_t,
        Ptr GPoint_t],
      Proto ''property_animation_create'' (Ptr PropertyAnimation_t) [Ptr (Opaque ''PropertyAnimationImplementation''),
        Ptr Void, Ptr Void, Ptr Void],
      Proto ''property_animation_destroy'' Void [Ptr PropertyAnimation_t],
      Proto ''property_animation_update_int16'' Void [Ptr PropertyAnimation_t, UInt 4],
      Proto ''property_animation_update_uint32'' Void [Ptr PropertyAnimation_t, UInt 4],
      Proto ''property_animation_update_gpoint'' Void [Ptr PropertyAnimation_t, UInt 4],
      Proto ''property_animation_update_grect'' Void [Ptr PropertyAnimation_t, UInt 4],
      Proto ''property_animation_update_gcolor8'' Void [Ptr PropertyAnimation_t, UInt 4] ]"

definition api_PropertyAnimation2 :: "proto list" where
  "api_PropertyAnimation2 =
    [ Proto ''property_animation_get_animation'' (Ptr Animation_t) [Ptr PropertyAnimation_t],
      Proto ''property_animation_subject'' Bool [Ptr PropertyAnimation_t, Ptr (Ptr Void), Bool],
      Proto ''property_animation_from'' Bool [Ptr PropertyAnimation_t, Ptr Void, UInt 4, Bool],
      Proto ''property_animation_to'' Bool [Ptr PropertyAnimation_t, Ptr Void, UInt 4, Bool] ]"

definition api_TextLayer :: "proto list" where
  "api_TextLayer =
    [ Proto ''text_layer_create'' (Ptr TextLayer_t) [GRect_t],
      Proto ''text_layer_destroy'' Void [Ptr TextLayer_t],
      Proto ''text_layer_get_layer'' (Ptr Layer_t) [Ptr TextLayer_t],
      Proto ''text_layer_set_text'' Void [Ptr TextLayer_t, Ptr (UInt 1)],
      Proto ''text_layer_get_text'' (Ptr (UInt 1)) [Ptr TextLayer_t],
      Proto ''text_layer_set_background_color'' Void [Ptr TextLayer_t, GColor_t],
      Proto ''text_layer_set_text_color'' Void [Ptr TextLayer_t, GColor_t],
      Proto ''text_layer_set_overflow_mode'' Void [Ptr TextLayer_t, GTextOverflowMode_t],
      Proto ''text_layer_set_font'' Void [Ptr TextLayer_t, GFont_t],
      Proto ''text_layer_set_text_alignment'' Void [Ptr TextLayer_t, GTextAlignment_t],
      Proto ''text_layer_enable_screen_text_flow_and_paging'' Void [Ptr TextLayer_t, UInt 1],
      Proto ''text_layer_restore_default_text_flow_and_paging'' Void [Ptr TextLayer_t],
      Proto ''text_layer_get_content_size'' GSize_t [Ptr TextLayer_t],
      Proto ''text_layer_set_size'' Void [Ptr TextLayer_t, GSize_t] ]"

definition api_ScrollLayer :: "proto list" where
  "api_ScrollLayer =
    [ Proto ''scroll_layer_create'' (Ptr ScrollLayer_t) [GRect_t],
      Proto ''scroll_layer_destroy'' Void [Ptr ScrollLayer_t],
      Proto ''scroll_layer_get_layer'' (Ptr Layer_t) [Ptr ScrollLayer_t],
      Proto ''scroll_layer_add_child'' Void [Ptr ScrollLayer_t, Ptr Layer_t],
      Proto ''scroll_layer_set_click_config_onto_window'' Void [Ptr ScrollLayer_t, Ptr Window_t],
      Proto ''scroll_layer_set_callbacks'' Void [Ptr ScrollLayer_t, ScrollLayerCallbacks_t],
      Proto ''scroll_layer_set_context'' Void [Ptr ScrollLayer_t, Ptr Void],
      Proto ''scroll_layer_set_content_offset'' Void [Ptr ScrollLayer_t, GPoint_t, Bool],
      Proto ''scroll_layer_get_content_offset'' GPoint_t [Ptr ScrollLayer_t],
      Proto ''scroll_layer_set_content_size'' Void [Ptr ScrollLayer_t, GSize_t],
      Proto ''scroll_layer_get_content_size'' GSize_t [Ptr ScrollLayer_t],
      Proto ''scroll_layer_set_frame'' Void [Ptr ScrollLayer_t, GRect_t],
      Proto ''scroll_layer_scroll_up_click_handler'' Void [ClickRecognizerRef_t, Ptr Void],
      Proto ''scroll_layer_scroll_down_click_handler'' Void [ClickRecognizerRef_t, Ptr Void],
      Proto ''scroll_layer_set_shadow_hidden'' Void [Ptr ScrollLayer_t, Bool],
      Proto ''scroll_layer_get_shadow_hidden'' Bool [Ptr ScrollLayer_t],
      Proto ''scroll_layer_set_paging'' Void [Ptr ScrollLayer_t, Bool],
      Proto ''scroll_layer_get_paging'' Bool [Ptr ScrollLayer_t],
      Proto ''scroll_layer_get_content_indicator'' (Ptr ContentIndicator_t) [Ptr ScrollLayer_t] ]"

definition api_ScrollLayer2 :: "proto list" where
  "api_ScrollLayer2 =
    [ Proto ''content_indicator_create'' (Ptr ContentIndicator_t) [],
      Proto ''content_indicator_destroy'' Void [Ptr ContentIndicator_t],
      Proto ''content_indicator_configure_direction'' Bool [Ptr ContentIndicator_t,
        ContentIndicatorDirection_t, Ptr ContentIndicatorConfig_t],
      Proto ''content_indicator_get_content_available'' Bool [Ptr ContentIndicator_t,
        ContentIndicatorDirection_t],
      Proto ''content_indicator_set_content_available'' Void [Ptr ContentIndicator_t,
        ContentIndicatorDirection_t, Bool] ]"

definition api_MenuLayer :: "proto list" where
  "api_MenuLayer =
    [ Proto ''menu_cell_basic_draw'' Void [Ptr GContext_t, Ptr Layer_t, Ptr (UInt 1), Ptr (UInt 1),
        Ptr GBitmap_t],
      Proto ''menu_cell_title_draw'' Void [Ptr GContext_t, Ptr Layer_t, Ptr (UInt 1)],
      Proto ''menu_cell_basic_header_draw'' Void [Ptr GContext_t, Ptr Layer_t, Ptr (UInt 1)],
      Proto ''menu_index_compare'' (SInt 2) [Ptr MenuIndex_t, Ptr MenuIndex_t] ]"

definition api_MenuLayer2 :: "proto list" where
  "api_MenuLayer2 =
    [ Proto ''menu_layer_create'' (Ptr MenuLayer_t) [GRect_t],
      Proto ''menu_layer_destroy'' Void [Ptr MenuLayer_t],
      Proto ''menu_layer_get_layer'' (Ptr Layer_t) [Ptr MenuLayer_t],
      Proto ''menu_layer_get_scroll_layer'' (Ptr ScrollLayer_t) [Ptr MenuLayer_t],
      Proto ''menu_layer_set_callbacks'' Void [Ptr MenuLayer_t, Ptr Void, MenuLayerCallbacks_t],
      Proto ''menu_layer_set_click_config_onto_window'' Void [Ptr MenuLayer_t, Ptr Window_t],
      Proto ''menu_layer_set_selected_next'' Void [Ptr MenuLayer_t, Bool, MenuRowAlign_t, Bool],
      Proto ''menu_layer_set_selected_index'' Void [Ptr MenuLayer_t, MenuIndex_t, MenuRowAlign_t, Bool],
      Proto ''menu_layer_get_selected_index'' MenuIndex_t [Ptr MenuLayer_t],
      Proto ''menu_layer_reload_data'' Void [Ptr MenuLayer_t],
      Proto ''menu_cell_layer_is_highlighted'' Bool [Ptr Layer_t],
      Proto ''menu_layer_set_normal_colors'' Void [Ptr MenuLayer_t, GColor_t, GColor_t],
      Proto ''menu_layer_set_highlight_colors'' Void [Ptr MenuLayer_t, GColor_t, GColor_t],
      Proto ''menu_layer_pad_bottom_enable'' Void [Ptr MenuLayer_t, Bool] ]"

definition api_MenuLayer3 :: "proto list" where
  "api_MenuLayer3 =
    [ Proto ''menu_layer_get_center_focused'' Bool [Ptr MenuLayer_t],
      Proto ''menu_layer_set_center_focused'' Void [Ptr MenuLayer_t, Bool],
      Proto ''menu_layer_is_index_selected'' Bool [Ptr MenuLayer_t, Ptr MenuIndex_t] ]"

definition api_SimpleMenuLayer :: "proto list" where
  "api_SimpleMenuLayer =
    [ Proto ''simple_menu_layer_create'' (Ptr SimpleMenuLayer_t) [GRect_t, Ptr Window_t,
        Ptr SimpleMenuSection_t, SInt 4, Ptr Void],
      Proto ''simple_menu_layer_destroy'' Void [Ptr SimpleMenuLayer_t],
      Proto ''simple_menu_layer_get_layer'' (Ptr Layer_t) [Ptr SimpleMenuLayer_t],
      Proto ''simple_menu_layer_get_selected_index'' (SInt 4) [Ptr SimpleMenuLayer_t],
      Proto ''simple_menu_layer_set_selected_index'' Void [Ptr SimpleMenuLayer_t, SInt 4, Bool],
      Proto ''simple_menu_layer_get_menu_layer'' (Ptr MenuLayer_t) [Ptr SimpleMenuLayer_t] ]"

definition api_ActionBarLayer :: "proto list" where
  "api_ActionBarLayer =
    [ Proto ''action_bar_layer_create'' (Ptr ActionBarLayer_t) [],
      Proto ''action_bar_layer_destroy'' Void [Ptr ActionBarLayer_t],
      Proto ''action_bar_layer_get_layer'' (Ptr Layer_t) [Ptr ActionBarLayer_t],
      Proto ''action_bar_layer_set_context'' Void [Ptr ActionBarLayer_t, Ptr Void],
      Proto ''action_bar_layer_set_click_config_provider'' Void [Ptr ActionBarLayer_t, ClickConfigProvider_t],
      Proto ''action_bar_layer_set_icon'' Void [Ptr ActionBarLayer_t, ButtonId_t, Ptr GBitmap_t],
      Proto ''action_bar_layer_clear_icon'' Void [Ptr ActionBarLayer_t, ButtonId_t],
      Proto ''action_bar_layer_add_to_window'' Void [Ptr ActionBarLayer_t, Ptr Window_t],
      Proto ''action_bar_layer_remove_from_window'' Void [Ptr ActionBarLayer_t],
      Proto ''action_bar_layer_set_background_color'' Void [Ptr ActionBarLayer_t, GColor_t],
      Proto ''action_bar_layer_set_icon_animated'' Void [Ptr ActionBarLayer_t, ButtonId_t, Ptr GBitmap_t,
        Bool],
      Proto ''action_bar_layer_set_icon_press_animation'' Void [Ptr ActionBarLayer_t, ButtonId_t,
        ActionBarLayerIconPressAnimation_t] ]"

definition api_StatusBarLayer :: "proto list" where
  "api_StatusBarLayer =
    [ Proto ''status_bar_layer_create'' (Ptr StatusBarLayer_t) [],
      Proto ''status_bar_layer_destroy'' Void [Ptr StatusBarLayer_t],
      Proto ''status_bar_layer_get_layer'' (Ptr Layer_t) [Ptr StatusBarLayer_t],
      Proto ''status_bar_layer_get_background_color'' GColor_t [Ptr StatusBarLayer_t],
      Proto ''status_bar_layer_get_foreground_color'' GColor_t [Ptr StatusBarLayer_t],
      Proto ''status_bar_layer_set_colors'' Void [Ptr StatusBarLayer_t, GColor_t, GColor_t],
      Proto ''status_bar_layer_set_separator_mode'' Void [Ptr StatusBarLayer_t, StatusBarLayerSeparatorMode_t] ]"

definition api_BitmapLayer :: "proto list" where
  "api_BitmapLayer =
    [ Proto ''bitmap_layer_create'' (Ptr BitmapLayer_t) [GRect_t],
      Proto ''bitmap_layer_destroy'' Void [Ptr BitmapLayer_t],
      Proto ''bitmap_layer_get_layer'' (Ptr Layer_t) [Ptr BitmapLayer_t],
      Proto ''bitmap_layer_get_bitmap'' (Ptr GBitmap_t) [Ptr BitmapLayer_t],
      Proto ''bitmap_layer_set_bitmap'' Void [Ptr BitmapLayer_t, Ptr GBitmap_t],
      Proto ''bitmap_layer_set_alignment'' Void [Ptr BitmapLayer_t, GAlign_t],
      Proto ''bitmap_layer_set_background_color'' Void [Ptr BitmapLayer_t, GColor_t],
      Proto ''bitmap_layer_set_compositing_mode'' Void [Ptr BitmapLayer_t, GCompOp_t] ]"

definition api_RotBitmapLayer :: "proto list" where
  "api_RotBitmapLayer =
    [ Proto ''rot_bitmap_layer_create'' (Ptr RotBitmapLayer_t) [Ptr GBitmap_t],
      Proto ''rot_bitmap_layer_destroy'' Void [Ptr RotBitmapLayer_t],
      Proto ''rot_bitmap_layer_set_corner_clip_color'' Void [Ptr RotBitmapLayer_t, GColor_t],
      Proto ''rot_bitmap_layer_set_angle'' Void [Ptr RotBitmapLayer_t, SInt 4],
      Proto ''rot_bitmap_layer_increment_angle'' Void [Ptr RotBitmapLayer_t, SInt 4],
      Proto ''rot_bitmap_set_src_ic'' Void [Ptr RotBitmapLayer_t, GPoint_t],
      Proto ''rot_bitmap_set_compositing_mode'' Void [Ptr RotBitmapLayer_t, GCompOp_t] ]"

definition api_NumberWindow :: "proto list" where
  "api_NumberWindow =
    [ Proto ''number_window_create'' (Ptr NumberWindow_t) [Ptr (UInt 1), NumberWindowCallbacks_t, Ptr Void],
      Proto ''number_window_destroy'' Void [Ptr NumberWindow_t],
      Proto ''number_window_set_label'' Void [Ptr NumberWindow_t, Ptr (UInt 1)],
      Proto ''number_window_set_max'' Void [Ptr NumberWindow_t, SInt 4],
      Proto ''number_window_set_min'' Void [Ptr NumberWindow_t, SInt 4],
      Proto ''number_window_set_value'' Void [Ptr NumberWindow_t, SInt 4],
      Proto ''number_window_set_step_size'' Void [Ptr NumberWindow_t, SInt 4],
      Proto ''number_window_get_value'' (SInt 4) [Ptr NumberWindow_t],
      Proto ''number_window_get_window'' (Ptr Window_t) [Ptr NumberWindow_t] ]"

definition api_ActionMenu :: "proto list" where
  "api_ActionMenu =
    [ Proto ''action_menu_item_get_label'' (Ptr (UInt 1)) [Ptr ActionMenuItem_t],
      Proto ''action_menu_item_get_action_data'' (Ptr Void) [Ptr ActionMenuItem_t],
      Proto ''action_menu_level_create'' (Ptr ActionMenuLevel_t) [UInt 2],
      Proto ''action_menu_level_set_display_mode'' Void [Ptr ActionMenuLevel_t, ActionMenuLevelDisplayMode_t],
      Proto ''action_menu_level_add_action'' (Ptr ActionMenuItem_t) [Ptr ActionMenuLevel_t, Ptr (UInt 1),
        ActionMenuPerformActionCb_t, Ptr Void],
      Proto ''action_menu_level_add_child'' (Ptr ActionMenuItem_t) [Ptr ActionMenuLevel_t,
        Ptr ActionMenuLevel_t, Ptr (UInt 1)],
      Proto ''action_menu_hierarchy_destroy'' Void [Ptr ActionMenuLevel_t, ActionMenuEachItemCb_t, Ptr Void],
      Proto ''action_menu_get_context'' (Ptr Void) [Ptr ActionMenu_t],
      Proto ''action_menu_get_root_level'' (Ptr ActionMenuLevel_t) [Ptr ActionMenu_t],
      Proto ''action_menu_open'' (Ptr ActionMenu_t) [Ptr ActionMenuConfig_t],
      Proto ''action_menu_freeze'' Void [Ptr ActionMenu_t],
      Proto ''action_menu_unfreeze'' Void [Ptr ActionMenu_t],
      Proto ''action_menu_set_result_window'' Void [Ptr ActionMenu_t, Ptr Window_t],
      Proto ''action_menu_close'' Void [Ptr ActionMenu_t, Bool] ]"

definition api_Vibes :: "proto list" where
  "api_Vibes =
    [ Proto ''vibes_cancel'' Void [],
      Proto ''vibes_short_pulse'' Void [],
      Proto ''vibes_long_pulse'' Void [],
      Proto ''vibes_double_pulse'' Void [],
      Proto ''vibes_enqueue_custom_pattern'' Void [VibePattern_t] ]"

definition api_Light :: "proto list" where
  "api_Light =
    [ Proto ''light_enable_interaction'' Void [],
      Proto ''light_enable'' Void [Bool] ]"

definition api_StandardTime :: "proto list" where
  "api_StandardTime =
    [ Proto ''strftime'' (SInt 4) [Ptr (UInt 1), UInt 4, Ptr (UInt 1), Ptr tm_t],
      Proto ''localtime'' (Ptr tm_t) [Ptr (SInt 4)],
      Proto ''gmtime'' (Ptr tm_t) [Ptr (SInt 4)],
      Proto ''mktime'' (SInt 4) [Ptr tm_t],
      Proto ''time'' (SInt 4) [Ptr (SInt 4)],
      Proto ''difftime'' Double [SInt 4, SInt 4],
      Proto ''time_ms'' (UInt 2) [Ptr (SInt 4), Ptr (UInt 2)],
      Proto ''time_start_of_today'' (SInt 4) [] ]"

definition pebble_api :: "proto list" where
  "pebble_api =
    api_Internationalization @ api_WatchInfo @ api_Math @ api_WallTime @ api_ConnectionService @
     api_AppFocusService @ api_BatteryStateService @ api_AccelerometerService @ api_CompassService @
     api_TickTimerService @ api_HealthService @ api_HealthService2 @ api_DataLogging @ api_UUID @ api_Logging @
     api_Dictionary @ api_Dictionary2 @ api_Dictation @ api_AppMessage @ api_AppMessage2 @ api_AppSync @
     api_Resources @ api_App @ api_AppWorker @ api_AppComm @ api_Timer @ api_MemoryManagement @ api_Storage @
     api_Wakeup @ api_LaunchReason @ api_GraphicsTypes @ api_GraphicsTypes2 @ api_GraphicsTypes3 @
     api_GraphicsTypes4 @ api_GraphicsContext @ api_Drawing @ api_Drawing2 @ api_DrawCommand @ api_DrawCommand2 @
     api_PathDrawing @ api_Fonts @ api_TextDrawing @ api_Smartstrap @ api_Clicks @ api_Layer @ api_Layer2 @ api_Window @
     api_WindowStack @ api_Animation @ api_Animation2 @ api_Animation3 @ api_PropertyAnimation @
     api_PropertyAnimation2 @ api_TextLayer @ api_ScrollLayer @ api_ScrollLayer2 @ api_MenuLayer @ api_MenuLayer2 @
     api_MenuLayer3 @ api_SimpleMenuLayer @ api_ActionBarLayer @ api_StatusBarLayer @ api_BitmapLayer @
     api_RotBitmapLayer @ api_NumberWindow @ api_ActionMenu @ api_Vibes @ api_Light @ api_StandardTime"

end
