(* ===== verification/Pebble_Layout.thy ===== *)
theory Pebble_Layout
  imports Pebble_Api
begin

text \<open>
  The declarations of the header on the target: every type used by value is complete, its size and
  alignment, and with them where members and arguments are.
\<close>

named_theorems pebble_layout \<open>size, alignment and completeness of the types of the header\<close>

section \<open>Sizes and alignments\<close>

lemma layout_1 [pebble_layout]:
  "wf_type ButtonId_t" "sizeof ButtonId_t = 1" "alignof ButtonId_t = 1"
  "wf_type WatchInfoModel_t" "sizeof WatchInfoModel_t = 1" "alignof WatchInfoModel_t = 1"
  "wf_type WatchInfoColor_t" "sizeof WatchInfoColor_t = 1" "alignof WatchInfoColor_t = 1"
  "wf_type WatchInfoVersion_t" "sizeof WatchInfoVersion_t = 3" "alignof WatchInfoVersion_t = 1"
  "wf_type WeekDay_t" "sizeof WeekDay_t = 1" "alignof WeekDay_t = 1"
  "wf_type ConnectionHandler_t" "sizeof ConnectionHandler_t = 4" "alignof ConnectionHandler_t = 4"
  by (simp_all add: pebble_layout enum_size_def align_up_def ButtonId_t_def WatchInfoModel_t_def WatchInfoColor_t_def WatchInfoVersion_t_def WeekDay_t_def
      ConnectionHandler_t_def)

lemma layout_2 [pebble_layout]:
  "wf_type ConnectionHandlers_t" "sizeof ConnectionHandlers_t = 8" "alignof ConnectionHandlers_t = 4"
  "wf_type BluetoothConnectionHandler_t" "sizeof BluetoothConnectionHandler_t = 4" "alignof BluetoothConnectionHandler_t = 4"
  "wf_type AppFocusHandler_t" "sizeof AppFocusHandler_t = 4" "alignof AppFocusHandler_t = 4"
  by (simp_all add: pebble_layout align_up_def ConnectionHandlers_t_def BluetoothConnectionHandler_t_def AppFocusHandler_t_def)

lemma layout_3 [pebble_layout]:
  "wf_type AppFocusHandlers_t" "sizeof AppFocusHandlers_t = 8" "alignof AppFocusHandlers_t = 4"
  "wf_type BatteryChargeState_t" "sizeof BatteryChargeState_t = 3" "alignof BatteryChargeState_t = 1"
  by (simp_all add: pebble_layout align_up_def AppFocusHandlers_t_def BatteryChargeState_t_def)

lemma layout_4 [pebble_layout]:
  "wf_type BatteryStateHandler_t" "sizeof BatteryStateHandler_t = 4" "alignof BatteryStateHandler_t = 4"
  "wf_type AccelData_t" "sizeof AccelData_t = 15" "alignof AccelData_t = 1"
  "wf_type AccelRawData_t" "sizeof AccelRawData_t = 6" "alignof AccelRawData_t = 1"
  "wf_type AccelAxisType_t" "sizeof AccelAxisType_t = 1" "alignof AccelAxisType_t = 1"
  by (simp_all add: pebble_layout enum_size_def align_up_def BatteryStateHandler_t_def AccelData_t_def AccelRawData_t_def AccelAxisType_t_def)

lemma layout_5 [pebble_layout]:
  "wf_type AccelDataHandler_t" "sizeof AccelDataHandler_t = 4" "alignof AccelDataHandler_t = 4"
  "wf_type AccelRawDataHandler_t" "sizeof AccelRawDataHandler_t = 4" "alignof AccelRawDataHandler_t = 4"
  "wf_type AccelTapHandler_t" "sizeof AccelTapHandler_t = 4" "alignof AccelTapHandler_t = 4"
  "wf_type AccelSamplingRate_t" "sizeof AccelSamplingRate_t = 1" "alignof AccelSamplingRate_t = 1"
  "wf_type CompassStatus_t" "sizeof CompassStatus_t = 1" "alignof CompassStatus_t = 1"
  "wf_type CompassHeading_t" "sizeof CompassHeading_t = 4" "alignof CompassHeading_t = 4"
  by (simp_all add: pebble_layout enum_size_def AccelDataHandler_t_def AccelRawDataHandler_t_def AccelTapHandler_t_def AccelSamplingRate_t_def CompassStatus_t_def
      CompassHeading_t_def)

lemma layout_6 [pebble_layout]:
  "wf_type CompassHeadingData_t" "sizeof CompassHeadingData_t = 12" "alignof CompassHeadingData_t = 4"
  by (simp_all add: pebble_layout align_up_def CompassHeadingData_t_def)

lemma layout_7 [pebble_layout]:
  "wf_type CompassHeadingHandler_t" "sizeof CompassHeadingHandler_t = 4" "alignof CompassHeadingHandler_t = 4"
  "wf_type TimeUnits_t" "sizeof TimeUnits_t = 1" "alignof TimeUnits_t = 1"
  by (simp_all add: pebble_layout enum_size_def CompassHeadingHandler_t_def TimeUnits_t_def)

lemma layout_8 [pebble_layout]:
  "wf_type TickHandler_t" "sizeof TickHandler_t = 4" "alignof TickHandler_t = 4"
  "wf_type HealthMetric_t" "sizeof HealthMetric_t = 1" "alignof HealthMetric_t = 1"
  "wf_type HealthValue_t" "sizeof HealthValue_t = 4" "alignof HealthValue_t = 4"
  "wf_type HealthServiceTimeScope_t" "sizeof HealthServiceTimeScope_t = 1" "alignof HealthServiceTimeScope_t = 1"
  "wf_type HealthActivityMask_t" "sizeof HealthActivityMask_t = 4" "alignof HealthActivityMask_t = 4"
  "wf_type HealthActivity_t" "sizeof HealthActivity_t = 1" "alignof HealthActivity_t = 1"
  by (simp_all add: pebble_layout enum_size_def TickHandler_t_def HealthMetric_t_def HealthValue_t_def HealthServiceTimeScope_t_def HealthActivityMask_t_def
      HealthActivity_t_def)

lemma layout_9 [pebble_layout]:
  "wf_type HealthActivityIteratorCB_t" "sizeof HealthActivityIteratorCB_t = 4" "alignof HealthActivityIteratorCB_t = 4"
  "wf_type HealthIterationDirection_t" "sizeof HealthIterationDirection_t = 1" "alignof HealthIterationDirection_t = 1"
  "wf_type HealthServiceAccessibilityMask_t" "sizeof HealthServiceAccessibilityMask_t = 1" "alignof HealthServiceAccessibilityMask_t = 1"
  "wf_type HealthEventType_t" "sizeof HealthEventType_t = 1" "alignof HealthEventType_t = 1"
  by (simp_all add: pebble_layout enum_size_def HealthActivityIteratorCB_t_def HealthIterationDirection_t_def HealthServiceAccessibilityMask_t_def HealthEventType_t_def)

lemma layout_10 [pebble_layout]:
  "wf_type HealthEventHandler_t" "sizeof HealthEventHandler_t = 4" "alignof HealthEventHandler_t = 4"
  "wf_type AmbientLightLevel_t" "sizeof AmbientLightLevel_t = 1" "alignof AmbientLightLevel_t = 1"
  by (simp_all add: pebble_layout enum_size_def HealthEventHandler_t_def AmbientLightLevel_t_def)

lemma layout_11 [pebble_layout]:
  "wf_type HealthMinuteData_t" "sizeof HealthMinuteData_t = 12" "alignof HealthMinuteData_t = 2"
  "wf_type MeasurementSystem_t" "sizeof MeasurementSystem_t = 1" "alignof MeasurementSystem_t = 1"
  "wf_type DataLoggingSessionRef_t" "sizeof DataLoggingSessionRef_t = 4" "alignof DataLoggingSessionRef_t = 4"
  "wf_type DataLoggingItemType_t" "sizeof DataLoggingItemType_t = 1" "alignof DataLoggingItemType_t = 1"
  "wf_type DataLoggingResult_t" "sizeof DataLoggingResult_t = 1" "alignof DataLoggingResult_t = 1"
  "wf_type Uuid_t" "sizeof Uuid_t = 16" "alignof Uuid_t = 1"
  "wf_type AppLogLevel_t" "sizeof AppLogLevel_t = 1" "alignof AppLogLevel_t = 1"
  "wf_type DictionaryResult_t" "sizeof DictionaryResult_t = 1" "alignof DictionaryResult_t = 1"
  "wf_type TupleType_t" "sizeof TupleType_t = 1" "alignof TupleType_t = 1"
  by (simp_all add: pebble_layout enum_size_def align_up_def HealthMinuteData_t_def MeasurementSystem_t_def DataLoggingSessionRef_t_def DataLoggingItemType_t_def DataLoggingResult_t_def
      Uuid_t_def AppLogLevel_t_def DictionaryResult_t_def TupleType_t_def)

lemma layout_12 [pebble_layout]:
  "wf_type Tuple_t" "sizeof Tuple_t = 7" "alignof Tuple_t = 1"
  by (simp_all add: pebble_layout align_up_def Tuple_t_def)

lemma layout_13 [pebble_layout]:
  "wf_type DictionaryIterator_t" "sizeof DictionaryIterator_t = 12" "alignof DictionaryIterator_t = 4"
  "wf_type Tuplet_t" "sizeof Tuplet_t = 16" "alignof Tuplet_t = 4"
  "wf_type DictionarySerializeCallback_t" "sizeof DictionarySerializeCallback_t = 4" "alignof DictionarySerializeCallback_t = 4"
  "wf_type DictionaryKeyUpdatedCallback_t" "sizeof DictionaryKeyUpdatedCallback_t = 4" "alignof DictionaryKeyUpdatedCallback_t = 4"
  "wf_type DictationSessionStatus_t" "sizeof DictationSessionStatus_t = 1" "alignof DictationSessionStatus_t = 1"
  by (simp_all add: pebble_layout enum_size_def align_up_def DictionaryIterator_t_def Tuplet_t_def DictionarySerializeCallback_t_def DictionaryKeyUpdatedCallback_t_def DictationSessionStatus_t_def)

lemma layout_14 [pebble_layout]:
  "wf_type DictationSessionStatusCallback_t" "sizeof DictationSessionStatusCallback_t = 4" "alignof DictationSessionStatusCallback_t = 4"
  "wf_type AppMessageResult_t" "sizeof AppMessageResult_t = 2" "alignof AppMessageResult_t = 2"
  "wf_type AppMessageInboxReceived_t" "sizeof AppMessageInboxReceived_t = 4" "alignof AppMessageInboxReceived_t = 4"
  by (simp_all add: pebble_layout enum_size_def DictationSessionStatusCallback_t_def AppMessageResult_t_def AppMessageInboxReceived_t_def)

lemma layout_15 [pebble_layout]:
  "wf_type AppMessageInboxDropped_t" "sizeof AppMessageInboxDropped_t = 4" "alignof AppMessageInboxDropped_t = 4"
  "wf_type AppMessageOutboxSent_t" "sizeof AppMessageOutboxSent_t = 4" "alignof AppMessageOutboxSent_t = 4"
  "wf_type AppMessageOutboxFailed_t" "sizeof AppMessageOutboxFailed_t = 4" "alignof AppMessageOutboxFailed_t = 4"
  "wf_type AppSyncTupleChangedCallback_t" "sizeof AppSyncTupleChangedCallback_t = 4" "alignof AppSyncTupleChangedCallback_t = 4"
  "wf_type AppSyncErrorCallback_t" "sizeof AppSyncErrorCallback_t = 4" "alignof AppSyncErrorCallback_t = 4"
  by (simp_all add: pebble_layout AppMessageInboxDropped_t_def AppMessageOutboxSent_t_def AppMessageOutboxFailed_t_def AppSyncTupleChangedCallback_t_def AppSyncErrorCallback_t_def)

lemma layout_16 [pebble_layout]:
  "wf_type AppSync_t" "sizeof AppSync_t = 32" "alignof AppSync_t = 4"
  "wf_type ResHandle_t" "sizeof ResHandle_t = 4" "alignof ResHandle_t = 4"
  "wf_type AppWorkerResult_t" "sizeof AppWorkerResult_t = 1" "alignof AppWorkerResult_t = 1"
  "wf_type AppWorkerMessage_t" "sizeof AppWorkerMessage_t = 6" "alignof AppWorkerMessage_t = 2"
  by (simp_all add: pebble_layout enum_size_def align_up_def AppSync_t_def ResHandle_t_def AppWorkerResult_t_def AppWorkerMessage_t_def)

lemma layout_17 [pebble_layout]:
  "wf_type AppWorkerMessageHandler_t" "sizeof AppWorkerMessageHandler_t = 4" "alignof AppWorkerMessageHandler_t = 4"
  "wf_type SniffInterval_t" "sizeof SniffInterval_t = 1" "alignof SniffInterval_t = 1"
  "wf_type AppTimerCallback_t" "sizeof AppTimerCallback_t = 4" "alignof AppTimerCallback_t = 4"
  "wf_type StatusCode_t" "sizeof StatusCode_t = 1" "alignof StatusCode_t = 1"
  "wf_type status_t_t" "sizeof status_t_t = 4" "alignof status_t_t = 4"
  "wf_type WakeupId_t" "sizeof WakeupId_t = 4" "alignof WakeupId_t = 4"
  by (simp_all add: pebble_layout enum_size_def AppWorkerMessageHandler_t_def SniffInterval_t_def AppTimerCallback_t_def StatusCode_t_def status_t_t_def
      WakeupId_t_def)

lemma layout_18 [pebble_layout]:
  "wf_type WakeupHandler_t" "sizeof WakeupHandler_t = 4" "alignof WakeupHandler_t = 4"
  "wf_type AppLaunchReason_t" "sizeof AppLaunchReason_t = 1" "alignof AppLaunchReason_t = 1"
  "wf_type GColor8_t" "sizeof GColor8_t = 1" "alignof GColor8_t = 1"
  by (simp_all add: pebble_layout enum_size_def align_up_def WakeupHandler_t_def AppLaunchReason_t_def GColor8_t_def)

lemma layout_19 [pebble_layout]:
  "wf_type GColor_t" "sizeof GColor_t = 1" "alignof GColor_t = 1"
  "wf_type GPoint_t" "sizeof GPoint_t = 4" "alignof GPoint_t = 2"
  "wf_type GSize_t" "sizeof GSize_t = 4" "alignof GSize_t = 2"
  by (simp_all add: pebble_layout align_up_def GColor_t_def GPoint_t_def GSize_t_def)

lemma layout_20 [pebble_layout]:
  "wf_type GRect_t" "sizeof GRect_t = 8" "alignof GRect_t = 2"
  "wf_type GBitmapFormat_t" "sizeof GBitmapFormat_t = 1" "alignof GBitmapFormat_t = 1"
  "wf_type GBitmapDataRowInfo_t" "sizeof GBitmapDataRowInfo_t = 8" "alignof GBitmapDataRowInfo_t = 4"
  "wf_type GAlign_t" "sizeof GAlign_t = 1" "alignof GAlign_t = 1"
  "wf_type GCompOp_t" "sizeof GCompOp_t = 1" "alignof GCompOp_t = 1"
  "wf_type GEdgeInsets_t" "sizeof GEdgeInsets_t = 8" "alignof GEdgeInsets_t = 2"
  "wf_type GCornerMask_t" "sizeof GCornerMask_t = 1" "alignof GCornerMask_t = 1"
  "wf_type GOvalScaleMode_t" "sizeof GOvalScaleMode_t = 1" "alignof GOvalScaleMode_t = 1"
  "wf_type GDrawCommandListIteratorCb_t" "sizeof GDrawCommandListIteratorCb_t = 4" "alignof GDrawCommandListIteratorCb_t = 4"
  "wf_type GDrawCommandType_t" "sizeof GDrawCommandType_t = 1" "alignof GDrawCommandType_t = 1"
  by (simp_all add: pebble_layout enum_size_def align_up_def GRect_t_def GBitmapFormat_t_def GBitmapDataRowInfo_t_def GAlign_t_def GCompOp_t_def
      GEdgeInsets_t_def GCornerMask_t_def GOvalScaleMode_t_def GDrawCommandListIteratorCb_t_def GDrawCommandType_t_def)

lemma layout_21 [pebble_layout]:
  "wf_type GPathInfo_t" "sizeof GPathInfo_t = 8" "alignof GPathInfo_t = 4"
  "wf_type GPath_t" "sizeof GPath_t = 16" "alignof GPath_t = 4"
  "wf_type GFont_t" "sizeof GFont_t = 4" "alignof GFont_t = 4"
  "wf_type GTextOverflowMode_t" "sizeof GTextOverflowMode_t = 1" "alignof GTextOverflowMode_t = 1"
  "wf_type GTextAlignment_t" "sizeof GTextAlignment_t = 1" "alignof GTextAlignment_t = 1"
  "wf_type SmartstrapResult_t" "sizeof SmartstrapResult_t = 1" "alignof SmartstrapResult_t = 1"
  "wf_type SmartstrapServiceId_t" "sizeof SmartstrapServiceId_t = 2" "alignof SmartstrapServiceId_t = 2"
  "wf_type SmartstrapAttributeId_t" "sizeof SmartstrapAttributeId_t = 2" "alignof SmartstrapAttributeId_t = 2"
  by (simp_all add: pebble_layout enum_size_def align_up_def GPathInfo_t_def GPath_t_def GFont_t_def GTextOverflowMode_t_def GTextAlignment_t_def
      SmartstrapResult_t_def SmartstrapServiceId_t_def SmartstrapAttributeId_t_def)

lemma layout_22 [pebble_layout]:
  "wf_type SmartstrapServiceAvailabilityHandler_t" "sizeof SmartstrapServiceAvailabilityHandler_t = 4" "alignof SmartstrapServiceAvailabilityHandler_t = 4"
  "wf_type SmartstrapReadHandler_t" "sizeof SmartstrapReadHandler_t = 4" "alignof SmartstrapReadHandler_t = 4"
  "wf_type SmartstrapWriteHandler_t" "sizeof SmartstrapWriteHandler_t = 4" "alignof SmartstrapWriteHandler_t = 4"
  "wf_type SmartstrapNotifyHandler_t" "sizeof SmartstrapNotifyHandler_t = 4" "alignof SmartstrapNotifyHandler_t = 4"
  by (simp_all add: pebble_layout SmartstrapServiceAvailabilityHandler_t_def SmartstrapReadHandler_t_def SmartstrapWriteHandler_t_def SmartstrapNotifyHandler_t_def)

lemma layout_23 [pebble_layout]:
  "wf_type SmartstrapHandlers_t" "sizeof SmartstrapHandlers_t = 16" "alignof SmartstrapHandlers_t = 4"
  "wf_type ClickRecognizerRef_t" "sizeof ClickRecognizerRef_t = 4" "alignof ClickRecognizerRef_t = 4"
  by (simp_all add: pebble_layout align_up_def SmartstrapHandlers_t_def ClickRecognizerRef_t_def)

lemma layout_24 [pebble_layout]:
  "wf_type ClickHandler_t" "sizeof ClickHandler_t = 4" "alignof ClickHandler_t = 4"
  "wf_type ClickConfigProvider_t" "sizeof ClickConfigProvider_t = 4" "alignof ClickConfigProvider_t = 4"
  "wf_type LayerUpdateProc_t" "sizeof LayerUpdateProc_t = 4" "alignof LayerUpdateProc_t = 4"
  "wf_type WindowHandler_t" "sizeof WindowHandler_t = 4" "alignof WindowHandler_t = 4"
  by (simp_all add: pebble_layout ClickHandler_t_def ClickConfigProvider_t_def LayerUpdateProc_t_def WindowHandler_t_def)

lemma layout_25 [pebble_layout]:
  "wf_type WindowHandlers_t" "sizeof WindowHandlers_t = 16" "alignof WindowHandlers_t = 4"
  "wf_type AnimationProgress_t" "sizeof AnimationProgress_t = 4" "alignof AnimationProgress_t = 4"
  "wf_type AnimationCurve_t" "sizeof AnimationCurve_t = 1" "alignof AnimationCurve_t = 1"
  by (simp_all add: pebble_layout enum_size_def align_up_def WindowHandlers_t_def AnimationProgress_t_def AnimationCurve_t_def)

lemma layout_26 [pebble_layout]:
  "wf_type AnimationCurveFunction_t" "sizeof AnimationCurveFunction_t = 4" "alignof AnimationCurveFunction_t = 4"
  "wf_type AnimationStartedHandler_t" "sizeof AnimationStartedHandler_t = 4" "alignof AnimationStartedHandler_t = 4"
  "wf_type AnimationStoppedHandler_t" "sizeof AnimationStoppedHandler_t = 4" "alignof AnimationStoppedHandler_t = 4"
  by (simp_all add: pebble_layout AnimationCurveFunction_t_def AnimationStartedHandler_t_def AnimationStoppedHandler_t_def)

lemma layout_27 [pebble_layout]:
  "wf_type AnimationHandlers_t" "sizeof AnimationHandlers_t = 8" "alignof AnimationHandlers_t = 4"
  "wf_type AnimationSetupImplementation_t" "sizeof AnimationSetupImplementation_t = 4" "alignof AnimationSetupImplementation_t = 4"
  "wf_type AnimationUpdateImplementation_t" "sizeof AnimationUpdateImplementation_t = 4" "alignof AnimationUpdateImplementation_t = 4"
  "wf_type AnimationTeardownImplementation_t" "sizeof AnimationTeardownImplementation_t = 4" "alignof AnimationTeardownImplementation_t = 4"
  by (simp_all add: pebble_layout align_up_def AnimationHandlers_t_def AnimationSetupImplementation_t_def AnimationUpdateImplementation_t_def AnimationTeardownImplementation_t_def)

lemma layout_28 [pebble_layout]:
  "wf_type AnimationImplementation_t" "sizeof AnimationImplementation_t = 12" "alignof AnimationImplementation_t = 4"
  "wf_type GPointReturn_t" "sizeof GPointReturn_t = 4" "alignof GPointReturn_t = 2"
  "wf_type GRectReturn_t" "sizeof GRectReturn_t = 8" "alignof GRectReturn_t = 2"
  "wf_type Int16Setter_t" "sizeof Int16Setter_t = 4" "alignof Int16Setter_t = 4"
  "wf_type Int16Getter_t" "sizeof Int16Getter_t = 4" "alignof Int16Getter_t = 4"
  "wf_type UInt32Setter_t" "sizeof UInt32Setter_t = 4" "alignof UInt32Setter_t = 4"
  "wf_type UInt32Getter_t" "sizeof UInt32Getter_t = 4" "alignof UInt32Getter_t = 4"
  "wf_type GPointSetter_t" "sizeof GPointSetter_t = 4" "alignof GPointSetter_t = 4"
  by (simp_all add: pebble_layout align_up_def AnimationImplementation_t_def GPointReturn_t_def GRectReturn_t_def Int16Setter_t_def Int16Getter_t_def
      UInt32Setter_t_def UInt32Getter_t_def GPointSetter_t_def)

lemma layout_29 [pebble_layout]:
  "wf_type GPointGetter_t" "sizeof GPointGetter_t = 4" "alignof GPointGetter_t = 4"
  "wf_type GRectSetter_t" "sizeof GRectSetter_t = 4" "alignof GRectSetter_t = 4"
  "wf_type GRectGetter_t" "sizeof GRectGetter_t = 4" "alignof GRectGetter_t = 4"
  "wf_type GColor8Setter_t" "sizeof GColor8Setter_t = 4" "alignof GColor8Setter_t = 4"
  "wf_type GColor8Getter_t" "sizeof GColor8Getter_t = 4" "alignof GColor8Getter_t = 4"
  by (simp_all add: pebble_layout GPointGetter_t_def GRectSetter_t_def GRectGetter_t_def GColor8Setter_t_def GColor8Getter_t_def)

lemma layout_30 [pebble_layout]:
  "wf_type PropertyAnimationAccessors_t" "sizeof PropertyAnimationAccessors_t = 8" "alignof PropertyAnimationAccessors_t = 4"
  by (simp_all add: pebble_layout align_up_def PropertyAnimationAccessors_t_def)

lemma layout_31 [pebble_layout]:
  "wf_type PropertyAnimationImplementation_t" "sizeof PropertyAnimationImplementation_t = 20" "alignof PropertyAnimationImplementation_t = 4"
  "wf_type ScrollLayerCallback_t" "sizeof ScrollLayerCallback_t = 4" "alignof ScrollLayerCallback_t = 4"
  by (simp_all add: pebble_layout align_up_def PropertyAnimationImplementation_t_def ScrollLayerCallback_t_def)

lemma layout_32 [pebble_layout]:
  "wf_type ScrollLayerCallbacks_t" "sizeof ScrollLayerCallbacks_t = 8" "alignof ScrollLayerCallbacks_t = 4"
  "wf_type ContentIndicatorDirection_t" "sizeof ContentIndicatorDirection_t = 1" "alignof ContentIndicatorDirection_t = 1"
  "wf_type ContentIndicatorConfig_t" "sizeof ContentIndicatorConfig_t = 8" "alignof ContentIndicatorConfig_t = 4"
  "wf_type MenuIndex_t" "sizeof MenuIndex_t = 4" "alignof MenuIndex_t = 2"
  by (simp_all add: pebble_layout enum_size_def align_up_def ScrollLayerCallbacks_t_def ContentIndicatorDirection_t_def ContentIndicatorConfig_t_def MenuIndex_t_def)

lemma layout_33 [pebble_layout]:
  "wf_type MenuCellSpan_t" "sizeof MenuCellSpan_t = 10" "alignof MenuCellSpan_t = 2"
  "wf_type MenuLayerGetNumberOfSectionsCallback_t" "sizeof MenuLayerGetNumberOfSectionsCallback_t = 4" "alignof MenuLayerGetNumberOfSectionsCallback_t = 4"
  "wf_type MenuLayerGetNumberOfRowsInSectionsCallback_t" "sizeof MenuLayerGetNumberOfRowsInSectionsCallback_t = 4" "alignof MenuLayerGetNumberOfRowsInSectionsCallback_t = 4"
  "wf_type MenuLayerGetCellHeightCallback_t" "sizeof MenuLayerGetCellHeightCallback_t = 4" "alignof MenuLayerGetCellHeightCallback_t = 4"
  "wf_type MenuLayerGetHeaderHeightCallback_t" "sizeof MenuLayerGetHeaderHeightCallback_t = 4" "alignof MenuLayerGetHeaderHeightCallback_t = 4"
  "wf_type MenuLayerGetSeparatorHeightCallback_t" "sizeof MenuLayerGetSeparatorHeightCallback_t = 4" "alignof MenuLayerGetSeparatorHeightCallback_t = 4"
  "wf_type MenuLayerDrawRowCallback_t" "sizeof MenuLayerDrawRowCallback_t = 4" "alignof MenuLayerDrawRowCallback_t = 4"
  "wf_type MenuLayerDrawHeaderCallback_t" "sizeof MenuLayerDrawHeaderCallback_t = 4" "alignof MenuLayerDrawHeaderCallback_t = 4"
  "wf_type MenuLayerDrawSeparatorCallback_t" "sizeof MenuLayerDrawSeparatorCallback_t = 4" "alignof MenuLayerDrawSeparatorCallback_t = 4"
  "wf_type MenuLayerSelectCallback_t" "sizeof MenuLayerSelectCallback_t = 4" "alignof MenuLayerSelectCallback_t = 4"
  by (simp_all add: pebble_layout align_up_def MenuCellSpan_t_def MenuLayerGetNumberOfSectionsCallback_t_def MenuLayerGetNumberOfRowsInSectionsCallback_t_def MenuLayerGetCellHeightCallback_t_def MenuLayerGetHeaderHeightCallback_t_def
      MenuLayerGetSeparatorHeightCallback_t_def MenuLayerDrawRowCallback_t_def MenuLayerDrawHeaderCallback_t_def MenuLayerDrawSeparatorCallback_t_def MenuLayerSelectCallback_t_def)

lemma layout_34 [pebble_layout]:
  "wf_type MenuLayerSelectionChangedCallback_t" "sizeof MenuLayerSelectionChangedCallback_t = 4" "alignof MenuLayerSelectionChangedCallback_t = 4"
  "wf_type MenuLayerSelectionWillChangeCallback_t" "sizeof MenuLayerSelectionWillChangeCallback_t = 4" "alignof MenuLayerSelectionWillChangeCallback_t = 4"
  "wf_type MenuLayerDrawBackgroundCallback_t" "sizeof MenuLayerDrawBackgroundCallback_t = 4" "alignof MenuLayerDrawBackgroundCallback_t = 4"
  by (simp_all add: pebble_layout MenuLayerSelectionChangedCallback_t_def MenuLayerSelectionWillChangeCallback_t_def MenuLayerDrawBackgroundCallback_t_def)

lemma layout_35 [pebble_layout]:
  "wf_type MenuLayerCallbacks_t" "sizeof MenuLayerCallbacks_t = 52" "alignof MenuLayerCallbacks_t = 4"
  "wf_type MenuRowAlign_t" "sizeof MenuRowAlign_t = 1" "alignof MenuRowAlign_t = 1"
  "wf_type SimpleMenuLayerSelectCallback_t" "sizeof SimpleMenuLayerSelectCallback_t = 4" "alignof SimpleMenuLayerSelectCallback_t = 4"
  by (simp_all add: pebble_layout enum_size_def align_up_def MenuLayerCallbacks_t_def MenuRowAlign_t_def SimpleMenuLayerSelectCallback_t_def)

lemma layout_36 [pebble_layout]:
  "wf_type SimpleMenuItem_t" "sizeof SimpleMenuItem_t = 16" "alignof SimpleMenuItem_t = 4"
  by (simp_all add: pebble_layout align_up_def SimpleMenuItem_t_def)

lemma layout_37 [pebble_layout]:
  "wf_type SimpleMenuSection_t" "sizeof SimpleMenuSection_t = 12" "alignof SimpleMenuSection_t = 4"
  "wf_type ActionBarLayerIconPressAnimation_t" "sizeof ActionBarLayerIconPressAnimation_t = 1" "alignof ActionBarLayerIconPressAnimation_t = 1"
  "wf_type StatusBarLayerSeparatorMode_t" "sizeof StatusBarLayerSeparatorMode_t = 1" "alignof StatusBarLayerSeparatorMode_t = 1"
  "wf_type NumberWindowCallback_t" "sizeof NumberWindowCallback_t = 4" "alignof NumberWindowCallback_t = 4"
  by (simp_all add: pebble_layout enum_size_def align_up_def SimpleMenuSection_t_def ActionBarLayerIconPressAnimation_t_def StatusBarLayerSeparatorMode_t_def NumberWindowCallback_t_def)

lemma layout_38 [pebble_layout]:
  "wf_type NumberWindowCallbacks_t" "sizeof NumberWindowCallbacks_t = 12" "alignof NumberWindowCallbacks_t = 4"
  "wf_type ActionMenuAlign_t" "sizeof ActionMenuAlign_t = 1" "alignof ActionMenuAlign_t = 1"
  "wf_type ActionMenuDidCloseCb_t" "sizeof ActionMenuDidCloseCb_t = 4" "alignof ActionMenuDidCloseCb_t = 4"
  "wf_type ActionMenuLevelDisplayMode_t" "sizeof ActionMenuLevelDisplayMode_t = 1" "alignof ActionMenuLevelDisplayMode_t = 1"
  "wf_type ActionMenuPerformActionCb_t" "sizeof ActionMenuPerformActionCb_t = 4" "alignof ActionMenuPerformActionCb_t = 4"
  "wf_type ActionMenuEachItemCb_t" "sizeof ActionMenuEachItemCb_t = 4" "alignof ActionMenuEachItemCb_t = 4"
  by (simp_all add: pebble_layout enum_size_def align_up_def NumberWindowCallbacks_t_def ActionMenuAlign_t_def ActionMenuDidCloseCb_t_def ActionMenuLevelDisplayMode_t_def ActionMenuPerformActionCb_t_def
      ActionMenuEachItemCb_t_def)

lemma layout_39 [pebble_layout]:
  "wf_type ActionMenuConfig_t" "sizeof ActionMenuConfig_t = 24" "alignof ActionMenuConfig_t = 4"
  "wf_type VibePattern_t" "sizeof VibePattern_t = 8" "alignof VibePattern_t = 4"
  "wf_type tm_t" "sizeof tm_t = 48" "alignof tm_t = 4"
  by (simp_all add: pebble_layout align_up_def ActionMenuConfig_t_def VibePattern_t_def tm_t_def)

section \<open>Every declaration\<close>

lemma pebble_structs_wf: "t \<in> set pebble_structs \<Longrightarrow> wf_type t"
  by (auto simp: pebble_structs_def pebble_layout)

text \<open>Only the results of messages need more than a byte.\<close>

lemma pebble_enums_small: "t \<in> set pebble_enums \<Longrightarrow> sizeof t \<le> 2"
  by (auto simp: pebble_enums_def pebble_layout)

definition proto_wf :: "proto \<Rightarrow> bool" where
  "proto_wf p \<longleftrightarrow> list_all wf_type (pargs p) \<and> (pret p = Void \<or> wf_type (pret p))"

lemma api_wf_1:
  "list_all proto_wf api_Internationalization"
  "list_all proto_wf api_WatchInfo"
  "list_all proto_wf api_Math"
  "list_all proto_wf api_WallTime"
  "list_all proto_wf api_ConnectionService"
  "list_all proto_wf api_AppFocusService"
  "list_all proto_wf api_BatteryStateService"
  "list_all proto_wf api_AccelerometerService"
  "list_all proto_wf api_CompassService"
  by (simp_all add: proto_wf_def pebble_layout
      api_Internationalization_def api_WatchInfo_def api_Math_def api_WallTime_def api_ConnectionService_def
      api_AppFocusService_def api_BatteryStateService_def api_AccelerometerService_def api_CompassService_def)

lemma api_wf_2:
  "list_all proto_wf api_TickTimerService"
  "list_all proto_wf api_HealthService"
  "list_all proto_wf api_HealthService2"
  "list_all proto_wf api_DataLogging"
  "list_all proto_wf api_UUID"
  "list_all proto_wf api_Logging"
  "list_all proto_wf api_Dictionary"
  "list_all proto_wf api_Dictionary2"
  "list_all proto_wf api_Dictation"
  by (simp_all add: proto_wf_def pebble_layout
      api_TickTimerService_def api_HealthService_def api_HealthService2_def api_DataLogging_def api_UUID_def
      api_Logging_def api_Dictionary_def api_Dictionary2_def api_Dictation_def)

lemma api_wf_3:
  "list_all proto_wf api_AppMessage"
  "list_all proto_wf api_AppMessage2"
  "list_all proto_wf api_AppSync"
  "list_all proto_wf api_Resources"
  "list_all proto_wf api_App"
  "list_all proto_wf api_AppWorker"
  "list_all proto_wf api_AppComm"
  "list_all proto_wf api_Timer"
  "list_all proto_wf api_MemoryManagement"
  by (simp_all add: proto_wf_def pebble_layout
      api_AppMessage_def api_AppMessage2_def api_AppSync_def api_Resources_def api_App_def
      api_AppWorker_def api_AppComm_def api_Timer_def api_MemoryManagement_def)

lemma api_wf_4:
  "list_all proto_wf api_Storage"
  "list_all proto_wf api_Wakeup"
  "list_all proto_wf api_LaunchReason"
  "list_all proto_wf api_GraphicsTypes"
  "list_all proto_wf api_GraphicsTypes2"
  "list_all proto_wf api_GraphicsTypes3"
  "list_all proto_wf api_GraphicsTypes4"
  "list_all proto_wf api_GraphicsContext"
  "list_all proto_wf api_Drawing"
  by (simp_all add: proto_wf_def pebble_layout
      api_Storage_def api_Wakeup_def api_LaunchReason_def api_GraphicsTypes_def api_GraphicsTypes2_def
      api_GraphicsTypes3_def api_GraphicsTypes4_def api_GraphicsContext_def api_Drawing_def)

lemma api_wf_5:
  "list_all proto_wf api_Drawing2"
  "list_all proto_wf api_DrawCommand"
  "list_all proto_wf api_DrawCommand2"
  "list_all proto_wf api_PathDrawing"
  "list_all proto_wf api_Fonts"
  "list_all proto_wf api_TextDrawing"
  "list_all proto_wf api_Smartstrap"
  "list_all proto_wf api_Clicks"
  "list_all proto_wf api_Layer"
  by (simp_all add: proto_wf_def pebble_layout
      api_Drawing2_def api_DrawCommand_def api_DrawCommand2_def api_PathDrawing_def api_Fonts_def
      api_TextDrawing_def api_Smartstrap_def api_Clicks_def api_Layer_def)

lemma api_wf_6:
  "list_all proto_wf api_Layer2"
  "list_all proto_wf api_Window"
  "list_all proto_wf api_WindowStack"
  "list_all proto_wf api_Animation"
  "list_all proto_wf api_Animation2"
  "list_all proto_wf api_Animation3"
  "list_all proto_wf api_PropertyAnimation"
  "list_all proto_wf api_PropertyAnimation2"
  "list_all proto_wf api_TextLayer"
  by (simp_all add: proto_wf_def pebble_layout
      api_Layer2_def api_Window_def api_WindowStack_def api_Animation_def api_Animation2_def
      api_Animation3_def api_PropertyAnimation_def api_PropertyAnimation2_def api_TextLayer_def)

lemma api_wf_7:
  "list_all proto_wf api_ScrollLayer"
  "list_all proto_wf api_ScrollLayer2"
  "list_all proto_wf api_MenuLayer"
  "list_all proto_wf api_MenuLayer2"
  "list_all proto_wf api_MenuLayer3"
  "list_all proto_wf api_SimpleMenuLayer"
  "list_all proto_wf api_ActionBarLayer"
  "list_all proto_wf api_StatusBarLayer"
  "list_all proto_wf api_BitmapLayer"
  by (simp_all add: proto_wf_def pebble_layout
      api_ScrollLayer_def api_ScrollLayer2_def api_MenuLayer_def api_MenuLayer2_def api_MenuLayer3_def
      api_SimpleMenuLayer_def api_ActionBarLayer_def api_StatusBarLayer_def api_BitmapLayer_def)

lemma api_wf_8:
  "list_all proto_wf api_RotBitmapLayer"
  "list_all proto_wf api_NumberWindow"
  "list_all proto_wf api_ActionMenu"
  "list_all proto_wf api_Vibes"
  "list_all proto_wf api_Light"
  "list_all proto_wf api_StandardTime"
  by (simp_all add: proto_wf_def pebble_layout
      api_RotBitmapLayer_def api_NumberWindow_def api_ActionMenu_def api_Vibes_def api_Light_def
      api_StandardTime_def)

lemmas api_wf = api_wf_1 api_wf_2 api_wf_3 api_wf_4 api_wf_5 api_wf_6 api_wf_7 api_wf_8

lemma pebble_api_wf: "p \<in> set pebble_api \<Longrightarrow> proto_wf p"
  using api_wf unfolding pebble_api_def list_all_iff by auto

end
