(* ===== verification/Stubs.thy ===== *)
theory Stubs
  imports Patch_Refine Pebble_Layout
begin

text \<open>
  The hooks written in assembly, \<^verbatim>\<open>runtime/patch.S\<close> and the code \<^verbatim>\<open>patch.py\<close> assembles, on the registers
  and the stack of the processor, with the arguments where the prototypes of \<^verbatim>\<open>runtime/pebble.h\<close>
  put them.  A word is a number or a pointer into the block that holds the text; \<open>world\<close> is the
  memory the called routines work on; the stack is the words from \<open>stack_floor\<close> up.
\<close>

section \<open>The processor\<close>

datatype val = VInt u32 | VText nat

record 'w cpu =
  rg :: "nat \<Rightarrow> val"
  sp :: nat
  stack_floor :: nat
  words :: "nat \<Rightarrow> val"
  world :: 'w

text \<open>The instructions the hooks use; registers by number, with ip = 12 and lr = 14.\<close>

datatype instr =
    PUSH "nat list"
  | POP "nat list"
  | MOV nat nat
  | MOV_SP nat
  | ADD_SP nat nat
  | LDR nat nat
  | LDR_SP nat nat
  | STR_SP nat nat
  | BL string
  | BLX nat
  | B string
  | POP_ip_pc

datatype leave = Jump string | Return val

text \<open>\<open>PUSH\<close> stores the lowest register at the lowest address.\<close>

fun store_words :: "nat \<Rightarrow> val list \<Rightarrow> (nat \<Rightarrow> val) \<Rightarrow> nat \<Rightarrow> val" where
  "store_words a [] f = f"
| "store_words a (v # vs) f = store_words (a + 4) vs (f(a := v))"

fun load_words :: "nat \<Rightarrow> nat list \<Rightarrow> (nat \<Rightarrow> val) \<Rightarrow> (nat \<Rightarrow> val) \<Rightarrow> nat \<Rightarrow> val" where
  "load_words a [] f r = r"
| "load_words a (k # ks) f r = load_words (a + 4) ks f (r(k := f a))"

text \<open>
  A call under the procedure call standard: the routine gets r0 to r3 and sp and works on the world;
  afterwards r0 is its result, if it has one; what else it leaves in the scratch registers, on the
  stack below sp and in the words under the stack is up to \<open>junk\<close> and \<open>junk_words\<close>.  The words
  from sp up belong to its callers.
\<close>

type_synonym 'w routine = "val \<Rightarrow> val \<Rightarrow> val \<Rightarrow> val \<Rightarrow> 'w \<Rightarrow> (val option \<times> 'w) option"

definition call_routine :: "('w cpu \<Rightarrow> nat \<Rightarrow> val) \<Rightarrow> ('w cpu \<Rightarrow> nat \<Rightarrow> val) \<Rightarrow> 'w routine \<Rightarrow> 'w cpu \<Rightarrow> 'w cpu option" where
  "call_routine junk junk_words f s = do {
     (r, w) \<leftarrow> f (rg s 0) (rg s 1) (rg s 2) (rg s 3) (world s);
     Some (s\<lparr>rg := (\<lambda>i. if i = 0 then (case r of Some v \<Rightarrow> v | None \<Rightarrow> junk s 0)
                      else if i \<in> {1, 2, 3, 12, 14} then junk s i else rg s i),
             words := (\<lambda>a. if a < sp s then junk_words s a else words s a),
             world := w\<rparr>)
   }"

fun exec :: "('w cpu \<Rightarrow> nat \<Rightarrow> val) \<Rightarrow> ('w cpu \<Rightarrow> nat \<Rightarrow> val) \<Rightarrow> (string \<Rightarrow> 'w routine) \<Rightarrow> (val \<Rightarrow> 'w routine) \<Rightarrow> instr list \<Rightarrow> 'w cpu
    \<Rightarrow> (leave \<times> 'w cpu) option" where
  "exec jr js F H [] s = None"
| "exec jr js F H (PUSH ks # is) s =
     (if sp s < 4 * length ks then None
      else let a = sp s - 4 * length ks in
        exec jr js F H is (s\<lparr>words := store_words a (map (rg s) ks) (words s), sp := a\<rparr>))"
| "exec jr js F H (POP ks # is) s =
     exec jr js F H is (s\<lparr>rg := load_words (sp s) ks (words s) (rg s), sp := sp s + 4 * length ks\<rparr>)"
| "exec jr js F H (MOV d k # is) s = exec jr js F H is (s\<lparr>rg := (rg s)(d := rg s k)\<rparr>)"
| "exec jr js F H (MOV_SP d # is) s = exec jr js F H is (s\<lparr>rg := (rg s)(d := VInt (of_nat (sp s)))\<rparr>)"
| "exec jr js F H (ADD_SP d n # is) s = exec jr js F H is (s\<lparr>rg := (rg s)(d := VInt (of_nat (sp s + n)))\<rparr>)"
| "exec jr js F H (LDR d k # is) s =
     (case rg s k of VInt a \<Rightarrow> exec jr js F H is (s\<lparr>rg := (rg s)(d := words s (unat a))\<rparr>) | VText p \<Rightarrow> None)"
| "exec jr js F H (LDR_SP d n # is) s = exec jr js F H is (s\<lparr>rg := (rg s)(d := words s (sp s + n))\<rparr>)"
| "exec jr js F H (STR_SP d n # is) s = exec jr js F H is (s\<lparr>words := (words s)(sp s + n := rg s d)\<rparr>)"
| "exec jr js F H (BL l # is) s = do { s \<leftarrow> call_routine jr js (F l) s; exec jr js F H is s }"
| "exec jr js F H (BLX k # is) s = do { s \<leftarrow> call_routine jr js (H (rg s k)) s; exec jr js F H is s }"
| "exec jr js F H (B l # is) s = Some (Jump l, s)"
| "exec jr js F H (POP_ip_pc # is) s =
     Some (Return (words s (sp s + 4)), s\<lparr>rg := (rg s)(12 := words s (sp s)), sp := sp s + 8\<rparr>)"

section \<open>The hooks\<close>

definition saved :: "nat list" where
  "saved = [0, 1, 2, 3, 12, 14]"

definition get_content_size_with_attributes_asm :: "instr list" where
  "get_content_size_with_attributes_asm =
     [PUSH saved, BL ''shape_text'', POP saved,
      B ''graphics_text_layout_get_content_size_with_attributes_patch__passthru'']"

definition graphics_draw_text_asm :: "instr list" where
  "graphics_draw_text_asm =
     [PUSH saved, MOV 0 1, BL ''shape_text'', POP saved,
      PUSH saved, MOV 0 1, LDR_SP 1 32, BL ''gdt_alignment_step'', STR_SP 0 32, POP saved,
      B ''graphics_draw_text_patch__passthru'']"

text \<open>
  The routines of the runtime as called from assembly.  The alignment travels as the number of its
  enumerator; \<open>gdt_alignment_step\<close> compares that number with the one of left alignment.
\<close>

definition enumerator :: "ctype \<Rightarrow> string \<Rightarrow> int option" where
  "enumerator t x = (case t of CEnum es \<Rightarrow> map_of (enum_values 0 es) x | _ \<Rightarrow> None)"

primrec alignment_name :: "GTextAlignment \<Rightarrow> string" where
  "alignment_name GTextAlignmentLeft = ''GTextAlignmentLeft''"
| "alignment_name GTextAlignmentCenter = ''GTextAlignmentCenter''"
| "alignment_name GTextAlignmentRight = ''GTextAlignmentRight''"

definition alignment_word :: "GTextAlignment \<Rightarrow> u32" where
  "alignment_word a = word_of_int (the (enumerator GTextAlignment_t (alignment_name a)))"

fun shape_text_routine :: "tables \<Rightarrow> mem routine" where
  "shape_text_routine T (VText p) r1 r2 r3 m = do { m \<leftarrow> shape_text T m p; Some (None, m) }"
| "shape_text_routine T (VInt w) r1 r2 r3 m = None"

fun gdt_alignment_routine :: "tables \<Rightarrow> mem routine" where
  "gdt_alignment_routine T (VText p) (VInt a) r2 r3 m =
     (if a = alignment_word GTextAlignmentLeft
      then do { al \<leftarrow> gdt_alignment_step T m p GTextAlignmentLeft; Some (Some (VInt (alignment_word al)), m) }
      else Some (Some (VInt a), m))"
| "gdt_alignment_routine T _ _ r2 r3 m = None"

fun unshape_text_routine :: "tables \<Rightarrow> mem routine" where
  "unshape_text_routine T (VText p) r1 r2 r3 m = do { m \<leftarrow> unshape_text T m p; Some (None, m) }"
| "unshape_text_routine T (VInt w) r1 r2 r3 m = None"

definition runtime :: "tables \<Rightarrow> string \<Rightarrow> mem routine" where
  "runtime T l =
     (if l = ''shape_text'' then shape_text_routine T
      else if l = ''gdt_alignment_step'' then gdt_alignment_routine T
      else if l = ''unshape_text'' then unshape_text_routine T
      else (\<lambda>_ _ _ _ _. None))"

text \<open>
  \<open>unshape_asm\<close> in \<^verbatim>\<open>patch.py\<close>: the text pointer is fetched from the frame of the drawing routine,
  then come the instructions of the firmware it overwrote, which leave that frame (\<open>epilogue\<close>),
  then the call; the last instruction returns to the caller of the drawing routine.
\<close>

definition graphics_draw_text_unshape_asm :: "instr list" where
  "graphics_draw_text_unshape_asm = [PUSH [12, 14], BL ''unshape_text'', POP_ip_pc]"

definition graphics_draw_text_unshape ::
  "('w cpu \<Rightarrow> nat \<Rightarrow> val) \<Rightarrow> ('w cpu \<Rightarrow> nat \<Rightarrow> val) \<Rightarrow> (string \<Rightarrow> 'w routine) \<Rightarrow> (val \<Rightarrow> 'w routine) \<Rightarrow>
     nat \<Rightarrow> ('w cpu \<Rightarrow> 'w cpu) \<Rightarrow> 'w cpu \<Rightarrow> (leave \<times> 'w cpu) option" where
  "graphics_draw_text_unshape jr js F H text_struct_sp_off epilogue s =
     exec jr js F H graphics_draw_text_unshape_asm
       (epilogue (s\<lparr>rg := (rg s)(0 := words s (sp s + text_struct_sp_off))\<rparr>))"

text \<open>\<open>render_wrap_asm\<close> in \<^verbatim>\<open>patch.py\<close>, for the registers and the offset it found in the firmware.\<close>

definition render_wrap_asm :: "nat \<Rightarrow> nat \<Rightarrow> nat \<Rightarrow> nat \<Rightarrow> instr list" where
  "render_wrap_asm layout_reg more_text_reg hdlr_reg arg3_sp_off =
     [PUSH [0, 1, 2, 3], LDR 0 layout_reg, MOV 1 more_text_reg, ADD_SP 2 16, BL ''render_rtl_step'',
      POP [0, 1, 2, 3], LDR_SP 2 arg3_sp_off, BLX hdlr_reg,
      LDR 0 layout_reg, MOV 1 more_text_reg, MOV_SP 2, BL ''render_rtl_step'', B ''render_wrap__return'']"

section \<open>Where the arguments are\<close>

definition arg_word :: "'w cpu \<Rightarrow> nat \<Rightarrow> val" where
  "arg_word s n = (case slot_location n of Register k \<Rightarrow> rg s k | Stack k \<Rightarrow> words s (sp s + k))"

definition declared :: "string \<Rightarrow> proto list \<Rightarrow> proto" where
  "declared x ps = the (find (\<lambda>p. pname p = x) ps)"

abbreviation draw_text_proto :: proto where
  "draw_text_proto \<equiv> declared ''graphics_draw_text'' api_TextDrawing"

lemma draw_text_slots: "call_slots draw_text_proto = [[0], [1], [2], [3, 4], [5], [6], [7]]"
  by (simp add: declared_def api_TextDrawing_def call_slots_def arg_words_def pebble_layout)

lemma alignment_word_simps:
  "alignment_word GTextAlignmentLeft = 0" "alignment_word GTextAlignmentCenter = 1"
  "alignment_word GTextAlignmentRight = 2"
  by (simp_all add: alignment_word_def enumerator_def GTextAlignment_t_def)

lemma alignment_word_left: "alignment_word a = alignment_word GTextAlignmentLeft \<longleftrightarrow> a = GTextAlignmentLeft"
  by (cases a) (simp_all add: alignment_word_simps)

section \<open>Saving registers around a call\<close>

lemma store_words_other: "b < a \<or> a + 4 * length vs \<le> b \<Longrightarrow> store_words a vs f b = f b"
  by (induction vs arbitrary: a f) auto

lemma store_words_at: "i < length vs \<Longrightarrow> store_words a vs f (a + 4 * i) = vs ! i"
proof (induction vs arbitrary: a f i)
  case (Cons v vs)
  show ?case
  proof (cases i)
    case 0
    then show ?thesis by (simp add: store_words_other)
  next
    case (Suc k)
    then have "store_words (a + 4) vs (f(a := v)) (a + 4 + 4 * k) = vs ! k" using Cons.IH Cons.prems by force
    moreover have "a + 4 * i = a + 4 + 4 * k" using Suc by simp
    ultimately show ?thesis using Suc by (simp only: store_words.simps nth_Cons_Suc)
  qed
qed simp

lemma load_words_restore:
  "\<forall>i < length ks. f (a + 4 * i) = g (ks ! i) \<Longrightarrow> \<forall>k. k \<notin> set ks \<longrightarrow> r k = g k \<Longrightarrow> load_words a ks f r = g"
proof (induction ks arbitrary: a r)
  case (Cons k ks)
  have f: "f (a + 4 * i) = g ((k # ks) ! i)" if "i < length (k # ks)" for i using Cons.prems(1) that by simp
  have "\<forall>i < length ks. f (a + 4 + 4 * i) = g (ks ! i)"
  proof (intro allI impI)
    fix i assume "i < length ks"
    then show "f (a + 4 + 4 * i) = g (ks ! i)" using f [of "Suc i"] by (simp add: algebra_simps)
  qed
  moreover have "\<forall>j. j \<notin> set ks \<longrightarrow> (r(k := f a)) j = g j" using f [of 0] Cons.prems(2) by auto
  ultimately show ?case using Cons.IH [of "a + 4" "r(k := f a)"] by (simp only: load_words.simps)
qed (auto simp: fun_eq_iff)

text \<open>
  Registers pushed, a routine called, registers popped: nothing is lost, whatever the routine leaves
  behind.  In between an instruction may set up arguments, and one may store the result above the
  saved registers.
\<close>

lemma saved_length: "length saved = 6" by (simp add: saved_def)

definition pushed :: "'w cpu \<Rightarrow> 'w cpu" where
  "pushed s = s\<lparr>words := store_words (sp s - 24) (map (rg s) saved) (words s), sp := sp s - 24\<rparr>"

lemma exec_PUSH_saved: "24 \<le> sp s \<Longrightarrow> exec jr js F H (PUSH saved # is) s = exec jr js F H is (pushed s)"
  by (simp add: pushed_def saved_length Let_def)

lemma pushed_above: "24 \<le> sp s \<Longrightarrow> sp s \<le> b \<Longrightarrow> words (pushed s) b = words s b"
  by (simp add: pushed_def store_words_other saved_length)

lemma pushed_simps [simp]: "rg (pushed s) = rg s" "sp (pushed s) = sp s - 24" "world (pushed s) = world s"
  by (simp_all add: pushed_def)

text \<open>After the call: the frame is still there, and registers other than the saved ones were never touched.\<close>

definition in_frame :: "'w cpu \<Rightarrow> 'w cpu \<Rightarrow> bool" where
  "in_frame s t \<longleftrightarrow> sp t = sp s - 24 \<and> (\<forall>k. k \<notin> set saved \<longrightarrow> rg t k = rg s k) \<and>
     (\<forall>i < 6. words t (sp s - 24 + 4 * i) = rg s (saved ! i))"

lemma in_frame_pushed: "in_frame s (pushed s)"
  using store_words_at [of _ "map (rg s) saved"] by (simp add: in_frame_def pushed_def saved_length)

lemma in_frame_set: "in_frame s t \<Longrightarrow> d \<in> set saved \<Longrightarrow> in_frame s (t\<lparr>rg := (rg t)(d := v)\<rparr>)"
  by (auto simp: in_frame_def)

lemma in_frame_store:
  "in_frame s t \<Longrightarrow> 24 \<le> sp s \<Longrightarrow> sp s \<le> b \<Longrightarrow> in_frame s (t\<lparr>words := (words t)(b := v)\<rparr>)"
  by (auto simp: in_frame_def)

lemma in_frame_call:
  assumes "in_frame s t" "f (rg t 0) (rg t 1) (rg t 2) (rg t 3) (world t) = Some (r, w)"
  obtains t' where "call_routine jr js f t = Some t'" "in_frame s t'" "world t' = w"
    "rg t' 0 = (case r of Some v \<Rightarrow> v | None \<Rightarrow> jr t 0)" "\<And>b. sp s - 24 \<le> b \<Longrightarrow> words t' b = words t b"
proof -
  let ?t = "t\<lparr>rg := (\<lambda>i. if i = 0 then (case r of Some v \<Rightarrow> v | None \<Rightarrow> jr t 0)
                      else if i \<in> {1, 2, 3, 12, 14} then jr t i else rg t i),
             words := (\<lambda>a. if a < sp t then js t a else words t a), world := w\<rparr>"
  have "call_routine jr js f t = Some ?t" using assms(2) by (simp add: call_routine_def)
  moreover have "in_frame s ?t" using assms(1) by (auto simp: in_frame_def saved_def)
  moreover have "words ?t b = words t b" if "sp s - 24 \<le> b" for b using assms(1) that by (simp add: in_frame_def)
  ultimately show ?thesis by (intro that [of ?t]) simp_all
qed

lemma exec_POP_saved:
  assumes "in_frame s t" "24 \<le> sp s"
  shows "exec jr js F H (POP saved # is) t = exec jr js F H is (t\<lparr>rg := rg s, sp := sp s\<rparr>)"
proof -
  have "load_words (sp t) saved (words t) (rg t) = rg s"
    by (rule load_words_restore) (use assms(1) in \<open>auto simp: in_frame_def saved_length\<close>)
  then show ?thesis using assms by (simp add: in_frame_def saved_length)
qed

section \<open>What a hook promises\<close>

text \<open>
  A hook in front of a function of the firmware leaves registers and stack pointer as it found them and
  the argument words too, but for those it is there to change.  Then, whatever the prototype of the
  function, every argument that has none of these words arrives as it was passed.
\<close>

locale argument_hook =
  fixes run :: "'w cpu \<Rightarrow> (leave \<times> 'w cpu) option" and changed :: "nat set" and ready :: "'w cpu \<Rightarrow> bool"
  assumes returns: "ready s \<Longrightarrow> \<exists>l s'. run s = Some (l, s')"
    and registers: "ready s \<Longrightarrow> run s = Some (l, s') \<Longrightarrow> rg s' = rg s \<and> sp s' = sp s"
    and arguments: "ready s \<Longrightarrow> run s = Some (l, s') \<Longrightarrow> n \<notin> changed \<Longrightarrow> arg_word s' n = arg_word s n"
begin

lemma argument_kept:
  assumes "ready s" "run s = Some (l, s')" "i < length (call_slots p)" "set (call_slots p ! i) \<inter> changed = {}"
  shows "received_args p (arg_word s') ! i = received_args p (arg_word s) ! i"
  using assms arguments [OF assms(1,2)] by (auto simp: received_args_def)

lemma all_kept:
  assumes "ready s" "run s = Some (l, s')" "set (concat (call_slots p)) \<inter> changed = {}"
  shows "received_args p (arg_word s') = received_args p (arg_word s)"
proof (rule nth_equalityI)
  fix i assume "i < length (received_args p (arg_word s'))"
  then have i: "i < length (call_slots p)" by (simp add: received_args_def)
  then have "set (call_slots p ! i) \<inter> changed = {}" using assms(3) nth_mem by fastforce
  with argument_kept [OF assms(1,2) i] show "received_args p (arg_word s') ! i = received_args p (arg_word s) ! i" .
qed (simp add: received_args_def)

end

text \<open>The words of a state that agrees with another from the stack pointer up.\<close>

lemma arg_word_kept:
  assumes "rg s' = rg s" "sp s' = sp s" "\<And>b. sp s \<le> b \<Longrightarrow> b \<noteq> sp s + k \<Longrightarrow> words s' b = words s b"
    and "slot_location n \<noteq> Stack k"
  shows "arg_word s' n = arg_word s n"
  using assms by (auto simp: arg_word_def split: location.splits)

section \<open>The hooks hand over what they should\<close>

lemma draw_text_stub:
  fixes s :: "mem cpu"
  assumes hook: "graphics_draw_text_patch T (world s) p a = Some (m, a')" and sp: "24 \<le> sp s"
    and args: "received_args draw_text_proto (arg_word s) =
      [[ctx], [VText p], [font], [box0, box1], [mode], [VInt (alignment_word a)], [attrs]]"
  shows "\<exists>s'. exec jr js (runtime T) H graphics_draw_text_asm s = Some (Jump ''graphics_draw_text_patch__passthru'', s') \<and>
     world s' = m \<and> rg s' = rg s \<and> sp s' = sp s \<and>
     received_args draw_text_proto (arg_word s') =
       [[ctx], [VText p], [font], [box0, box1], [mode], [VInt (alignment_word a')], [attrs]] \<and>
     (\<forall>b \<ge> sp s. b \<noteq> sp s + 8 \<longrightarrow> words s' b = words s b)"
proof -
  have arg: "rg s (Suc 0) = VText p" "words s (sp s + 8) = VInt (alignment_word a)"
    using args by (simp_all add: received_args_def draw_text_slots arg_word_def slot_location_def)
  from hook have m: "shape_text T (world s) p = Some m" "gdt_alignment_step T m p a = Some a'"
    by (auto simp: graphics_draw_text_patch_def split: Option.bind_splits)
  have above: "sp s - 24 \<le> b" if "sp s \<le> b" for b using that by simp
  let ?t1 = "pushed s\<lparr>rg := (rg s)(0 := rg s 1)\<rparr>"
  have f1: "in_frame s ?t1" using in_frame_set [OF in_frame_pushed, of 0 s "rg s 1"] by (simp add: saved_def)
  have "shape_text_routine T (rg ?t1 0) (rg ?t1 1) (rg ?t1 2) (rg ?t1 3) (world ?t1) = Some (None, m)"
    by (simp add: arg m)
  from in_frame_call [where f = "shape_text_routine T" and jr = jr and js = js, OF f1 this] obtain t2 where
    t2: "call_routine jr js (shape_text_routine T) ?t1 = Some t2" "in_frame s t2" "world t2 = m"
      and w2: "\<And>b. sp s - 24 \<le> b \<Longrightarrow> words t2 b = words ?t1 b" by blast
  let ?s3 = "t2\<lparr>rg := rg s, sp := sp s\<rparr>"
  have w3: "words ?s3 b = words s b" if "sp s \<le> b" for b
    using w2 [OF above, OF that] pushed_above [OF sp that] by simp
  let ?t4 = "pushed ?s3\<lparr>rg := (rg s)(0 := rg s 1, 1 := words (pushed ?s3) (sp s - 24 + 32))\<rparr>"
  have f4: "in_frame ?s3 ?t4"
    using in_frame_set [OF in_frame_set [OF in_frame_pushed, of 0 ?s3 "rg s 1"], of 1] by (simp add: saved_def)
  have "words (pushed ?s3) (sp s - 24 + 32) = VInt (alignment_word a)"
    using pushed_above [of ?s3 "sp s + 8"] w3 [of "sp s + 8"] sp arg(2) by (simp add: algebra_simps)
  then have "gdt_alignment_routine T (rg ?t4 0) (rg ?t4 1) (rg ?t4 2) (rg ?t4 3) (world ?t4) = Some (Some (VInt (alignment_word a')), m)"
    using m(2) arg(1) t2(3) by (cases "a = GTextAlignmentLeft") (simp_all add: alignment_word_left gdt_alignment_step_def)
  from in_frame_call [where f = "gdt_alignment_routine T" and jr = jr and js = js, OF f4 this] obtain t5 where
    t5: "call_routine jr js (gdt_alignment_routine T) ?t4 = Some t5" "in_frame ?s3 t5" "world t5 = m"
      "rg t5 0 = VInt (alignment_word a')" and w5: "\<And>b. sp s - 24 \<le> b \<Longrightarrow> words t5 b = words ?t4 b" by auto
  let ?t6 = "t5\<lparr>words := (words t5)(sp s + 8 := VInt (alignment_word a'))\<rparr>"
  have f6: "in_frame ?s3 ?t6" using in_frame_store [OF t5(2)] sp by simp
  let ?s' = "?t6\<lparr>rg := rg s, sp := sp s\<rparr>"
  have w: "words ?s' b = words s b" if "sp s \<le> b" "b \<noteq> sp s + 8" for b
    using that w5 [OF above, of b] pushed_above [of ?s3 b] w3 [of b] sp by simp
  have "exec jr js (runtime T) H graphics_draw_text_asm s = Some (Jump ''graphics_draw_text_patch__passthru'', ?s')"
  proof -
    have "exec jr js (runtime T) H graphics_draw_text_asm s = exec jr js (runtime T) H (drop 2 graphics_draw_text_asm) ?t1"
      by (simp add: graphics_draw_text_asm_def exec_PUSH_saved [OF sp] del: exec.simps(2))
    also have "\<dots> = exec jr js (runtime T) H (drop 4 graphics_draw_text_asm) ?s3"
      using t2(1) exec_POP_saved [OF t2(2) sp] by (simp add: graphics_draw_text_asm_def runtime_def del: exec.simps(3))
    also have "\<dots> = exec jr js (runtime T) H (drop 7 graphics_draw_text_asm) ?t4"
      using sp by (simp add: graphics_draw_text_asm_def exec_PUSH_saved del: exec.simps(2))
    also have "\<dots> = exec jr js (runtime T) H (drop 9 graphics_draw_text_asm) ?t6"
      using t5 sp by (simp add: graphics_draw_text_asm_def runtime_def in_frame_def add.commute del: exec.simps(3))
    also have "\<dots> = Some (Jump ''graphics_draw_text_patch__passthru'', ?s')"
      using exec_POP_saved [OF f6] sp by (simp add: graphics_draw_text_asm_def del: exec.simps(3))
    finally show ?thesis .
  qed
  moreover have "received_args draw_text_proto (arg_word ?s') =
      [[ctx], [VText p], [font], [box0, box1], [mode], [VInt (alignment_word a')], [attrs]]"
    using args w by (simp add: received_args_def draw_text_slots arg_word_def slot_location_def)
  ultimately show ?thesis using w t5(3) by (intro exI [of _ ?s']) simp
qed

abbreviation content_size_proto :: proto where
  "content_size_proto \<equiv> declared ''graphics_text_layout_get_content_size_with_attributes'' api_TextDrawing"

lemma GSize_in_register: "\<not> by_address GSize_t"
  by (simp add: GSize_t_def align_up_def)

lemma content_size_slots: "call_slots content_size_proto = [[0], [1], [2, 3], [4], [5], [6]]"
  by (simp add: GSize_in_register declared_def api_TextDrawing_def call_slots_def arg_words_def pebble_layout)

lemma content_size_stub:
  fixes s :: "mem cpu"
  assumes shape: "shape_text T (world s) p = Some m" and sp: "24 \<le> sp s"
    and recv: "received_args content_size_proto (arg_word s) = [VText p] # args"
  shows "\<exists>s'. exec jr js (runtime T) H get_content_size_with_attributes_asm s =
       Some (Jump ''graphics_text_layout_get_content_size_with_attributes_patch__passthru'', s') \<and>
     world s' = m \<and> rg s' = rg s \<and> sp s' = sp s \<and>
     received_args content_size_proto (arg_word s') = [VText p] # args \<and> (\<forall>b \<ge> sp s. words s' b = words s b)"
proof -
  have arg: "rg s 0 = VText p"
    using recv by (simp add: received_args_def content_size_slots arg_word_def slot_location_def)
  have "shape_text_routine T (rg (pushed s) 0) (rg (pushed s) 1) (rg (pushed s) 2) (rg (pushed s) 3) (world (pushed s)) = Some (None, m)"
    by (simp add: arg shape)
  from in_frame_call [where f = "shape_text_routine T" and jr = jr and js = js, OF in_frame_pushed this] obtain t where
    t: "call_routine jr js (shape_text_routine T) (pushed s) = Some t" "in_frame s t" "world t = m"
      and w: "\<And>b. sp s - 24 \<le> b \<Longrightarrow> words t b = words (pushed s) b" by blast
  let ?s' = "t\<lparr>rg := rg s, sp := sp s\<rparr>"
  have above: "words ?s' b = words s b" if "sp s \<le> b" for b using w [of b] pushed_above [OF sp that] that by simp
  have "exec jr js (runtime T) H get_content_size_with_attributes_asm s =
      Some (Jump ''graphics_text_layout_get_content_size_with_attributes_patch__passthru'', ?s')"
    using t exec_POP_saved [OF t(2) sp] exec_PUSH_saved [OF sp]
    by (simp add: get_content_size_with_attributes_asm_def runtime_def del: exec.simps(2,3))
  moreover have "received_args content_size_proto (arg_word ?s') = [VText p] # args"
    using recv above by (simp add: received_args_def content_size_slots arg_word_def slot_location_def)
  ultimately show ?thesis using above t(3) by (intro exI [of _ ?s']) simp
qed

text \<open>The two hooks keep this promise: the drawing hook changes word 6, the alignment, the other none.\<close>

definition draw_ready :: "tables \<Rightarrow> mem cpu \<Rightarrow> bool" where
  "draw_ready T s \<longleftrightarrow> 24 \<le> sp s \<and> (\<exists>p a. rg s 1 = VText p \<and> words s (sp s + 8) = VInt (alignment_word a) \<and>
     graphics_draw_text_patch T (world s) p a \<noteq> None)"

definition measure_ready :: "tables \<Rightarrow> mem cpu \<Rightarrow> bool" where
  "measure_ready T s \<longleftrightarrow> 24 \<le> sp s \<and> (\<exists>p. rg s 0 = VText p \<and> shape_text T (world s) p \<noteq> None)"

lemma draw_ready_run:
  assumes "draw_ready T s"
  obtains s' where "exec jr js (runtime T) H graphics_draw_text_asm s = Some (Jump ''graphics_draw_text_patch__passthru'', s')"
    "rg s' = rg s" "sp s' = sp s" "\<And>b. sp s \<le> b \<Longrightarrow> b \<noteq> sp s + 8 \<Longrightarrow> words s' b = words s b"
proof -
  from assms obtain p a m a' where r: "24 \<le> sp s" "rg s 1 = VText p" "words s (sp s + 8) = VInt (alignment_word a)"
    "graphics_draw_text_patch T (world s) p a = Some (m, a')" by (auto simp: draw_ready_def)
  have "received_args draw_text_proto (arg_word s) = [[rg s 0], [VText p], [rg s 2], [rg s 3, words s (sp s)],
      [words s (sp s + 4)], [VInt (alignment_word a)], [words s (sp s + 12)]]"
    using r(2,3) by (simp add: received_args_def draw_text_slots arg_word_def slot_location_def)
  from draw_text_stub [OF r(4,1) this, of jr js H] that show ?thesis by blast
qed

lemma measure_ready_run:
  assumes "measure_ready T s"
  obtains s' where "exec jr js (runtime T) H get_content_size_with_attributes_asm s =
      Some (Jump ''graphics_text_layout_get_content_size_with_attributes_patch__passthru'', s')"
    "rg s' = rg s" "sp s' = sp s" "\<And>b. sp s \<le> b \<Longrightarrow> words s' b = words s b"
proof -
  from assms obtain p m where r: "24 \<le> sp s" "rg s 0 = VText p" "shape_text T (world s) p = Some m"
    by (auto simp: measure_ready_def)
  have "received_args content_size_proto (arg_word s) = [VText p] # tl (received_args content_size_proto (arg_word s))"
    using r(2) by (simp add: received_args_def content_size_slots arg_word_def slot_location_def)
  from content_size_stub [OF r(3,1) this, of jr js H] that show ?thesis by blast
qed

lemma slot_location_8: "n \<notin> {6} \<Longrightarrow> slot_location n \<noteq> Stack 8"
  by (auto simp: slot_location_def)

interpretation draw_hook: argument_hook "exec jr js (runtime T) H graphics_draw_text_asm" "{6}" "draw_ready T" for jr js T H
proof
  fix s l s' n assume s: "draw_ready T s" "exec jr js (runtime T) H graphics_draw_text_asm s = Some (l, s')"
  have k: "rg s' = rg s" "sp s' = sp s" "\<And>b. sp s \<le> b \<Longrightarrow> b \<noteq> sp s + 8 \<Longrightarrow> words s' b = words s b"
    by (rule draw_ready_run [OF s(1), of jr js H]; use s(2) in simp)+
  then show "rg s' = rg s \<and> sp s' = sp s" by simp
  show "arg_word s' n = arg_word s n" if "n \<notin> {6}" using arg_word_kept [OF k slot_location_8 [OF that]] .
qed (metis draw_ready_run)

interpretation measure_hook: argument_hook "exec jr js (runtime T) H get_content_size_with_attributes_asm" "{}" "measure_ready T"
  for jr js T H
proof
  fix s l s' n assume s: "measure_ready T s" "exec jr js (runtime T) H get_content_size_with_attributes_asm s = Some (l, s')"
  have k: "rg s' = rg s" "sp s' = sp s" "\<And>b. sp s \<le> b \<Longrightarrow> words s' b = words s b"
    by (rule measure_ready_run [OF s(1), of jr js H]; use s(2) in simp)+
  then show "rg s' = rg s \<and> sp s' = sp s" by simp
  show "arg_word s' n = arg_word s n" using k by (simp add: arg_word_def split: location.splits)
qed (metis measure_ready_run)

text \<open>The hook at the end of the drawing routine returns to the caller with the text unshaped.\<close>

lemma unshape_stub:
  fixes s e :: "mem cpu"
  assumes e: "e = epilogue (s\<lparr>rg := (rg s)(0 := words s (sp s + off))\<rparr>)"
    and "words s (sp s + off) = VText p" "unshape_text T (world s) p = Some m"
    and "rg e 0 = VText p" "world e = world s" "8 \<le> sp e"
  shows "\<exists>s'. graphics_draw_text_unshape jr js (runtime T) H off epilogue s = Some (Return (rg e 14), s') \<and>
     world s' = m \<and> sp s' = sp e \<and> (\<forall>k. k \<notin> {0, 1, 2, 3, 14} \<longrightarrow> rg s' k = rg e k) \<and>
     (\<forall>b \<ge> sp e. words s' b = words e b)"
proof -
  obtain n where "sp e = 8 + n" using assms(6) le_Suc_ex by blast
  then show ?thesis using assms(2-6) unfolding graphics_draw_text_unshape_def e [symmetric]
    by (simp add: graphics_draw_text_unshape_asm_def call_routine_def runtime_def Let_def)
qed

text \<open>
  The render wrapper: the step, the firmware's handler as the original code would call it, the step
  again.  The first word of the layout, the line to render, is either on the callers' part of the
  stack or a word under the stack that the called routines leave as it is.  The flag of the second step is what its
  register holds after the handler.
\<close>

definition callee_saved :: "nat set" where
  "callee_saved = {4 .. 11}"

definition flag_after :: "('w cpu \<Rightarrow> nat \<Rightarrow> val) \<Rightarrow> 'w cpu \<Rightarrow> nat \<Rightarrow> val \<Rightarrow> bool" where
  "flag_after jr s k v \<longleftrightarrow> k \<in> callee_saved \<and> v = rg s k \<or> k = 3 \<and> (\<forall>t. jr t 3 = v)"

definition layout_kept :: "('w cpu \<Rightarrow> nat \<Rightarrow> val) \<Rightarrow> 'w cpu \<Rightarrow> nat \<Rightarrow> bool" where
  "layout_kept js s a \<longleftrightarrow> sp s \<le> a \<or> a < stack_floor s \<and> (\<forall>t. js t a = words t a)"

lemma call_routine_keeps:
  assumes "f (rg t 0) (rg t 1) (rg t 2) (rg t 3) (world t) = Some (r, w)"
  obtains t' where "call_routine jr js f t = Some t'" "sp t' = sp t" "world t' = w" "stack_floor t' = stack_floor t"
    "rg t' 3 = jr t 3" "\<And>k. k \<notin> {0, 1, 2, 3, 12, 14} \<Longrightarrow> rg t' k = rg t k"
    "\<And>b. sp t \<le> b \<or> (\<forall>t. js t b = words t b) \<Longrightarrow> words t' b = words t b"
proof
  let ?t = "t\<lparr>rg := (\<lambda>i. if i = 0 then (case r of Some v \<Rightarrow> v | None \<Rightarrow> jr t 0)
                      else if i \<in> {1, 2, 3, 12, 14} then jr t i else rg t i),
             words := (\<lambda>a. if a < sp t then js t a else words t a), world := w\<rparr>"
  show "call_routine jr js f t = Some ?t" using assms by (simp add: call_routine_def)
qed auto

lemma render_stub:
  fixes s :: "'w cpu"
  assumes regs: "layout_reg \<in> callee_saved" "flag_after jr s more_text_reg v" "hdlr_reg \<in> callee_saved \<or> hdlr_reg = 3"
    and sp: "16 \<le> sp s" "stack_floor s \<le> sp s - 16"
    and lay: "rg s layout_reg = VInt la" "words s (unat la) = line" "layout_kept js s (unat la)"
    and step1: "F ''render_rtl_step'' line (rg s more_text_reg) (VInt (of_nat (sp s))) (rg s 3) (world s) = Some (r1, w1)"
    and hdlr: "H (rg s hdlr_reg) (rg s 0) (rg s 1) (words s (sp s + arg3)) (rg s 3) w1 = Some (r2, w2)"
    and step2: "\<And>r3. F ''render_rtl_step'' line v (VInt (of_nat (sp s))) r3 w2 = Some (r4, w3)"
  shows "\<exists>s'. exec jr js F H (render_wrap_asm layout_reg more_text_reg hdlr_reg arg3) s = Some (Jump ''render_wrap__return'', s') \<and>
     world s' = w3 \<and> sp s' = sp s \<and> (\<forall>k \<in> callee_saved. rg s' k = rg s k) \<and> (\<forall>b \<ge> sp s. words s' b = words s b)"
proof -
  let ?run = "exec jr js F H" and ?asm = "render_wrap_asm layout_reg more_text_reg hdlr_reg arg3"
  let ?kept = "\<lambda>b. sp s \<le> b \<or> b < stack_floor s \<and> (\<forall>t. js t b = words t b)"
  obtain n where n: "sp s = n + 16" using sp(1) by (metis add.commute le_Suc_ex)
  have cs: "k \<notin> {0, 1, 2, 3, 12, 14}" if "k \<in> callee_saved" for k using that by (auto simp: callee_saved_def)
  have ne: "layout_reg \<notin> {0, 1, 2, 3, 12, 14}" "more_text_reg \<notin> {0, 1, 2}"
    using cs [OF regs(1)] cs [of more_text_reg] regs(2) by (auto simp: flag_after_def)
  let ?W = "store_words n (map (rg s) [0, 1, 2, 3]) (words s)"
  have W: "?W b = words s b" if "?kept b" for b
    using that sp n by (intro store_words_other) auto
  have la: "?kept (unat la)" using lay(3) by (simp add: layout_kept_def)
  let ?t1 = "s\<lparr>words := ?W, sp := n, rg := (rg s)(0 := line, 1 := rg s more_text_reg, 2 := VInt (of_nat (n + 16)))\<rparr>"
  have "?run ?asm s = ?run (drop 4 ?asm) ?t1"
    using ne lay(1,2) W [OF la] by (simp add: render_wrap_asm_def n Let_def del: store_words.simps)
  moreover have "F ''render_rtl_step'' (rg ?t1 0) (rg ?t1 1) (rg ?t1 2) (rg ?t1 3) (world ?t1) = Some (r1, w1)"
    using step1 n by simp
  from call_routine_keeps [where f = "F ''render_rtl_step''" and jr = jr and js = js, OF this] obtain t2 where
    t2: "call_routine jr js (F ''render_rtl_step'') ?t1 = Some t2" "sp t2 = n" "world t2 = w1"
      and k2: "\<And>k. k \<notin> {0, 1, 2, 3, 12, 14} \<Longrightarrow> rg t2 k = rg ?t1 k"
      and w2: "\<And>b. n \<le> b \<or> (\<forall>t. js t b = words t b) \<Longrightarrow> words t2 b = ?W b" by auto
  have r: "words t2 (n + 4 * i) = rg s i" if "i < 4" for i
    using that w2 [of "n + 4 * i"] store_words_at [of i "map (rg s) [0, 1, 2, 3]" n "words s"]
    by (auto simp: less_Suc_eq numeral_eq_Suc simp del: store_words.simps)
  let ?t3 = "t2\<lparr>sp := n + 16, rg := (rg t2)(0 := rg s 0, 1 := rg s 1, 3 := rg s 3, 2 := words t2 (n + 16 + arg3))\<rparr>"
  have "?run (drop 4 ?asm) ?t1 = ?run (drop 7 ?asm) ?t3"
    using t2(1,2) r [of 0] r [of 1] r [of 2] r [of 3, unfolded add.commute [of n]]
    by (simp add: render_wrap_asm_def del: store_words.simps exec.simps(11))
  moreover have "words t2 (n + 16 + arg3) = words s (sp s + arg3)" using w2 W n by simp
  then have "H (rg s hdlr_reg) (rg ?t3 0) (rg ?t3 1) (rg ?t3 2) (rg ?t3 3) (world ?t3) = Some (r2, w2)"
    using hdlr t2(3) by simp
  from call_routine_keeps [where f = "H (rg s hdlr_reg)" and jr = jr and js = js, OF this] obtain t4 where
    t4: "call_routine jr js (H (rg s hdlr_reg)) ?t3 = Some t4" "sp t4 = n + 16" "world t4 = w2" "rg t4 3 = jr ?t3 3"
      and k4: "\<And>k. k \<notin> {0, 1, 2, 3, 12, 14} \<Longrightarrow> rg t4 k = rg ?t3 k"
      and w4: "\<And>b. n + 16 \<le> b \<or> (\<forall>t. js t b = words t b) \<Longrightarrow> words t4 b = words ?t3 b" by auto
  have kept4: "rg t4 k = rg s k" if "k \<in> callee_saved" for k using cs [OF that] k4 [of k] k2 [of k] by simp
  have flag: "rg t4 more_text_reg = v" using regs(2) kept4 t4(4) by (auto simp: flag_after_def)
  have words4: "words t4 b = words s b" if "?kept b" for b
    using that w4 [of b] w2 [of b] W [of b] n by auto
  have "rg ?t3 hdlr_reg = rg s hdlr_reg" using regs(3) cs [of hdlr_reg] k2 [of hdlr_reg] by auto
  moreover let ?t5 = "t4\<lparr>rg := (rg t4)(0 := line, 1 := v, 2 := VInt (of_nat (n + 16)))\<rparr>"
  have "?run (drop 8 ?asm) t4 = ?run (drop 11 ?asm) ?t5"
    using ne kept4 [OF regs(1)] flag lay(1,2) words4 [OF la] t4(2) by (simp add: render_wrap_asm_def)
  moreover have "F ''render_rtl_step'' (rg ?t5 0) (rg ?t5 1) (rg ?t5 2) (rg ?t5 3) (world ?t5) = Some (r4, w3)"
    using step2 n t4(3) by simp
  from call_routine_keeps [where f = "F ''render_rtl_step''" and jr = jr and js = js, OF this] obtain t6 where
    t6: "call_routine jr js (F ''render_rtl_step'') ?t5 = Some t6" "sp t6 = n + 16" "world t6 = w3"
      and k6: "\<And>k. k \<notin> {0, 1, 2, 3, 12, 14} \<Longrightarrow> rg t6 k = rg ?t5 k"
      and w6: "\<And>b. n + 16 \<le> b \<or> (\<forall>t. js t b = words t b) \<Longrightarrow> words t6 b = words t4 b" using t4(2) by auto
  ultimately have "?run ?asm s = Some (Jump ''render_wrap__return'', t6)"
    using t4(1) by (simp add: render_wrap_asm_def del: store_words.simps)
  moreover have "\<forall>k \<in> callee_saved. rg t6 k = rg s k" using k6 kept4 cs by (auto simp: callee_saved_def)
  moreover have "\<forall>b \<ge> sp s. words t6 b = words s b" using w6 words4 n by simp
  ultimately show ?thesis using t6 n by simp
qed

section \<open>The hooks in C\<close>

text \<open>The prototypes of \<^verbatim>\<open>runtime/patch.c\<close> and \<^verbatim>\<open>runtime/text_shaper.h\<close>.\<close>

definition hook_get_content_size_with_attributes :: proto where
  "hook_get_content_size_with_attributes =
     Proto ''graphics_text_layout_get_content_size_with_attributes_patch'' GSize_t
       [Ptr (UInt 1), GFont_t, GRect_t, GTextOverflowMode_t, GTextAlignment_t, Ptr GTextAttributes_t]"

definition hook_get_content_size :: proto where
  "hook_get_content_size =
     Proto ''graphics_text_layout_get_content_size_patch'' GSize_t
       [Ptr (UInt 1), GFont_t, GRect_t, GTextOverflowMode_t, GTextAlignment_t]"

definition hook_gdt_alignment_step :: proto where
  "hook_gdt_alignment_step = Proto ''gdt_alignment_step'' GTextAlignment_t [Ptr (UInt 1), GTextAlignment_t]"

definition hook_render_rtl_step :: proto where
  "hook_render_rtl_step = Proto ''render_rtl_step'' Void [Ptr (UInt 1), Bool, Ptr (UInt 1)]"

definition hook_shape_text :: proto where
  "hook_shape_text = Proto ''shape_text'' Void [Ptr (UInt 1)]"

definition hook_unshape_text :: proto where
  "hook_unshape_text = Proto ''unshape_text'' Void [Ptr (UInt 1)]"

lemmas hook_protos = hook_get_content_size_with_attributes_def hook_get_content_size_def
  hook_gdt_alignment_step_def hook_render_rtl_step_def hook_shape_text_def hook_unshape_text_def

text \<open>The C hooks take their arguments from where callers of the functions they replace put them.\<close>

lemma hooks_replace:
  "call_slots hook_get_content_size_with_attributes = call_slots content_size_proto"
  "call_slots hook_get_content_size =
     call_slots (declared ''graphics_text_layout_get_content_size'' api_TextDrawing)"
  by (simp_all add: declared_def api_TextDrawing_def call_slots_def hook_protos GSize_in_register)

lemma GTextAlignment_in_register: "\<not> by_address GTextAlignment_t"
  by (simp add: GTextAlignment_t_def)

text \<open>The assembly hooks load the argument registers of the routines they call.\<close>

lemma hooks_called:
  "call_slots hook_shape_text = [[0]]" "call_slots hook_unshape_text = [[0]]"
  "call_slots hook_gdt_alignment_step = [[0], [1]]" "call_slots hook_render_rtl_step = [[0], [1], [2]]"
  by (simp_all add: call_slots_def hook_protos arg_words_def pebble_layout GTextAlignment_in_register)

text \<open>The magic overflow mode of the diagnostics app fits the enumeration.\<close>

lemma magic_overflow_mode: "(0xE5 :: nat) < 2 ^ (8 * sizeof GTextOverflowMode_t)"
  by (simp add: pebble_layout)

end
