(* ===== verification/Python.thy ===== *)
theory Python
  imports Prelude
begin

text \<open>
  What the build scripts use of Python: exceptions as the left summand of a result, and the
  integer formats of the module \<^verbatim>\<open>struct\<close>, and a few operations on strings.
\<close>

datatype py_error =
  StopIteration | StructError | AssertionError | IndexError | KeyError | ValueError | TypeError | ZeroDivisionError | MissingGlyphs | PyException

definition bindE :: "'e + 'a \<Rightarrow> ('a \<Rightarrow> 'e + 'b) \<Rightarrow> 'e + 'b" where
  "bindE x f = (case x of Inl e \<Rightarrow> Inl e | Inr a \<Rightarrow> f a)"

definition struct_pack_H :: "int \<Rightarrow> py_error + u8 list" where
  "struct_pack_H x =
     (if 0 \<le> x \<and> x \<le> 65535 then Inr [word_of_int (x mod 256), word_of_int (x div 256)] else Inl StructError)"

definition struct_pack_b :: "int \<Rightarrow> py_error + u8 list" where
  "struct_pack_b x = (if -128 \<le> x \<and> x \<le> 127 then Inr [word_of_int x] else Inl StructError)"

text \<open>The two bytes of a 16-bit number, low byte first.\<close>

definition h16 :: "int \<Rightarrow> u8 list" where
  "h16 x = [word_of_int (x mod 256), word_of_int (x div 256)]"

lemma bindE_simps [simp]: "bindE (Inl e) f = Inl e" "bindE (Inr a) f = f a"
  by (simp_all add: bindE_def)

lemma bindE_Inr_iff: "bindE x f = Inr b \<longleftrightarrow> (\<exists>a. x = Inr a \<and> f a = Inr b)"
  by (cases x) auto

lemma length_h16 [simp]: "length (h16 x) = 2" by (simp add: h16_def)

lemma struct_pack_H_Inr: "struct_pack_H x = Inr b \<longleftrightarrow> 0 \<le> x \<and> x \<le> 65535 \<and> b = h16 x"
  by (auto simp: struct_pack_H_def h16_def)

lemma struct_pack_b_Inr: "struct_pack_b x = Inr b \<longleftrightarrow> -128 \<le> x \<and> x \<le> 127 \<and> b = [word_of_int x]"
  by (auto simp: struct_pack_b_def)

text \<open>\<^verbatim>\<open>s.split(sep)\<close> for a separator of one character.\<close>

fun py_split :: "char \<Rightarrow> string \<Rightarrow> string list" where
  "py_split sep [] = [[]]"
| "py_split sep (c # s) = (if c = sep then [] # py_split sep s else (c # hd (py_split sep s)) # tl (py_split sep s))"

fun py_in :: "'a list \<Rightarrow> 'a list \<Rightarrow> bool" where
  "py_in pat [] \<longleftrightarrow> pat = []"
| "py_in pat (c # s) \<longleftrightarrow> take (length pat) (c # s) = pat \<or> py_in pat s"

lemma py_in_conv: "py_in pat s \<longleftrightarrow> (\<exists>xs ys. s = xs @ pat @ ys)"
proof (induction s)
  case (Cons c s)
  have "take (length pat) (c # s) = pat \<longleftrightarrow> (\<exists>ys. c # s = pat @ ys)" by (metis append_eq_conv_conj append_take_drop_id)
  moreover have "(\<exists>xs ys. c # s = xs @ pat @ ys) \<longleftrightarrow> (\<exists>ys. c # s = pat @ ys) \<or> (\<exists>xs ys. s = xs @ pat @ ys)"
    by (metis Cons_eq_append_conv append_Cons append_Nil)
  ultimately show ?case using Cons by simp
qed auto

lemma py_in_append: "py_in (pat @ suf) s \<Longrightarrow> py_in pat s"
  by (auto simp: py_in_conv)

end
