(* ===== verification/Lut_Gen.thy ===== *)
theory Lut_Gen
  imports Ranges Python "HOL-Library.List_Lexorder" "HOL-Library.AList"
begin

text \<open>
  The generator of the shaper's tables, \<^verbatim>\<open>fonts/text_shaper.py\<close>: for every letter and ligature it
  asks the font for the four contextual glyphs, gives each glyph a scratch code point of the
  two-byte range, and packs the tables the C code reads.
\<close>

section \<open>The code\<close>

text \<open>A character of the alphabet or a ligature: the code points of a Python string.\<close>

type_synonym chars = "nat list"
type_synonym glyph = nat

definition scratch_codepts :: "nat list" where
  "scratch_codepts = [0x700..<0x750] @ [0x780..<0x7FF + 1]"

definition kashida :: chars where
  "kashida = [0x640]"

definition full_alphabet :: "nat list" where
  "full_alphabet =
     [0x627, 0x628, 0x67E, 0x62A, 0x679, 0x62B, 0x62C, 0x686, 0x62D, 0x62E, 0x62F, 0x688, 0x630,
      0x631, 0x691, 0x632, 0x698, 0x633, 0x634, 0x635, 0x636, 0x637, 0x638, 0x639, 0x63A, 0x641,
      0x642, 0x643, 0x6A9, 0x6AF, 0x644, 0x645, 0x646, 0x648, 0x647, 0x6BE, 0x621, 0x6CC, 0x6D2,
      0x67C, 0x685, 0x681, 0x689, 0x693, 0x696, 0x69A, 0x6AB, 0x6BC, 0x64A, 0x6D0, 0x6CD, 0x626,
      0x695, 0x6CE, 0x6C6, 0x6D5, 0x6B5, 0x6A4, 0x623, 0x625, 0x629, 0x649, 0x624, 0x622] @ kashida"

definition arabic_alphabet :: "nat list" where
  "arabic_alphabet =
     [0x63A, 0x638, 0x636, 0x630, 0x62E, 0x62B, 0x62A, 0x634, 0x631, 0x642, 0x635, 0x641, 0x639,
      0x633, 0x646, 0x645, 0x644, 0x643, 0x64A, 0x637, 0x62D, 0x632, 0x648, 0x647, 0x62F, 0x62C,
      0x628, 0x627, 0x621, 0x622, 0x623, 0x625, 0x629] @ kashida"

definition lig_chars :: "chars list" where
  "lig_chars = [[0x644, 0x627]]"

text \<open>
  \<open>hb\<close> stands for \<^verbatim>\<open>hb-shape\<close>: the glyphs a font gives for a string.  \<open>missing\<close> is the glyph for
  characters the font does not have.
\<close>

definition hb_shape_text :: "(chars \<Rightarrow> glyph list) \<Rightarrow> glyph \<Rightarrow> chars \<Rightarrow> py_error + glyph list" where
  "hb_shape_text hb missing txt = (if missing \<in> set (hb txt) then Inl MissingGlyphs else Inr (hb txt))"

fun char_forms :: "(chars \<Rightarrow> glyph list) \<Rightarrow> glyph \<Rightarrow> glyph \<Rightarrow> chars \<Rightarrow> chars list \<Rightarrow> py_error + glyph list" where
  "char_forms hb missing kashida_glyph ch [] = Inr []"
| "char_forms hb missing kashida_glyph ch (ch_comp # comps) =
     bindE (if ch = kashida then Inr kashida_glyph
            else bindE (hb_shape_text hb missing ch_comp) (\<lambda>shaped.
              case filter (\<lambda>g. g \<noteq> kashida_glyph) shaped of
                [g] \<Rightarrow> Inr g
              | _ \<Rightarrow> Inl AssertionError))
       (\<lambda>g. bindE (char_forms hb missing kashida_glyph ch comps) (\<lambda>gs. Inr (g # gs)))"

text \<open>The dictionary \<^verbatim>\<open>forms\<close> as an association list; a later entry for a key replaces an earlier one.\<close>

fun generate_forms ::
  "(chars \<Rightarrow> glyph list) \<Rightarrow> glyph \<Rightarrow> glyph \<Rightarrow> chars list \<Rightarrow> py_error + (chars \<times> glyph list) list" where
  "generate_forms hb missing kashida_glyph [] = Inr []"
| "generate_forms hb missing kashida_glyph (ch # chs) =
     bindE (char_forms hb missing kashida_glyph ch [ch, ch @ kashida, kashida @ ch @ kashida, kashida @ ch])
       (\<lambda>ch_forms. bindE (generate_forms hb missing kashida_glyph chs) (\<lambda>forms.
          Inr (if ch \<in> fst ` set forms then forms else (ch, ch_forms) # forms)))"

text \<open>The local variables of \<open>pack_lut\<close>.  A label is kept as the character and the number of the form.\<close>

record pack_state =
  available_codepts :: "nat list"
  selected_glyphs :: "(glyph \<times> nat) list"
  dirtied_codepts :: "nat list"
  glyph_labels :: "(nat \<times> chars \<times> nat) list"
  lut_data :: "u8 list"
  lig_data :: "u8 list"

definition pack_init :: pack_state where
  "pack_init = \<lparr>available_codepts = scratch_codepts, selected_glyphs = [], dirtied_codepts = [],
     glyph_labels = [], lut_data = [], lig_data = []\<rparr>"

definition take_codept :: "pack_state \<Rightarrow> py_error + (nat \<times> pack_state)" where
  "take_codept st = (case available_codepts st of
      [] \<Rightarrow> Inl StopIteration
    | cp # cps \<Rightarrow> Inr (cp, st\<lparr>available_codepts := cps, dirtied_codepts := dirtied_codepts st @ [cp]\<rparr>))"

text \<open>\<^verbatim>\<open>struct.pack("<HHbbb", *line_parts)\<close>\<close>

definition struct_pack_line :: "int list \<Rightarrow> py_error + u8 list" where
  "struct_pack_line parts = (case parts of
      [t, i, a, b, c] \<Rightarrow>
        bindE (struct_pack_H t) (\<lambda>t. bindE (struct_pack_H i) (\<lambda>i.
        bindE (struct_pack_b a) (\<lambda>a. bindE (struct_pack_b b) (\<lambda>b.
        bindE (struct_pack_b c) (\<lambda>c. Inr (t @ i @ a @ b @ c))))))
    | _ \<Rightarrow> Inl StructError)"

definition select_glyph :: "chars \<Rightarrow> nat \<Rightarrow> glyph \<Rightarrow> pack_state \<Rightarrow> py_error + pack_state" where
  "select_glyph ch idx g st =
     (if map_of (selected_glyphs st) g = None then
        bindE (take_codept st) (\<lambda>(cp, st).
          if idx < 4 then
            Inr (st\<lparr>selected_glyphs := (g, cp) # selected_glyphs st,
                   glyph_labels := (cp, ch, idx) # glyph_labels st\<rparr>)
          else Inl IndexError)
      else Inr st)"

text \<open>The loop over the forms of a character: \<open>base\<close> is \<^verbatim>\<open>base_transformed_codept\<close>.\<close>

fun pack_forms ::
  "chars \<Rightarrow> nat \<Rightarrow> glyph list \<Rightarrow> int list \<Rightarrow> nat option \<Rightarrow> pack_state \<Rightarrow> py_error + (int list \<times> pack_state)" where
  "pack_forms ch idx [] line_parts base st = Inr (line_parts, st)"
| "pack_forms ch idx (g # gs) line_parts base st =
     bindE (select_glyph ch idx g st) (\<lambda>st.
       let cp = the (map_of (selected_glyphs st) g) in
       case base of
         Some b \<Rightarrow>
           if b \<noteq> 0 then pack_forms ch (idx + 1) gs (line_parts @ [int cp - int b]) base st
           else pack_forms ch (idx + 1) gs (line_parts @ [int cp]) (Some cp) st
       | None \<Rightarrow> pack_forms ch (idx + 1) gs (line_parts @ [int cp]) (Some cp) st)"

fun pack_pattern :: "chars \<Rightarrow> py_error + u8 list" where
  "pack_pattern [] = Inr []"
| "pack_pattern (c # cs) = bindE (struct_pack_H (int c)) (\<lambda>b. bindE (pack_pattern cs) (\<lambda>bs. Inr (b @ bs)))"

text \<open>The head of the loop body: the code point that stands for the character in the table.\<close>

definition true_codept_of :: "chars \<Rightarrow> pack_state \<Rightarrow> py_error + (nat \<times> pack_state)" where
  "true_codept_of ch st =
     (if length ch = 1 then Inr (hd ch, st)
      else if length ch \<le> 2 then
        bindE (take_codept st) (\<lambda>(cp, st).
        bindE (pack_pattern ch) (\<lambda>p.
        bindE (struct_pack_H (int (cp OR 2 ^ 15))) (\<lambda>r.
          Inr (cp, st\<lparr>lig_data := lig_data st @ p @ r\<rparr>))))
      else Inl AssertionError)"

definition pack_char :: "(chars \<Rightarrow> glyph list) \<Rightarrow> chars \<Rightarrow> pack_state \<Rightarrow> py_error + pack_state" where
  "pack_char F ch st =
     bindE (true_codept_of ch st) (\<lambda>(tc, st).
     bindE (pack_forms ch 0 (F ch) [int tc] None st) (\<lambda>(line_parts, st).
     bindE (struct_pack_line line_parts) (\<lambda>b.
       Inr (st\<lparr>lut_data := lut_data st @ b\<rparr>))))"

fun pack_chars :: "(chars \<Rightarrow> glyph list) \<Rightarrow> chars list \<Rightarrow> pack_state \<Rightarrow> py_error + pack_state" where
  "pack_chars F [] st = Inr st"
| "pack_chars F (ch # chs) st = bindE (pack_char F ch st) (pack_chars F chs)"

definition pack_lut :: "(chars \<times> glyph list) list \<Rightarrow> py_error + pack_state" where
  "pack_lut dict = pack_chars (\<lambda>ch. the (map_of dict ch)) (sort (map fst dict)) pack_init"

text \<open>Only the ends of \<^verbatim>\<open>run_range\<close> matter: \<open>a\<close> is its first and \<open>l\<close> its last element.\<close>

fun runs :: "nat \<Rightarrow> nat \<Rightarrow> nat list \<Rightarrow> (nat \<times> nat) list" where
  "runs a l [] = [(a, l)]"
| "runs a l (v # vs) = (if l + 1 \<noteq> v then (a, l) # runs v v vs else runs a v vs)"

definition contiguous_ranges :: "nat list \<Rightarrow> py_error + (nat \<times> nat) list" where
  "contiguous_ranges vals = (case sort vals of [] \<Rightarrow> Inl IndexError | v # vs \<Rightarrow> Inr (runs v v vs))"

text \<open>
  The files that are written, as the tables the runtime sees; the zero-width class comes from
  \<^verbatim>\<open>fonts/compose.py\<close>.
\<close>

definition write_lut :: "pack_state \<Rightarrow> (nat \<times> nat) list \<Rightarrow> tables" where
  "write_lut st shapable_ranges =
     \<lparr>ARABIC_SHAPER_LUT = lut_data st, ARABIC_LIGATURE_LUT = lig_data st,
      ARABIC_SHAPER_RANGE = (\<lambda>cp. \<exists>r \<in> set shapable_ranges. fst r \<le> unat cp \<and> unat cp < snd r + 1),
      is_zero_width = gen_is_zero_width, ZERO_WIDTH_CODEPT = gen_ZERO_WIDTH_CODEPT, past_buffer = 0\<rparr>"

definition packed_tables :: "pack_state \<Rightarrow> py_error + tables" where
  "packed_tables st =
     bindE (contiguous_ranges (dirtied_codepts st)) (\<lambda>shapable_ranges. Inr (write_lut st shapable_ranges))"

definition tables_of_forms :: "(chars \<times> glyph list) list \<Rightarrow> py_error + tables" where
  "tables_of_forms dict = bindE (pack_lut dict) packed_tables"

definition supplemental_alphabet :: "nat list" where
  "supplemental_alphabet =
     [0x661, 0x662, 0x663, 0x664, 0x665, 0x666, 0x667, 0x668, 0x669, 0x660, 0x61F, 0x61B, 0x60C]"

fun supplement_selected_glyphs ::
  "(chars \<Rightarrow> glyph list) \<Rightarrow> glyph \<Rightarrow> nat list \<Rightarrow> (glyph \<times> nat) list \<Rightarrow> py_error + (glyph \<times> nat) list" where
  "supplement_selected_glyphs hb missing [] sel = Inr sel"
| "supplement_selected_glyphs hb missing (ch # chs) sel =
     bindE (hb_shape_text hb missing [ch]) (\<lambda>shaped.
       case shaped of
         [] \<Rightarrow> Inl IndexError
       | g # _ \<Rightarrow> supplement_selected_glyphs hb missing chs (AList.update g ch sel))"

text \<open>The glyph of each code point, for the font generator.\<close>

definition selected_codepts :: "(glyph \<times> nat) list \<Rightarrow> (nat \<times> glyph) list" where
  "selected_codepts sel = fold (\<lambda>(k, v). AList.update v k) sel []"

text \<open>The script: the tables it writes, and the map of code points to glyphs.\<close>

definition text_shaper :: "(chars \<Rightarrow> glyph list) \<Rightarrow> nat list \<Rightarrow> py_error + tables \<times> (nat \<times> glyph) list" where
  "text_shaper hb shaped_alphabet =
     (if \<exists>c \<in> set shaped_alphabet. \<not> (0x80 \<le> c \<and> c < 0x800) then Inl AssertionError
      else case hb [0x14C4] of
        [] \<Rightarrow> Inl IndexError
      | missing # _ \<Rightarrow>
          bindE (hb_shape_text hb missing kashida) (\<lambda>shaped.
            case shaped of
              [] \<Rightarrow> Inl IndexError
            | kashida_glyph # _ \<Rightarrow>
                bindE (generate_forms hb missing kashida_glyph (map (\<lambda>c. [c]) shaped_alphabet @ lig_chars)) (\<lambda>forms.
                bindE (pack_lut forms) (\<lambda>st.
                bindE (packed_tables st) (\<lambda>T.
                bindE (supplement_selected_glyphs hb missing supplemental_alphabet (selected_glyphs st)) (\<lambda>sel.
                  Inr (T, selected_codepts sel)))))))"

end
