(* ===== verification/Lut_Refine.thy ===== *)
theory Lut_Refine
  imports Lut_Gen Patch_Refine
begin

text \<open>
  The generator and the runtime fit together: whatever the font, the tables that come out of
  \<open>text_shaper\<close> are well formed, and they are reversible when no two characters share a glyph.
\<close>

section \<open>Bytes\<close>

lemma le16_h16: "le16 (h16 x ! 0) (h16 x ! 1) = word_of_int x"
proof -
  have "x mod 256 = take_bit 8 x" "x div 256 = drop_bit 8 x"
    by (simp_all add: take_bit_eq_mod drop_bit_eq_div)
  then show ?thesis
    by (auto simp: le16_def h16_def bit_eq_iff bit_simps)
qed

lemma sint_byte: "-128 \<le> x \<Longrightarrow> x \<le> 127 \<Longrightarrow> sint (word_of_int x :: u8) = x"
  by (simp add: signed_of_int signed_take_bit_int_eq_self)

lemma shaper_lut_blocks:
  assumes "ARABIC_SHAPER_LUT T = concat bs" and "\<forall>b \<in> set bs. length b = 7"
  shows "shaper_lut T = map (\<lambda>b. lut_at b 0) bs"
proof (rule nth_equalityI)
  show len: "length (shaper_lut T) = length (map (\<lambda>b. lut_at b 0) bs)"
    by (simp add: shaper_lut_def assms(1) length_concat_blocks [OF assms(2)])
  fix i assume "i < length (shaper_lut T)"
  then have i: "i < length bs" using len by simp
  show "shaper_lut T ! i = map (\<lambda>b. lut_at b 0) bs ! i"
    using i nth_concat_blocks [OF assms(2) i] nth_concat_blocks [OF assms(2) i, of 0]
      nth_concat_blocks [OF assms(2) i, of 1] nth_concat_blocks [OF assms(2) i, of 2]
    by (simp add: shaper_lut_def assms(1) length_concat_blocks [OF assms(2)] lut_at_def numeral_2_eq_2)
qed

lemma ligature_lut_cells:
  assumes "ARABIC_LIGATURE_LUT T = concat (map h16 cs)"
  shows "ligature_lut T = map word_of_int cs"
proof (rule nth_equalityI)
  have b: "\<forall>b \<in> set (map h16 cs). length b = 2" by simp
  show len: "length (ligature_lut T) = length (map word_of_int cs :: u16 list)"
    by (simp add: ligature_lut_def assms length_concat_blocks [OF b])
  fix i assume "i < length (ligature_lut T)"
  then have i: "i < length cs" using len by simp
  show "ligature_lut T ! i = map word_of_int cs ! i"
    using i nth_concat_blocks [OF b, of i 0] nth_concat_blocks [OF b, of i 1] le16_h16 [of "cs ! i"]
    by (simp add: ligature_lut_def assms length_concat_blocks [OF b])
qed

lemma struct_pack_line_entry:
  assumes "struct_pack_line [t, i, a, b, c] = Inr bs"
  shows "length bs = 7" "lut_at bs 0 = \<lparr>true_codept = word_of_int t, isolated_codept = word_of_int i,
      initial_codept_delta = word_of_int a, medial_codept_delta = word_of_int b,
      final_codept_delta = word_of_int c\<rparr>"
    "\<forall>x \<in> {a, b, c}. -128 \<le> x \<and> x \<le> 127"
  using assms le16_h16 [of t] le16_h16 [of i]
  by (auto simp: struct_pack_line_def bindE_Inr_iff struct_pack_H_Inr struct_pack_b_Inr lut_at_def h16_def)

section \<open>Allocation of code points\<close>

text \<open>
  The code points in use are those of the selected glyphs and those of the ligatures \<open>L\<close>; all
  are different, and all come from the scratch ranges.
\<close>

definition alloc_ok :: "nat list \<Rightarrow> pack_state \<Rightarrow> bool" where
  "alloc_ok L st \<longleftrightarrow>
     distinct (available_codepts st @ map snd (selected_glyphs st) @ L) \<and>
     distinct (map fst (selected_glyphs st)) \<and>
     set (dirtied_codepts st) = snd ` set (selected_glyphs st) \<union> set L \<and>
     set (available_codepts st) \<union> set (dirtied_codepts st) \<subseteq> set scratch_codepts"

definition glyph_codept :: "pack_state \<Rightarrow> glyph \<Rightarrow> nat" where
  "glyph_codept st g = the (map_of (selected_glyphs st) g)"

text \<open>Selecting glyphs only adds to the selection and leaves the packed data alone.\<close>

definition extends :: "pack_state \<Rightarrow> pack_state \<Rightarrow> bool" where
  "extends st st' \<longleftrightarrow> map_of (selected_glyphs st) \<subseteq>\<^sub>m map_of (selected_glyphs st')"

definition grows :: "pack_state \<Rightarrow> pack_state \<Rightarrow> bool" where
  "grows st st' \<longleftrightarrow> extends st st' \<and>
     lut_data st' = lut_data st \<and> lig_data st' = lig_data st"

lemma grows_extends [dest]: "grows st st' \<Longrightarrow> extends st st'" by (simp add: grows_def)

lemma grows_refl [simp]: "grows st st" by (simp add: grows_def extends_def)

lemma grows_trans [trans]: "grows a b \<Longrightarrow> grows b c \<Longrightarrow> grows a c"
  by (auto simp: grows_def extends_def intro: map_le_trans)

lemma scratch_bounds: "c \<in> set scratch_codepts \<Longrightarrow> 0x700 \<le> c \<and> c < 0x800"
  by (auto simp: scratch_codepts_def)

lemma map_le_map_of_Cons: "map_of xs k = None \<Longrightarrow> map_of xs \<subseteq>\<^sub>m map_of ((k, v) # xs)"
  by (auto simp: map_le_def)

lemma select_glyph_ok:
  assumes "select_glyph ch idx g st = Inr st'" and "alloc_ok L st"
  shows "alloc_ok L st'" "grows st st'" "g \<in> dom (map_of (selected_glyphs st'))"
proof -
  have "alloc_ok L st' \<and> grows st st' \<and> g \<in> dom (map_of (selected_glyphs st'))"
  proof (cases "map_of (selected_glyphs st) g")
    case (Some cp)
    with assms show ?thesis by (auto simp: select_glyph_def)
  next
    case None
    with assms(1) obtain cp cps where av: "available_codepts st = cp # cps"
      and st': "st' = st\<lparr>available_codepts := cps, dirtied_codepts := dirtied_codepts st @ [cp],
        selected_glyphs := (g, cp) # selected_glyphs st,
        glyph_labels := (cp, ch, idx) # glyph_labels st\<rparr>"
      by (auto simp: select_glyph_def take_codept_def bindE_Inr_iff split: list.splits if_splits)
    have "g \<notin> fst ` set (selected_glyphs st)" using None by (simp add: map_of_eq_None_iff)
    with assms(2) av st' map_le_map_of_Cons [OF None] show ?thesis
      by (auto simp: alloc_ok_def grows_def extends_def)
  qed
  then show "alloc_ok L st'" "grows st st'" "g \<in> dom (map_of (selected_glyphs st'))" by auto
qed

lemma alloc_codept:
  assumes "alloc_ok L st" and "g \<in> dom (map_of (selected_glyphs st))"
  shows "glyph_codept st g \<in> set (dirtied_codepts st)" "0x700 \<le> glyph_codept st g"
    "glyph_codept st g < 0x800"
proof -
  from assms(2) obtain cp where "map_of (selected_glyphs st) g = Some cp" by auto
  then have "glyph_codept st g \<in> snd ` set (selected_glyphs st)"
    by (force simp: glyph_codept_def dest: map_of_SomeD)
  then show d: "glyph_codept st g \<in> set (dirtied_codepts st)" using assms(1) by (auto simp: alloc_ok_def)
  then have "glyph_codept st g \<in> set scratch_codepts" using assms(1) by (auto simp: alloc_ok_def)
  from scratch_bounds [OF this] show "0x700 \<le> glyph_codept st g" "glyph_codept st g < 0x800" by auto
qed

lemma extends_codept:
  "extends st st' \<Longrightarrow> g \<in> dom (map_of (selected_glyphs st)) \<Longrightarrow>
     g \<in> dom (map_of (selected_glyphs st')) \<and> glyph_codept st' g = glyph_codept st g"
  by (auto simp: extends_def glyph_codept_def map_le_def dom_def)

lemma pack_forms_deltas:
  assumes "pack_forms ch idx gs parts (Some b) st = Inr (parts', st')" and "b \<noteq> 0" and "alloc_ok L st"
  shows "alloc_ok L st' \<and> grows st st' \<and> set gs \<subseteq> dom (map_of (selected_glyphs st')) \<and>
     parts' = parts @ map (\<lambda>g. int (glyph_codept st' g) - int b) gs"
  using assms
proof (induction gs arbitrary: idx parts st)
  case (Cons g gs)
  from Cons.prems(1,2) obtain s1 where s1: "select_glyph ch idx g st = Inr s1"
    "pack_forms ch (idx + 1) gs (parts @ [int (glyph_codept s1 g) - int b]) (Some b) s1 = Inr (parts', st')"
    by (auto simp: bindE_Inr_iff Let_def glyph_codept_def)
  note sel = select_glyph_ok [OF s1(1) Cons.prems(3)]
  from Cons.IH [OF s1(2) Cons.prems(2) sel(1)] sel(2,3) extends_codept [of s1 st' g] grows_trans
  show ?case by auto
qed simp

lemma pack_forms_entry:
  assumes "pack_forms ch 0 gs parts None st = Inr (parts', st')" and "alloc_ok L st"
    and gs: "gs = [g0, g1, g2, g3]"
  shows "alloc_ok L st' \<and> grows st st' \<and> set gs \<subseteq> dom (map_of (selected_glyphs st')) \<and>
     parts' = parts @ int (glyph_codept st' g0) #
       map (\<lambda>g. int (glyph_codept st' g) - int (glyph_codept st' g0)) [g1, g2, g3]"
proof -
  from assms(1) obtain s1 where s1: "select_glyph ch 0 g0 st = Inr s1"
    "pack_forms ch 1 [g1, g2, g3] (parts @ [int (glyph_codept s1 g0)]) (Some (glyph_codept s1 g0)) s1
       = Inr (parts', st')"
    by (auto simp: gs bindE_Inr_iff Let_def glyph_codept_def simp del: pack_forms.simps(2))
       (auto simp: bindE_Inr_iff Let_def glyph_codept_def)
  note sel = select_glyph_ok [OF s1(1) assms(2)]
  have "glyph_codept s1 g0 \<noteq> 0" using alloc_codept(2) [OF sel(1,3)] by auto
  from pack_forms_deltas [OF s1(2) this sel(1)] sel(2,3) extends_codept [of s1 st' g0] grows_trans
  show ?thesis by (auto simp: gs)
qed

section \<open>The packed tables\<close>

text \<open>\<open>es\<close> lists the characters packed so far with the code points that stand for them.\<close>

definition is_lig :: "chars \<times> nat \<Rightarrow> bool" where
  "is_lig e \<longleftrightarrow> length (fst e) \<noteq> 1"

definition lig_cells :: "(chars \<times> nat) list \<Rightarrow> int list" where
  "lig_cells es = concat (map (\<lambda>(ch, tc). map int ch @ [int (tc OR 2 ^ 15)]) (filter is_lig es))"

definition entry_of :: "(chars \<Rightarrow> glyph list) \<Rightarrow> pack_state \<Rightarrow> chars \<times> nat \<Rightarrow> ShaperLUTEntry" where
  "entry_of F st e =
     (let c = (\<lambda>i. int (glyph_codept st (F (fst e) ! i))) in
      \<lparr>true_codept = word_of_int (int (snd e)), isolated_codept = word_of_int (c 0),
       initial_codept_delta = word_of_int (c 1 - c 0), medial_codept_delta = word_of_int (c 2 - c 0),
       final_codept_delta = word_of_int (c 3 - c 0)\<rparr>)"

definition entry_ok :: "(chars \<Rightarrow> glyph list) \<Rightarrow> pack_state \<Rightarrow> chars \<times> nat \<Rightarrow> bool" where
  "entry_ok F st e \<longleftrightarrow> set (F (fst e)) \<subseteq> dom (map_of (selected_glyphs st)) \<and>
     (\<not> is_lig e \<longrightarrow> snd e = hd (fst e)) \<and>
     (\<forall>i < 4. let d = int (glyph_codept st (F (fst e) ! i)) - int (glyph_codept st (F (fst e) ! 0)) in
        -128 \<le> d \<and> d \<le> 127)"

definition packed :: "(chars \<Rightarrow> glyph list) \<Rightarrow> (chars \<times> nat) list \<Rightarrow> pack_state \<Rightarrow> bool" where
  "packed F es st \<longleftrightarrow> alloc_ok (map snd (filter is_lig es)) st \<and>
     (\<exists>bs. lut_data st = concat bs \<and>
        list_all2 (\<lambda>b e. length b = 7 \<and> lut_at b 0 = entry_of F st e) bs es) \<and>
     lig_data st = concat (map h16 (lig_cells es)) \<and> (\<forall>e \<in> set es. entry_ok F st e)"

text \<open>What has been packed keeps its meaning when more glyphs are selected.\<close>

lemma entry_extends:
  assumes "extends st st'" and "entry_ok F st e" and "length (F (fst e)) = 4"
  shows "entry_ok F st' e" "entry_of F st' e = entry_of F st e"
proof -
  have n: "F (fst e) ! i \<in> dom (map_of (selected_glyphs st))" if "i < 4" for i
    using assms(2,3) that nth_mem [of i "F (fst e)"] unfolding entry_ok_def by (metis subsetD)
  have g: "glyph_codept st' (F (fst e) ! i) = glyph_codept st (F (fst e) ! i)" if "i < 4" for i
    using extends_codept [OF assms(1) n [OF that]] by simp
  have d: "set (F (fst e)) \<subseteq> dom (map_of (selected_glyphs st'))"
    using assms(1,2) map_le_implies_dom_le unfolding entry_ok_def extends_def by (metis subset_trans)
  show "entry_ok F st' e" using assms(2) d g by (simp add: entry_ok_def)
  show "entry_of F st' e = entry_of F st e" using g by (simp add: entry_of_def Let_def)
qed

lemma pack_pattern_Inr: "pack_pattern cs = Inr p \<Longrightarrow> p = concat (map h16 (map int cs))"
  by (induction cs arbitrary: p) (auto simp: bindE_Inr_iff struct_pack_H_Inr)

lemma true_codept_of_ok:
  assumes "true_codept_of ch st = Inr (tc, st')" and "alloc_ok L st"
  shows "alloc_ok (L @ (if is_lig (ch, tc) then [tc] else [])) st'"
    "selected_glyphs st' = selected_glyphs st" "lut_data st' = lut_data st"
    "lig_data st' = lig_data st @ concat (map h16 (lig_cells [(ch, tc)]))"
    "\<not> is_lig (ch, tc) \<Longrightarrow> tc = hd ch"
proof -
  have "alloc_ok (L @ (if is_lig (ch, tc) then [tc] else [])) st' \<and>
    selected_glyphs st' = selected_glyphs st \<and> lut_data st' = lut_data st \<and>
    lig_data st' = lig_data st @ concat (map h16 (lig_cells [(ch, tc)])) \<and>
    (\<not> is_lig (ch, tc) \<longrightarrow> tc = hd ch)"
  proof (cases "length ch = 1")
    case True
    with assms show ?thesis by (auto simp: true_codept_of_def is_lig_def lig_cells_def)
  next
    case False
    with assms(1) obtain cps p where av: "available_codepts st = tc # cps" and p: "pack_pattern ch = Inr p"
      and st': "st' = st\<lparr>available_codepts := cps, dirtied_codepts := dirtied_codepts st @ [tc],
        lig_data := lig_data st @ p @ h16 (int (tc OR 2 ^ 15))\<rparr>"
      by (auto simp: true_codept_of_def take_codept_def bindE_Inr_iff struct_pack_H_Inr
          split: list.splits if_splits)
    with assms(2) pack_pattern_Inr [OF p] False show ?thesis
      by (auto simp: alloc_ok_def is_lig_def lig_cells_def)
  qed
  then show "alloc_ok (L @ (if is_lig (ch, tc) then [tc] else [])) st'"
    "selected_glyphs st' = selected_glyphs st" "lut_data st' = lut_data st"
    "lig_data st' = lig_data st @ concat (map h16 (lig_cells [(ch, tc)]))"
    "\<not> is_lig (ch, tc) \<Longrightarrow> tc = hd ch" by auto
qed

lemma alloc_ok_lut_data: "alloc_ok L (st\<lparr>lut_data := x\<rparr>) = alloc_ok L st"
  by (simp add: alloc_ok_def)

lemma lig_cells_append: "lig_cells (es @ es') = lig_cells es @ lig_cells es'"
  by (simp add: lig_cells_def)

lemma pack_char_packed:
  assumes "pack_char F ch st = Inr st'" and "packed F es st"
    and len: "\<forall>e \<in> set es. length (F (fst e)) = 4" "length (F ch) = 4"
  obtains tc where "packed F (es @ [(ch, tc)]) st'"
proof -
  from assms(1) obtain tc s1 parts s2 b where
    s1: "true_codept_of ch st = Inr (tc, s1)"
    and s2: "pack_forms ch 0 (F ch) [int tc] None s1 = Inr (parts, s2)"
    and b: "struct_pack_line parts = Inr b" and st': "st' = s2\<lparr>lut_data := lut_data s2 @ b\<rparr>"
    by (auto simp: pack_char_def bindE_Inr_iff)
  obtain bs where bs: "lut_data st = concat bs"
    "list_all2 (\<lambda>b e. length b = 7 \<and> lut_at b 0 = entry_of F st e) bs es"
    using assms(2) by (auto simp: packed_def)
  have "alloc_ok (map snd (filter is_lig es)) st" using assms(2) by (simp add: packed_def)
  note t = true_codept_of_ok [OF s1 this]
  have al: "alloc_ok (map snd (filter is_lig (es @ [(ch, tc)]))) s1"
    using t(1) by (simp split: if_splits)
  obtain g0 g1 g2 g3 where gs: "F ch = [g0, g1, g2, g3]"
    using len(2) by (auto simp: length_Suc_conv numeral_eq_Suc)
  note f = pack_forms_entry [OF s2 al gs]
  have ext: "extends st s2"
    using t(2) f by (simp add: grows_def extends_def)
  have data: "lut_data st' = concat (bs @ [b])" "selected_glyphs st' = selected_glyphs s2"
    "lig_data st' = concat (map h16 (lig_cells (es @ [(ch, tc)])))"
    using f t(3,4) bs(1) assms(2) by (simp_all add: st' grows_def packed_def lig_cells_append)
  have same: "entry_of F st' = entry_of F s2" "entry_ok F st' = entry_ok F s2"
    using data(2) by (simp_all add: fun_eq_iff entry_of_def entry_ok_def glyph_codept_def)
  have old: "entry_of F s2 e = entry_of F st e" "entry_ok F s2 e" if "e \<in> set es" for e
    using entry_extends [OF ext, of F e] that assms(2) len(1) by (auto simp: packed_def)
  have "list_all2 (\<lambda>b e. length b = 7 \<and> lut_at b 0 = entry_of F st' e) bs es"
    using bs(2) by (rule list.rel_mono_strong) (auto simp: same old)
  moreover have "parts = [int tc, int (glyph_codept s2 g0), int (glyph_codept s2 g1) - int (glyph_codept s2 g0),
      int (glyph_codept s2 g2) - int (glyph_codept s2 g0), int (glyph_codept s2 g3) - int (glyph_codept s2 g0)]"
    using f by simp
  note l = struct_pack_line_entry [OF b [unfolded this]]
  have "length b = 7 \<and> lut_at b 0 = entry_of F st' (ch, tc)"
    using l by (simp add: same entry_of_def gs Let_def)
  moreover have "entry_ok F st' (ch, tc)"
    using l(3) f t(5) by (auto simp: same entry_ok_def gs Let_def numeral_eq_Suc less_Suc_eq)
  moreover have "alloc_ok (map snd (filter is_lig (es @ [(ch, tc)]))) st'"
    using f by (simp only: st' alloc_ok_lut_data)
  ultimately have "packed F (es @ [(ch, tc)]) st'"
    using data(1,3) old by (auto simp: packed_def same intro!: exI [of _ "bs @ [b]"] list_all2_appendI)
  then show thesis by (rule that)
qed

lemma pack_chars_packed:
  assumes "pack_chars F chs st = Inr st'" and "packed F es st"
    and "\<forall>e \<in> set es. length (F (fst e)) = 4" "\<forall>ch \<in> set chs. length (F ch) = 4"
  shows "\<exists>es'. map fst es' = chs \<and> packed F (es @ es') st'"
  using assms
proof (induction chs arbitrary: st es)
  case (Cons ch chs)
  from Cons.prems(1) obtain s1 where s1: "pack_char F ch st = Inr s1" "pack_chars F chs s1 = Inr st'"
    by (auto simp: bindE_Inr_iff)
  obtain tc where "packed F (es @ [(ch, tc)]) s1"
    using pack_char_packed [OF s1(1) Cons.prems(2,3)] Cons.prems(4) by auto
  from Cons.IH [OF s1(2) this] Cons.prems(3,4) obtain es' where
    "map fst es' = chs" "packed F ((es @ [(ch, tc)]) @ es') st'" by auto
  then show ?case by (intro exI [of _ "(ch, tc) # es'"]) simp
qed (auto intro: exI [of _ "[]"])

lemma pack_init_packed: "packed F [] pack_init"
  by (auto simp: packed_def pack_init_def alloc_ok_def lig_cells_def scratch_codepts_def
      intro: exI [of _ "[]"])

section \<open>Ranges\<close>

lemma runs_cover:
  "sorted (l # vs) \<Longrightarrow> a \<le> l \<Longrightarrow>
     (\<exists>r \<in> set (runs a l vs). fst r \<le> x \<and> x < snd r + 1) \<longleftrightarrow> a \<le> x \<and> x \<le> l \<or> x \<in> set vs"
proof (induction vs arbitrary: a l)
  case (Cons v vs)
  from Cons.prems have "sorted (v # vs)" "l \<le> v" by auto
  then show ?case using Cons.IH [of v v] Cons.IH [of v a] Cons.prems(2) by auto
qed auto

lemma contiguous_ranges_cover:
  assumes "contiguous_ranges vals = Inr rs"
  shows "(\<exists>r \<in> set rs. fst r \<le> x \<and> x < snd r + 1) \<longleftrightarrow> x \<in> set vals"
proof -
  from assms obtain v vs where s: "sort vals = v # vs" and rs: "rs = runs v v vs"
    by (auto simp: contiguous_ranges_def split: list.splits)
  have "sorted (v # vs)" using sorted_sort [of vals] by (simp add: s)
  from runs_cover [OF this order_refl] have
    "(\<exists>r \<in> set rs. fst r \<le> x \<and> x < snd r + 1) \<longleftrightarrow> x = v \<or> x \<in> set vs" by (auto simp: rs)
  also have "\<dots> \<longleftrightarrow> x \<in> set (sort vals)" by (simp add: s)
  finally show ?thesis by simp
qed

section \<open>The tables meet the runtime's requirements\<close>

text \<open>
  A character list the generator is made for: Arabic letters that have a width, and pairs of
  them.
\<close>

definition arabic_letter :: "nat \<Rightarrow> bool" where
  "arabic_letter c \<longleftrightarrow> (0x60E \<le> c \<and> c < 0x660 \<or> 0x66D \<le> c \<and> c < 0x700) \<and> \<not> gen_is_zero_width (of_nat c)"

definition chars_ok :: "chars list \<Rightarrow> bool" where
  "chars_ok chs \<longleftrightarrow> (\<forall>ch \<in> set chs. (\<exists>c. ch = [c] \<and> arabic_letter c) \<or>
     (\<exists>a b. ch = [a, b] \<and> [a] \<in> set chs \<and> [b] \<in> set chs))"

definition built :: "(chars \<Rightarrow> glyph list) \<Rightarrow> (chars \<times> nat) list \<Rightarrow> pack_state \<Rightarrow> tables \<Rightarrow> bool" where
  "built F es st T \<longleftrightarrow> packed F es st \<and> chars_ok (map fst es) \<and> (\<forall>e \<in> set es. length (F (fst e)) = 4) \<and>
     ARABIC_SHAPER_LUT T = lut_data st \<and> ARABIC_LIGATURE_LUT T = lig_data st \<and>
     (\<forall>cp. ARABIC_SHAPER_RANGE T cp \<longleftrightarrow> unat cp \<in> set (dirtied_codepts st)) \<and>
     is_zero_width T = gen_is_zero_width \<and> ZERO_WIDTH_CODEPT T = gen_ZERO_WIDTH_CODEPT"

lemma arabic_letter_bounds: "arabic_letter c \<Longrightarrow> 0x60E \<le> c \<and> c < 0x700"
  by (auto simp: arabic_letter_def)

lemma letter_char:
  assumes "chars_ok (map fst es)" and "e \<in> set es" and "\<not> is_lig e"
  obtains c where "fst e = [c]" "arabic_letter c"
  using assms by (force simp: chars_ok_def is_lig_def)

lemma lig_char:
  assumes "chars_ok (map fst es)" and "e \<in> set es" and "is_lig e"
  obtains a b where "fst e = [a, b]" "arabic_letter a" "arabic_letter b"
    "[a] \<in> fst ` set es" "[b] \<in> fst ` set es"
proof -
  have "fst e \<in> set (map fst es)" using assms(2) by simp
  with assms(1,3) obtain a b where ab: "fst e = [a, b]" "[a] \<in> set (map fst es)" "[b] \<in> set (map fst es)"
    by (force simp: chars_ok_def is_lig_def)
  moreover from ab(2,3) assms(1) have "arabic_letter a" "arabic_letter b"
    by (force simp: chars_ok_def)+
  ultimately show thesis using that by simp
qed

lemma built_shaper_lut:
  assumes "built F es st T"
  shows "shaper_lut T = map (entry_of F st) es"
proof -
  obtain bs where bs: "lut_data st = concat bs"
    "list_all2 (\<lambda>b e. length b = 7 \<and> lut_at b 0 = entry_of F st e) bs es"
    using assms by (auto simp: built_def packed_def)
  have "\<forall>b \<in> set bs. length b = 7"
    using bs(2) by (auto simp: list_all2_conv_all_nth in_set_conv_nth)
  moreover have "map (\<lambda>b. lut_at b 0) bs = map (entry_of F st) es"
    using bs(2) by (auto simp: list_all2_conv_all_nth intro!: nth_equalityI)
  ultimately show ?thesis
    using shaper_lut_blocks [of T bs] assms bs(1) by (simp add: built_def)
qed

lemma built_codept:
  assumes "built F es st T" and "e \<in> set es" and "g \<in> set (F (fst e))"
  shows "glyph_codept st g \<in> set (dirtied_codepts st)" "0x700 \<le> glyph_codept st g" "glyph_codept st g < 0x800"
proof -
  from assms have "g \<in> dom (map_of (selected_glyphs st))"
    "alloc_ok (map snd (filter is_lig es)) st" by (auto simp: built_def packed_def entry_ok_def)
  from alloc_codept [OF this(2,1)] show "glyph_codept st g \<in> set (dirtied_codepts st)"
    "0x700 \<le> glyph_codept st g" "glyph_codept st g < 0x800" by auto
qed

lemma unat_u16: "n < 0x10000 \<Longrightarrow> unat (of_nat n :: u16) = n"
  by (simp add: unsigned_of_nat take_bit_nat_eq_self)

lemma uint_u16: "n < 0x10000 \<Longrightarrow> uint (of_nat n :: u16) = int n"
  by (simp add: unsigned_of_nat take_bit_nat_eq_self)

lemma built_forms:
  assumes "built F es st T" and "e \<in> set es"
  shows "forms (entry_of F st e) = map (\<lambda>g. int (glyph_codept st g)) (F (fst e))"
proof -
  let ?c = "\<lambda>i. int (glyph_codept st (F (fst e) ! i))"
  have len: "length (F (fst e)) = 4" using assms by (auto simp: built_def)
  then have b: "0x700 \<le> ?c i" "?c i < 0x800" if "i < 4" for i
    using built_codept(2,3) [OF assms, of "F (fst e) ! i"] that by force+
  have d: "-128 \<le> ?c i - ?c 0" "?c i - ?c 0 \<le> 127" if "i < 4" for i
    using assms that by (auto simp: built_def packed_def entry_ok_def Let_def)
  have s: "sint (word_of_int (?c i - ?c 0) :: u8) = ?c i - ?c 0" if "i < 4" for i
    using sint_byte d [OF that] by blast
  have u: "uint (word_of_int (?c 0) :: u16) = ?c 0"
    using b [of 0] by (simp add: uint_u16)
  have "F (fst e) = map (\<lambda>i. F (fst e) ! i) [0, 1, 2, 3]"
    using len by (intro nth_equalityI) (auto simp: numeral_eq_Suc less_Suc_eq)
  then have "map (\<lambda>g. int (glyph_codept st g)) (F (fst e)) = [?c 0, ?c 1, ?c 2, ?c 3]"
    by (metis (no_types, lifting) list.map)
  then show ?thesis
    using u s [of 1] s [of 2] s [of 3] by (simp add: forms_def entry_of_def Let_def shifted_def)
qed

lemma built_lig_codept:
  assumes "built F es st T" and "e \<in> set es" and "is_lig e"
  shows "snd e \<in> set (dirtied_codepts st)" "0x700 \<le> snd e" "snd e < 0x800"
proof -
  have a: "alloc_ok (map snd (filter is_lig es)) st" using assms(1) by (simp add: built_def packed_def)
  with assms(2,3) show d: "snd e \<in> set (dirtied_codepts st)" by (auto simp: alloc_ok_def)
  with a have "snd e \<in> set scratch_codepts" by (auto simp: alloc_ok_def)
  from scratch_bounds [OF this] show "0x700 \<le> snd e" "snd e < 0x800" by auto
qed

lemma built_true_codept:
  assumes "built F es st T" and "e \<in> set es"
  shows "true_codept (entry_of F st e) = of_nat (snd e)" "0x60E \<le> snd e" "snd e < 0x800"
    "\<not> is_lig e \<Longrightarrow> fst e = [snd e] \<and> arabic_letter (snd e)"
proof -
  have l: "fst e = [snd e] \<and> arabic_letter (snd e)" if "\<not> is_lig e"
  proof -
    have "chars_ok (map fst es)" using assms(1) by (simp add: built_def)
    from letter_char [OF this assms(2) that] obtain c where "fst e = [c]" "arabic_letter c" .
    moreover have "snd e = hd (fst e)"
      using assms that by (auto simp: built_def packed_def entry_ok_def)
    ultimately show ?thesis by simp
  qed
  show "\<not> is_lig e \<Longrightarrow> fst e = [snd e] \<and> arabic_letter (snd e)" by (rule l)
  show "true_codept (entry_of F st e) = of_nat (snd e)" by (simp add: entry_of_def Let_def)
  show "0x60E \<le> snd e" "snd e < 0x800"
    using l arabic_letter_bounds [of "snd e"] built_lig_codept [OF assms] by fastforce+
qed

lemma built_find:
  assumes "built F es st T" and "e \<in> set es"
  shows "find_lut_entry_by_codept T (of_nat (snd e)) \<noteq> None"
  using assms built_true_codept(1) [OF assms]
  by (auto simp: find_lut_entry_eq built_shaper_lut [OF assms(1)] find_None_iff)

definition lig_of :: "chars \<times> nat \<Rightarrow> ligature" where
  "lig_of e = (of_nat (fst e ! 0), of_nat (fst e ! 1), of_nat (snd e))"

lemma of_nat_or_mask:
  "(of_nat (n OR 2 ^ 15) :: u16) = of_nat n OR LIG_REPLACEMENT_CODEPT_MASK"
  by (simp add: of_nat_or_eq LIG_REPLACEMENT_CODEPT_MASK_def push_bit_eq_mult)

lemma lig_cells_flat:
  "\<forall>e \<in> set L. length (fst e) = 2 \<Longrightarrow>
     map word_of_int (concat (map (\<lambda>(ch, tc). map int ch @ [int (tc OR 2 ^ 15)]) L)) = lig_flat (map lig_of L)"
proof (induction L)
  case (Cons e L)
  obtain a b tc where "e = ([a, b], tc)"
    using Cons.prems by (cases e) (auto simp: length_Suc_conv numeral_2_eq_2)
  with Cons show ?case by (simp add: lig_of_def of_nat_or_mask [simplified])
qed simp

lemma lig_entries_flat: "\<forall>l \<in> set ls. lig_entry_ok l \<Longrightarrow> lig_entries (lig_flat ls) = ls"
proof (induction ls)
  case (Cons l ls)
  obtain a b r where l: "l = (a, b, r)" by (cases l)
  with Cons mask_bits(3) [of r] show ?case by (simp add: lig_entry_ok_def)
qed simp

lemma built_ligatures:
  assumes "built F es st T"
  shows "ligature_lut T = lig_flat (map lig_of (filter is_lig es))"
    "ligatures T = map lig_of (filter is_lig es)"
    "\<forall>l \<in> set (ligatures T). lig_entry_ok l"
proof -
  have ok: "chars_ok (map fst es)" using assms by (simp add: built_def)
  have two: "\<forall>e \<in> set (filter is_lig es). length (fst e) = 2"
  proof
    fix e assume "e \<in> set (filter is_lig es)"
    then have "e \<in> set es" "is_lig e" by auto
    from lig_char [OF ok this] obtain a b where "fst e = [a, b]" .
    then show "length (fst e) = 2" by simp
  qed
  show lut: "ligature_lut T = lig_flat (map lig_of (filter is_lig es))"
    using ligature_lut_cells [of T "lig_cells es"] lig_cells_flat [OF two] assms
    by (simp add: built_def packed_def lig_cells_def)
  have e: "lig_entry_ok (lig_of e)" if "e \<in> set es" "is_lig e" for e
  proof -
    from lig_char [OF ok that] obtain a b where ab: "fst e = [a, b]" "arabic_letter a" "arabic_letter b" .
    with arabic_letter_bounds [of a] arabic_letter_bounds [of b] built_lig_codept [OF assms that]
      unat_u16 [of a] unat_u16 [of b] unat_u16 [of "snd e"] show ?thesis
      by (auto simp: lig_of_def lig_entry_ok_def word_less_nat_alt)
  qed
  then have "\<forall>l \<in> set (map lig_of (filter is_lig es)). lig_entry_ok l" by auto
  from lig_entries_flat [OF this] lut show "ligatures T = map lig_of (filter is_lig es)"
    by (simp add: ligatures_def)
  with e show "\<forall>l \<in> set (ligatures T). lig_entry_ok l" by auto
qed

lemma gen_zero_width_scratch: "0x700 \<le> n \<Longrightarrow> n < 0x800 \<Longrightarrow> \<not> gen_is_zero_width (of_nat n)"
  by (simp add: gen_is_zero_width_code RANGE_def word_less_nat_alt word_le_nat_alt unat_u16)

text \<open>Every entry of the tables, by the character it was made for.\<close>

lemma built_find_char:
  assumes "built F es st T" and "[c] \<in> fst ` set es"
  shows "find_lut_entry_by_codept T (of_nat c) \<noteq> None"
proof -
  from assms(2) obtain e where e: "e \<in> set es" "fst e = [c]" by force
  then have "snd e = c" using built_true_codept(4) [OF assms(1) e(1)] by (auto simp: is_lig_def)
  with built_find [OF assms(1) e(1)] show ?thesis by simp
qed

theorem built_tables_ok:
  assumes "built F es st T"
  shows "tables_ok T"
proof -
  have ok: "chars_ok (map fst es)" using assms by (simp add: built_def)
  have entry: "0x80 \<le> true_codept (entry_of F st e) \<and> true_codept (entry_of F st e) < 0x800 \<and>
      (\<forall>f \<in> set (forms (entry_of F st e)). 0x80 \<le> f \<and> f < 0x800)" if e: "e \<in> set es" for e
  proof -
    have "0x80 \<le> glyph_codept st g" if "g \<in> set (F (fst e))" for g
      using built_codept(2) [OF assms e that] by simp
    with built_true_codept(1-3) [OF assms e] built_codept(3) [OF assms e] show ?thesis
      by (auto simp: built_forms [OF assms e] word_less_nat_alt word_le_nat_alt unat_u16)
  qed
  have lig: "find_lut_entry_by_codept T (fst l) \<noteq> None \<and> find_lut_entry_by_codept T (fst (snd l)) \<noteq> None \<and>
      find_lut_entry_by_codept T (snd (snd l)) \<noteq> None \<and> \<not> is_zero_width T (snd (snd l))"
    if "l \<in> set (ligatures T)" for l
  proof -
    from that obtain e where e: "e \<in> set es" "is_lig e" "l = lig_of e"
      by (auto simp: built_ligatures(2) [OF assms])
    from lig_char [OF ok e(1,2)] obtain a b where
      "fst e = [a, b]" "[a] \<in> fst ` set es" "[b] \<in> fst ` set es" .
    with built_find_char [OF assms] built_find [OF assms e(1)] built_lig_codept [OF assms e(1,2)]
      gen_zero_width_scratch [of "snd e"] assms
    show ?thesis by (simp add: e(3) lig_of_def built_def)
  qed
  show ?thesis
    using entry lig built_ligatures [OF assms] assms
    by (auto simp: tables_ok_def built_shaper_lut [OF assms] built_def gen_zero_width_codept
        gen_is_zero_width_code RANGE_def)
qed

lemma arabic_letter_class:
  assumes "arabic_letter c" and "is_zero_width T = gen_is_zero_width"
  shows "is_rtl T (of_nat c)" "\<not> is_weak_ltr (of_nat c)" "\<not> is_neutral T (of_nat c)" "\<not> is_zero_width T (of_nat c)"
  using assms arabic_letter_bounds [OF assms(1)]
  by (auto simp: arabic_letter_def is_rtl_def is_neutral_def is_weak_ltr_def RANGE_def
      word_less_nat_alt word_le_nat_alt unat_u16)

lemma scratch_class:
  assumes "0x700 \<le> n" "n < 0x800" "ARABIC_SHAPER_RANGE T (of_nat n)" and "is_zero_width T = gen_is_zero_width"
  shows "is_rtl T (of_nat n)" "\<not> is_weak_ltr (of_nat n)" "\<not> is_neutral T (of_nat n)"
  using assms gen_zero_width_scratch [OF assms(1,2)]
  by (auto simp: is_rtl_def is_neutral_def is_weak_ltr_def RANGE_def word_less_nat_alt word_le_nat_alt unat_u16)

lemma built_range:
  assumes "built F es st T" and "n < 0x10000"
  shows "ARABIC_SHAPER_RANGE T (of_nat n) \<longleftrightarrow> n \<in> set (dirtied_codepts st)"
  using assms by (simp add: built_def unat_u16)

theorem built_tables_directed:
  assumes "built F es st T"
  shows "tables_directed T"
proof -
  have zw: "is_zero_width T = gen_is_zero_width" using assms by (simp add: built_def)
  have form: "is_rtl T (word_of_int f) \<and> \<not> is_neutral T (word_of_int f) \<and> \<not> is_weak_ltr (word_of_int f)"
    if e: "e \<in> set es" and f: "f \<in> set (forms (entry_of F st e))" for e f
  proof -
    from f obtain g where g: "g \<in> set (F (fst e))" "f = int (glyph_codept st g)"
      by (auto simp: built_forms [OF assms e])
    note c = built_codept [OF assms e g(1)]
    with built_range [OF assms, of "glyph_codept st g"] scratch_class [OF c(2,3) _ zw] show ?thesis
      by (simp add: g(2))
  qed
  have letter: "is_rtl T (of_nat (snd e)) \<and> \<not> is_weak_ltr (of_nat (snd e)) \<and> \<not> is_neutral T (of_nat (snd e))"
    if e: "e \<in> set es" for e
  proof (cases "is_lig e")
    case True
    note c = built_lig_codept [OF assms e True]
    with built_range [OF assms, of "snd e"] scratch_class [OF c(2,3) _ zw] show ?thesis by simp
  next
    case False
    with built_true_codept(4) [OF assms e] arabic_letter_class [OF _ zw] show ?thesis by blast
  qed
  have lig: "\<not> is_zero_width T (fst l)" if "l \<in> set (ligatures T)" for l
  proof -
    from that obtain e where e: "e \<in> set es" "is_lig e" "l = lig_of e"
      by (auto simp: built_ligatures(2) [OF assms])
    have "chars_ok (map fst es)" using assms by (simp add: built_def)
    from lig_char [OF this e(1,2)] obtain a b where "fst e = [a, b]" "arabic_letter a" .
    with arabic_letter_class(4) [OF _ zw] show ?thesis by (simp add: e(3) lig_of_def)
  qed
  have "is_neutral T (ZERO_WIDTH_CODEPT T)"
    using assms by (simp add: built_def is_neutral_def gen_zero_width_codept gen_is_zero_width_code RANGE_def)
  with form letter lig show ?thesis
    using built_true_codept(1) [OF assms]
    by (auto simp: tables_directed_def built_shaper_lut [OF assms])
qed

section \<open>Reversibility\<close>

text \<open>A font in which no two characters share a glyph.\<close>

definition glyphs_apart :: "(chars \<Rightarrow> glyph list) \<Rightarrow> chars list \<Rightarrow> bool" where
  "glyphs_apart F chs \<longleftrightarrow> (\<forall>a \<in> set chs. \<forall>b \<in> set chs. a \<noteq> b \<longrightarrow> set (F a) \<inter> set (F b) = {})"

lemma glyph_codept_inj:
  assumes "alloc_ok L st" and "g \<in> dom (map_of (selected_glyphs st))" "h \<in> dom (map_of (selected_glyphs st))"
    and "glyph_codept st g = glyph_codept st h"
  shows "g = h"
proof -
  from assms(2,3) obtain a b where "map_of (selected_glyphs st) g = Some a" "map_of (selected_glyphs st) h = Some b"
    by auto
  then have "(g, a) \<in> set (selected_glyphs st)" "(h, b) \<in> set (selected_glyphs st)" "a = b"
    using assms(4) by (auto simp: glyph_codept_def dest: map_of_SomeD)
  moreover have "inj_on snd (set (selected_glyphs st))"
    using assms(1) by (simp add: alloc_ok_def distinct_map)
  ultimately show ?thesis using inj_onD [of snd "set (selected_glyphs st)" "(g, a)" "(h, b)"] by simp
qed

lemma base_of_form:
  "find_base_codept_by_shaped T c =
     (case find (\<lambda>e. uint c \<in> set (forms e)) (shaper_lut T) of None \<Rightarrow> 0 | Some e \<Rightarrow> true_codept e)"
proof -
  have "(isolated_codept e = c \<or> shifted e (initial_codept_delta e) = uint c \<or>
      shifted e (medial_codept_delta e) = uint c \<or> shifted e (final_codept_delta e) = uint c)
    \<longleftrightarrow> uint c \<in> set (forms e)" for e
    by (auto simp: forms_def word_uint_eq_iff)
  then show ?thesis by (simp add: find_base_codept_by_shaped_def)
qed

lemma built_base:
  assumes b: "built F es st T" and apart: "glyphs_apart F (map fst es)" and dist: "distinct (map fst es)"
    and e: "e \<in> set es" and g: "g \<in> set (F (fst e))"
  shows "find_base_codept_by_shaped T (of_nat (glyph_codept st g)) = true_codept (entry_of F st e)"
proof -
  have al: "alloc_ok (map snd (filter is_lig es)) st" using b by (simp add: built_def packed_def)
  have dom: "h \<in> dom (map_of (selected_glyphs st))" if "d \<in> set es" "h \<in> set (F (fst d))" for d h
    using b that by (auto simp: built_def packed_def entry_ok_def)
  have u: "uint (of_nat (glyph_codept st g) :: u16) = int (glyph_codept st g)"
    using built_codept(3) [OF b e g] by (simp add: uint_u16)
  have own: "int (glyph_codept st g) \<in> set (forms (entry_of F st d)) \<longleftrightarrow> d = e" if d: "d \<in> set es" for d
  proof
    assume "int (glyph_codept st g) \<in> set (forms (entry_of F st d))"
    then obtain h where h: "h \<in> set (F (fst d))" "glyph_codept st g = glyph_codept st h"
      by (auto simp: built_forms [OF b d])
    from glyph_codept_inj [OF al dom [OF e g] dom [OF d h(1)] h(2)] h(1) g have "set (F (fst d)) \<inter> set (F (fst e)) \<noteq> {}"
      by auto
    with apart d e have "fst d = fst e" by (force simp: glyphs_apart_def)
    with dist d e show "d = e" by (auto simp: distinct_map inj_on_def)
  next
    assume "d = e"
    with g show "int (glyph_codept st g) \<in> set (forms (entry_of F st d))" by (auto simp: built_forms [OF b e])
  qed
  obtain x where x: "find (\<lambda>d. int (glyph_codept st g) \<in> set (forms d)) (shaper_lut T) = Some x"
    using own [OF e] e by (cases "find (\<lambda>d. int (glyph_codept st g) \<in> set (forms d)) (shaper_lut T)")
      (auto simp: find_None_iff built_shaper_lut [OF b])
  then have "x \<in> set (shaper_lut T)" "int (glyph_codept st g) \<in> set (forms x)"
    by (auto simp: find_Some_iff)
  with own have "x = entry_of F st e" by (auto simp: built_shaper_lut [OF b])
  with x show ?thesis by (simp add: base_of_form u)
qed

lemma u16_inj: "inj_on (of_nat :: nat \<Rightarrow> u16) {n. n < 0x800}"
proof (rule inj_onI)
  fix m n :: nat assume a: "m \<in> {n. n < 0x800}" "n \<in> {n. n < 0x800}" "(of_nat m :: u16) = of_nat n"
  have "m = unat (of_nat m :: u16)" using a(1) by (simp add: unat_u16 del: unsigned_of_nat)
  also have "\<dots> = unat (of_nat n :: u16)" by (simp only: a(3))
  also have "\<dots> = n" using a(2) by (simp add: unat_u16 del: unsigned_of_nat)
  finally show "m = n" .
qed

lemma lig_parts_distinct:
  "distinct (map (\<lambda>l. snd (snd l)) ls) \<Longrightarrow> (a, b, r) \<in> set ls \<Longrightarrow> lig_parts ls r = Some (a, b)"
  by (induction ls) (auto simp: lig_parts_def image_iff)

theorem built_reversible:
  assumes b: "built F es st T" and apart: "glyphs_apart F (map fst es)" and dist: "distinct (map fst es)"
  shows "reversible T"
proof -
  have ok: "chars_ok (map fst es)" using b by (simp add: built_def)
  have al: "alloc_ok (map snd (filter is_lig es)) st" using b by (simp add: built_def packed_def)
  have "set (dirtied_codepts st) \<subseteq> set scratch_codepts" using al unfolding alloc_ok_def by blast
  then have low: "n \<notin> set (dirtied_codepts st)" if "n < 0x700" for n
    using that scratch_bounds [of n] by auto
  have form: "ARABIC_SHAPER_RANGE T (word_of_int f) \<and>
      find_base_codept_by_shaped T (word_of_int f) = true_codept (entry_of F st e)"
    if e: "e \<in> set es" and f: "f \<in> set (forms (entry_of F st e))" for e f
  proof -
    from f obtain g where g: "g \<in> set (F (fst e))" "f = int (glyph_codept st g)"
      by (auto simp: built_forms [OF b e])
    with built_base [OF assms e g(1)] built_codept(1,3) [OF b e g(1)] built_range [OF b, of "glyph_codept st g"]
    show ?thesis by simp
  qed
  have "distinct (map snd (filter is_lig es))" using al by (simp add: alloc_ok_def)
  moreover have "set (map snd (filter is_lig es)) \<subseteq> {n. n < 0x800}"
    using built_lig_codept(3) [OF b] by auto
  ultimately have "distinct (map of_nat (map snd (filter is_lig es)) :: u16 list)"
    using inj_on_subset [OF u16_inj] by (simp only: distinct_map)
  then have "distinct (map (\<lambda>l. snd (snd l)) (ligatures T))"
    by (simp add: built_ligatures(2) [OF b] lig_of_def comp_def)
  note parts = lig_parts_distinct [OF this]
  have lig: "\<not> ARABIC_SHAPER_RANGE T (fst l) \<and> \<not> ARABIC_SHAPER_RANGE T (fst (snd l)) \<and>
      ARABIC_SHAPER_RANGE T (snd (snd l)) \<and> lig_parts (ligatures T) (snd (snd l)) = Some (fst l, fst (snd l))"
    if l: "l \<in> set (ligatures T)" for l
  proof -
    from l obtain e where e: "e \<in> set es" "is_lig e" "l = lig_of e"
      by (auto simp: built_ligatures(2) [OF b])
    from lig_char [OF ok e(1,2)] obtain x y where xy: "fst e = [x, y]" "arabic_letter x" "arabic_letter y" .
    note bounds = arabic_letter_bounds [OF xy(2)] arabic_letter_bounds [OF xy(3)]
    have "lig_parts (ligatures T) (snd (snd l)) = Some (fst l, fst (snd l))" using parts l by simp
    with bounds built_lig_codept [OF b e(1,2)] built_range [OF b] low show ?thesis
      by (simp add: e(3) lig_of_def xy(1))
  qed
  have "\<not> ARABIC_SHAPER_RANGE T (ZERO_WIDTH_CODEPT T)"
    using b low [of "0x591"] by (simp add: built_def gen_zero_width_codept)
  with form lig show ?thesis
    by (auto simp: reversible_def built_shaper_lut [OF b])
qed

section \<open>From the font to the tables\<close>

lemma char_forms_length: "char_forms hb m k ch comps = Inr gs \<Longrightarrow> length gs = length comps"
  by (induction comps arbitrary: gs) (auto simp: bindE_Inr_iff)

lemma generate_forms_dict:
  "generate_forms hb m k chs = Inr dict \<Longrightarrow>
     set (map fst dict) = set chs \<and> distinct (map fst dict) \<and> (\<forall>d \<in> set dict. length (snd d) = 4)"
proof (induction chs arbitrary: dict)
  case (Cons ch chs)
  from Cons.prems obtain gs dict' where
    gs: "char_forms hb m k ch [ch, ch @ kashida, kashida @ ch @ kashida, kashida @ ch] = Inr gs"
    and dict': "generate_forms hb m k chs = Inr dict'"
    and dict: "dict = (if ch \<in> fst ` set dict' then dict' else (ch, gs) # dict')"
    by (auto simp: bindE_Inr_iff)
  from char_forms_length [OF gs] Cons.IH [OF dict'] show ?case by (auto simp: dict)
qed simp

definition dict_ok :: "(chars \<times> glyph list) list \<Rightarrow> bool" where
  "dict_ok dict \<longleftrightarrow> distinct (map fst dict) \<and> chars_ok (map fst dict) \<and> (\<forall>d \<in> set dict. length (snd d) = 4)"

lemma chars_ok_set: "set chs = set chs' \<Longrightarrow> chars_ok chs = chars_ok chs'"
  by (simp add: chars_ok_def)

lemma tables_of_forms_built:
  assumes "tables_of_forms dict = Inr T" and "dict_ok dict"
  obtains es st where "built (\<lambda>ch. the (map_of dict ch)) es st T" "map fst es = sort (map fst dict)" "pack_lut dict = Inr st"
proof -
  let ?F = "\<lambda>ch. the (map_of dict ch)"
  from assms(1) obtain st rs where st: "pack_chars ?F (sort (map fst dict)) pack_init = Inr st"
    and rs: "contiguous_ranges (dirtied_codepts st) = Inr rs" and T: "T = write_lut st rs"
    by (auto simp: tables_of_forms_def packed_tables_def pack_lut_def bindE_Inr_iff)
  have len: "length (?F ch) = 4" if "ch \<in> fst ` set dict" for ch
  proof -
    from that obtain gs where "(ch, gs) \<in> set dict" by auto
    with assms(2) map_of_is_SomeI [of dict ch gs] show ?thesis by (auto simp: dict_ok_def)
  qed
  then obtain es where es: "map fst es = sort (map fst dict)" "packed ?F es st"
    using pack_chars_packed [OF st pack_init_packed] by auto
  have "set (map fst es) = set (map fst dict)" by (simp only: es(1) set_sort)
  then have ok: "chars_ok (map fst es)" and mem: "\<forall>e \<in> set es. fst e \<in> fst ` set dict"
    using assms(2) chars_ok_set [of "map fst es" "map fst dict"] by (auto simp: dict_ok_def)
  have "built ?F es st T"
    using es(2) ok mem len contiguous_ranges_cover [OF rs] by (auto simp: built_def T write_lut_def)
  with es(1) st that show thesis by (auto simp: pack_lut_def)
qed

lemma tables_of_forms_ok:
  assumes "tables_of_forms dict = Inr T" and "dict_ok dict"
  shows "tables_ok T" "tables_directed T"
    "glyphs_apart (\<lambda>ch. the (map_of dict ch)) (map fst dict) \<Longrightarrow> reversible T"
proof -
  from tables_of_forms_built [OF assms] obtain es st where
    b: "built (\<lambda>ch. the (map_of dict ch)) es st T" "map fst es = sort (map fst dict)" .
  show "tables_ok T" "tables_directed T"
    using built_tables_ok [OF b(1)] built_tables_directed [OF b(1)] by auto
  show "reversible T" if "glyphs_apart (\<lambda>ch. the (map_of dict ch)) (map fst dict)"
    using built_reversible [OF b(1)] that assms(2) by (simp add: b(2) glyphs_apart_def dict_ok_def)
qed

definition alphabet_ok :: "nat list \<Rightarrow> bool" where
  "alphabet_ok A \<longleftrightarrow> (\<forall>c \<in> set A. arabic_letter c) \<and> 0x644 \<in> set A \<and> 0x627 \<in> set A"

text \<open>What a run of the script has computed on the way.\<close>

lemma text_shaper_Inr:
  assumes "text_shaper hb A = Inr (T, codepts)"
  obtains m k ks dict st sel where "hb kashida = k # ks" "generate_forms hb m k (map (\<lambda>c. [c]) A @ lig_chars) = Inr dict" "pack_lut dict = Inr st"
    "packed_tables st = Inr T" "supplement_selected_glyphs hb m supplemental_alphabet (selected_glyphs st) = Inr sel"
    "codepts = selected_codepts sel" "hd (hb [0x14C4]) = m"
proof -
  obtain m ms where m: "hb [0x14C4] = m # ms"
    using assms by (cases "hb [0x14C4]") (auto simp: text_shaper_def split: if_splits)
  with assms obtain k ks where k: "hb_shape_text hb m kashida = Inr (k # ks)"
    by (auto simp: text_shaper_def bindE_Inr_iff neq_Nil_conv split: if_splits list.splits)
  then have "hb kashida = k # ks" by (simp add: hb_shape_text_def split: if_splits)
  with k m assms that show thesis by (auto simp: text_shaper_def bindE_Inr_iff split: if_splits)
qed

lemma generated_dict_ok:
  assumes "generate_forms hb m k (map (\<lambda>c. [c]) A @ lig_chars) = Inr dict" "alphabet_ok A"
  shows "dict_ok dict"
proof -
  have "chars_ok (map (\<lambda>c. [c]) A @ lig_chars)"
    using assms(2) by (auto simp: chars_ok_def lig_chars_def alphabet_ok_def)
  with generate_forms_dict [OF assms(1)] show ?thesis
    using chars_ok_set [of "map fst dict" "map (\<lambda>c. [c]) A @ lig_chars"] by (simp add: dict_ok_def)
qed

lemma text_shaper_dict:
  assumes "text_shaper hb A = Inr (T, codepts)" and "alphabet_ok A"
  obtains dict where "tables_of_forms dict = Inr T" "dict_ok dict"
proof (rule text_shaper_Inr [OF assms(1)])
  fix m k ks dict st sel
  assume "generate_forms hb m k (map (\<lambda>c. [c]) A @ lig_chars) = Inr dict" "pack_lut dict = Inr st" "packed_tables st = Inr T"
  with generated_dict_ok [OF _ assms(2)] that [of dict] show thesis by (simp add: tables_of_forms_def)
qed

lemma full_alphabet_ok: "alphabet_ok full_alphabet"
  by (simp add: alphabet_ok_def full_alphabet_def kashida_def arabic_letter_def gen_is_zero_width_code RANGE_def)

lemma arabic_alphabet_ok: "alphabet_ok arabic_alphabet"
  by (simp add: alphabet_ok_def arabic_alphabet_def kashida_def arabic_letter_def gen_is_zero_width_code RANGE_def)

text \<open>The scratch ranges hold 208 code points, which bounds what can be packed.\<close>

lemma codept_bound:
  assumes "tables_of_forms dict = Inr T" and "dict_ok dict"
  shows "card (\<Union>d \<in> set dict. set (snd d)) + length (filter (\<lambda>d. length (fst d) \<noteq> 1) dict) \<le> 208"
proof -
  let ?F = "\<lambda>ch. the (map_of dict ch)"
  from tables_of_forms_built [OF assms] obtain es st where
    b: "built ?F es st T" and es: "map fst es = sort (map fst dict)" .
  let ?L = "map snd (filter is_lig es)" and ?S = "selected_glyphs st"
  have al: "alloc_ok ?L st" using b by (simp add: built_def packed_def)
  have "set (map snd ?S @ ?L) \<subseteq> set scratch_codepts" "distinct (map snd ?S @ ?L)"
    using al unfolding alloc_ok_def by auto
  then have "length (map snd ?S @ ?L) \<le> length scratch_codepts"
    by (metis card_length card_mono distinct_card finite_set order_trans)
  then have len: "length ?S + length ?L \<le> 208" by (simp add: scratch_codepts_def)
  have F: "?F (fst d) = snd d" if "d \<in> set dict" for d
  proof -
    obtain a b where d: "d = (a, b)" by (cases d)
    show ?thesis using that assms(2) map_of_is_SomeI [of dict a b] by (simp add: d dict_ok_def)
  qed
  have keys: "fst ` set es = fst ` set dict"
    using arg_cong [OF es, of set] by simp
  have "(\<Union>d \<in> set dict. set (snd d)) \<subseteq> dom (map_of ?S)"
  proof
    fix g assume "g \<in> (\<Union>d \<in> set dict. set (snd d))"
    then obtain d where d: "d \<in> set dict" "g \<in> set (snd d)" by auto
    then obtain e where e: "e \<in> set es" "fst e = fst d" using keys by (metis imageE imageI)
    then have "entry_ok ?F st e" using b by (simp add: built_def packed_def)
    then have "set (?F (fst d)) \<subseteq> dom (map_of ?S)" by (simp add: entry_ok_def e(2))
    with d F show "g \<in> dom (map_of ?S)" by auto
  qed
  from card_mono [OF _ this] have "card (\<Union>d \<in> set dict. set (snd d)) \<le> length ?S"
    by (simp add: dom_map_of_conv_image_fst) (meson card_image_le card_length finite_set order_trans)
  moreover have "length ?L = length (filter (\<lambda>d. length (fst d) \<noteq> 1) dict)"
  proof -
    have "length ?L = length (filter (\<lambda>ch. length ch \<noteq> 1) (map fst es))"
      by (simp add: filter_map comp_def is_lig_def [abs_def])
    also have "\<dots> = length (filter (\<lambda>ch. length ch \<noteq> 1) (map fst dict))"
      by (simp only: es) (metis mset_filter mset_sort size_mset)
    finally show ?thesis by (simp add: filter_map comp_def)
  qed
  ultimately show ?thesis using len by simp
qed

section \<open>Shared glyphs\<close>

text \<open>
  Where characters share a glyph, the tables lead back from it to the first of them in the order of
  the table, which is that of the characters.
\<close>

definition first_with :: "(chars \<times> glyph list) list \<Rightarrow> glyph \<Rightarrow> nat" where
  "first_with dict g = Min (set (map (hd \<circ> fst) (filter (\<lambda>d. g \<in> set (snd d)) dict)))"

text \<open>A letter of the dictionary and a glyph of it that no ligature has.\<close>

definition letter_glyph :: "(chars \<times> glyph list) list \<Rightarrow> nat \<Rightarrow> glyph list \<Rightarrow> glyph \<Rightarrow> bool" where
  "letter_glyph dict c gs g \<longleftrightarrow> ([c], gs) \<in> set dict \<and> g \<in> set gs \<and> (\<forall>d \<in> set dict. g \<in> set (snd d) \<longrightarrow> length (fst d) = 1)"

lemma built_letter_entry:
  assumes b: "built F es st T" and e: "e \<in> set es" "\<not> is_lig e" and dist: "distinct (map fst es)"
  shows "find_lut_entry_by_codept T (of_nat (snd e)) = Some (entry_of F st e)"
proof -
  have u: "d = e" if d: "d \<in> set es" "true_codept (entry_of F st d) = of_nat (snd e)" for d
  proof -
    have "snd d = snd e"
      using d(2) built_true_codept(1,3) [OF b d(1)] built_true_codept(3) [OF b e(1)] u16_inj
      by (auto simp: inj_on_def)
    moreover have "snd e < 0x700" using built_true_codept(4) [OF b e] arabic_letter_bounds by auto
    ultimately have "\<not> is_lig d" using built_lig_codept(2) [OF b d(1)] by auto
    then have "fst d = fst e" using built_true_codept(4) [OF b d(1)] built_true_codept(4) [OF b e] \<open>snd d = snd e\<close> by simp
    with dist d(1) e(1) show "d = e" by (auto simp: distinct_map inj_on_def)
  qed
  from built_find [OF b e(1)] obtain x where x: "find_lut_entry_by_codept T (of_nat (snd e)) = Some x" by auto
  from find_lut_entry_Some [OF x] u show ?thesis by (auto simp: x built_shaper_lut [OF b])
qed

lemma built_base_first:
  assumes b: "built F es st T" and s: "sorted (map fst es)" and e: "e \<in> set es" "g \<in> set (F (fst e))"
  obtains d where "d \<in> set es" "g \<in> set (F (fst d))" "\<forall>d' \<in> set es. g \<in> set (F (fst d')) \<longrightarrow> fst d \<le> fst d'"
    "find_base_codept_by_shaped T (of_nat (glyph_codept st g)) = of_nat (snd d)"
proof -
  have al: "alloc_ok (map snd (filter is_lig es)) st" using b by (simp add: built_def packed_def)
  have dom: "h \<in> dom (map_of (selected_glyphs st))" if "d \<in> set es" "h \<in> set (F (fst d))" for d h
    using b that by (auto simp: built_def packed_def entry_ok_def)
  have u: "uint (of_nat (glyph_codept st g) :: u16) = int (glyph_codept st g)"
    using built_codept(3) [OF b e] by (simp add: uint_u16)
  have own: "int (glyph_codept st g) \<in> set (forms (entry_of F st d)) \<longleftrightarrow> g \<in> set (F (fst d))" if d: "d \<in> set es" for d
  proof
    assume "int (glyph_codept st g) \<in> set (forms (entry_of F st d))"
    then obtain h where h: "h \<in> set (F (fst d))" "glyph_codept st g = glyph_codept st h"
      by (auto simp: built_forms [OF b d])
    with glyph_codept_inj [OF al dom [OF e] dom [OF d h(1)] h(2)] show "g \<in> set (F (fst d))" by simp
  qed (auto simp: built_forms [OF b d])
  let ?P = "\<lambda>d. uint (of_nat (glyph_codept st g) :: u16) \<in> set (forms d)"
  have "find ?P (shaper_lut T) \<noteq> None"
    using own [OF e(1)] e by (auto simp: find_None_iff built_shaper_lut [OF b] u)
  then obtain x where x: "find ?P (shaper_lut T) = Some x" by auto
  then obtain i where i: "i < length es" "?P (entry_of F st (es ! i))" "\<forall>j < i. \<not> ?P (entry_of F st (es ! j))"
    "x = entry_of F st (es ! i)"
    by (auto simp: find_Some_iff built_shaper_lut [OF b])
  have least: "fst (es ! i) \<le> fst d'" if d': "d' \<in> set es" "g \<in> set (F (fst d'))" for d'
  proof -
    from d'(1) obtain j where j: "j < length es" "d' = es ! j" by (auto simp: in_set_conv_nth)
    with i(3) own [OF d'(1)] d'(2) u have "i \<le> j" by (metis leI)
    with s j i(1) show ?thesis by (auto simp: sorted_iff_nth_mono)
  qed
  show ?thesis
    using i least own [of "es ! i"] u built_true_codept(1) [OF b, of "es ! i"]
    by (intro that [of "es ! i"]) (auto simp: base_of_form x [unfolded u])
qed

lemma built_base_letter:
  assumes b: "built (\<lambda>ch. the (map_of dict ch)) es st T" and es: "map fst es = sort (map fst dict)" and ok: "dict_ok dict"
    and g: "letter_glyph dict c gs g"
  shows "find_base_codept_by_shaped T (of_nat (glyph_codept st g)) = of_nat (first_with dict g)"
    and "first_with dict g \<le> c" and "0x60E \<le> first_with dict g" and "first_with dict g < 0x700"
proof -
  let ?F = "\<lambda>ch. the (map_of dict ch)"
  have F: "?F (fst d) = snd d" if "d \<in> set dict" for d
  proof -
    obtain x y where d: "d = (x, y)" by (cases d)
    show ?thesis using that ok map_of_is_SomeI [of dict x y] by (simp add: d dict_ok_def)
  qed
  have keys: "fst ` set es = fst ` set dict" using arg_cong [OF es, of set] by simp
  have c: "([c], gs) \<in> set dict" "g \<in> set gs" using g by (auto simp: letter_glyph_def)
  then obtain e where e: "e \<in> set es" "fst e = [c]" using keys by (metis fst_conv imageE imageI)
  then have "g \<in> set (?F (fst e))" using F [OF c(1)] c(2) by simp
  moreover have "sorted (map fst es)" by (simp add: es)
  ultimately obtain d where d: "d \<in> set es" "g \<in> set (?F (fst d))"
    "\<forall>d' \<in> set es. g \<in> set (?F (fst d')) \<longrightarrow> fst d \<le> fst d'"
    "find_base_codept_by_shaped T (of_nat (glyph_codept st g)) = of_nat (snd d)"
    using built_base_first [OF b _ e(1)] by blast
  from d(1) keys obtain d0 where d0: "d0 \<in> set dict" "fst d0 = fst d" by (metis imageE imageI)
  then have "length (fst d) = 1" using g F [OF d0(1)] d(2) by (auto simp: letter_glyph_def)
  then have d1: "fst d = [snd d]" "arabic_letter (snd d)" using built_true_codept(4) [OF b d(1)] by (auto simp: is_lig_def)
  have "first_with dict g = snd d"
    unfolding first_with_def
  proof (rule Min_eqI)
    show "snd d \<in> set (map (hd \<circ> fst) (filter (\<lambda>d. g \<in> set (snd d)) dict))"
    proof -
      have "g \<in> set (snd d0)" "snd d = hd (fst d0)" using d0 d1(1) F [OF d0(1)] d(2) by simp_all
      with d0(1) show ?thesis unfolding set_map set_filter comp_def by blast
    qed
    fix y assume "y \<in> set (map (hd \<circ> fst) (filter (\<lambda>d. g \<in> set (snd d)) dict))"
    then obtain q where q: "q \<in> set dict" "g \<in> set (snd q)" "y = hd (fst q)" by auto
    with g have "fst q = [y]" by (auto simp: letter_glyph_def length_Suc_conv)
    moreover obtain d' where "d' \<in> set es" "fst d' = fst q" using q(1) keys by (metis imageE imageI)
    ultimately have "[snd d] \<le> [y]" using d(3) F [OF q(1)] q(2) d1(1) by metis
    then show "snd d \<le> y" by auto
  qed simp
  then show "find_base_codept_by_shaped T (of_nat (glyph_codept st g)) = of_nat (first_with dict g)"
    "0x60E \<le> first_with dict g" "first_with dict g < 0x700"
    using d(4) arabic_letter_bounds [OF d1(2)] by auto
  have "fst d \<le> [c]" using d(3) e \<open>g \<in> set (?F (fst e))\<close> by metis
  then show "first_with dict g \<le> c" using \<open>first_with dict g = snd d\<close> d1(1) by auto
qed

text \<open>
  A word of two letters, the first with forms that join on both sides: it is drawn with the first
  letter's initial glyph and the second's final glyph.
\<close>

lemma built_two_letters:
  assumes b: "built F es st T" and dist: "distinct (map fst es)"
    and e: "e \<in> set es" "fst e = [snd e]" and d: "d \<in> set es" "fst d = [snd d]"
    and joins: "F (fst e) ! 2 \<noteq> F (fst e) ! 3" and nolig: "[snd e, snd d] \<notin> fst ` set es"
  shows "shape_runes T [enc2 (of_nat (snd e)), enc2 (of_nat (snd d))]
    = [enc2 (of_nat (glyph_codept st (F (fst e) ! 1))), enc2 (of_nat (glyph_codept st (F (fst d) ! 3)))]"
proof -
  have zw: "is_zero_width T = gen_is_zero_width" using b by (simp add: built_def)
  have nl: "\<not> is_lig e" "\<not> is_lig d" using e(2) d(2) by (simp_all add: is_lig_def)
  have let1: "arabic_letter (snd e)" "arabic_letter (snd d)" using built_true_codept(4) [OF b] e(1) d(1) nl by auto
  note bd = arabic_letter_bounds [OF let1(1)] arabic_letter_bounds [OF let1(2)]
  have cp: "rune_cp (enc2 (of_nat n)) = of_nat n" if "n < 0x700" for n
    using that rune_cp_enc2 [of "of_nat n"] by (simp add: unat_u16)
  have f: "find_lut_entry_by_codept T (of_nat (snd e)) = Some (entry_of F st e)" "find_lut_entry_by_codept T (of_nat (snd d)) = Some (entry_of F st d)"
    using built_letter_entry [OF b] e(1) d(1) nl dist by auto
  have "lig_lookup (ligatures T) (of_nat (snd e)) (of_nat (snd d)) = 0"
  proof (rule ccontr)
    assume "\<not> ?thesis"
    from lig_lookup_entry [OF this] obtain l where l: "l \<in> set es" "is_lig l"
      "fst (lig_of l) = of_nat (snd e)" "fst (snd (lig_of l)) = of_nat (snd d)"
      unfolding built_ligatures(2) [OF b] set_map set_filter by (metis (no_types, lifting) fst_conv imageE mem_Collect_eq snd_conv)
    have "chars_ok (map fst es)" using b by (simp add: built_def)
    from lig_char [OF this l(1,2)] obtain x y where xy: "fst l = [x, y]" "arabic_letter x" "arabic_letter y" .
    have "x = snd e" "y = snd d"
      using l(3,4) bd arabic_letter_bounds [OF xy(2)] arabic_letter_bounds [OF xy(3)] u16_inj
      by (auto simp: lig_of_def xy(1) inj_on_def)
    with xy(1) l(1) nolig show False by (metis image_eqI)
  qed
  moreover have "\<not> is_zero_width T (of_nat (snd e))" "\<not> is_zero_width T (of_nat (snd d))"
    using arabic_letter_class(4) [OF _ zw] let1 by auto
  ultimately have t: "tokens T [enc2 (of_nat (snd e)), enc2 (of_nat (snd d))]
      = [Joining (entry_of F st e) (enc2 (of_nat (snd e))), Joining (entry_of F st d) (enc2 (of_nat (snd d)))]"
    using f bd by (simp add: tokens_def classify_def cp)
  have len: "length (F (fst e)) = 4" "length (F (fst d)) = 4" using b e(1) d(1) by (auto simp: built_def)
  have fe: "forms (entry_of F st e) ! i = int (glyph_codept st (F (fst e) ! i))"
    and fd: "forms (entry_of F st d) ! i = int (glyph_codept st (F (fst d) ! i))" if "i < 4" for i
    using built_forms [OF b] e(1) d(1) len that by simp_all
  have al: "alloc_ok (map snd (filter is_lig es)) st" using b by (simp add: built_def packed_def)
  have "set (F (fst e)) \<subseteq> dom (map_of (selected_glyphs st))"
    using b e(1) by (simp add: built_def packed_def entry_ok_def)
  then have "F (fst e) ! i \<in> dom (map_of (selected_glyphs st))" if "i < 4" for i
    using len(1) that nth_mem [of i "F (fst e)"] by (metis subsetD)
  with glyph_codept_inj [OF al] joins have "forms (entry_of F st e) ! 2 \<noteq> forms (entry_of F st e) ! 3"
    by (auto simp: fe)
  then have j: "joins_both_sides (entry_of F st e)" by (auto simp: joins_both_sides_def forms_def)
  have "form16 (entry_of F st e) (initial_codept_delta (entry_of F st e)) = of_nat (glyph_codept st (F (fst e) ! 1))"
    "form16 (entry_of F st d) (final_codept_delta (entry_of F st d)) = of_nat (glyph_codept st (F (fst d) ! 3))"
    using fe [of 1] fd [of 3] by (simp_all add: form16_def forms_def)
  with j show ?thesis by (simp add: shape_runes_def t code_form_def joined_form_def Let_def)
qed

text \<open>Unshaping such a word finds the first letter that has the glyph.\<close>

lemma built_unshape_two:
  assumes b: "built (\<lambda>ch. the (map_of dict ch)) es st T" and es: "map fst es = sort (map fst dict)" and ok: "dict_ok dict"
    and g: "letter_glyph dict c gs g" and h: "letter_glyph dict d hs h"
  shows "unshape_text T (xs @ concat [enc2 (of_nat (glyph_codept st g)), enc2 (of_nat (glyph_codept st h))] @ 0 # ys) (length xs)
    = Some (xs @ concat [enc2 (of_nat (first_with dict g)), enc2 (of_nat (first_with dict h))] @ 0 # ys)"
proof -
  have keys: "fst ` set es = fst ` set dict" using arg_cong [OF es, of set] by simp
  have rune: "rune_ok (enc2 (of_nat (glyph_codept st g)))" "rune_cp (enc2 (of_nat (glyph_codept st g))) = of_nat (glyph_codept st g)"
    "ARABIC_SHAPER_RANGE T (of_nat (glyph_codept st g))" "find_base_codept_by_shaped T (of_nat (glyph_codept st g)) = of_nat (first_with dict g)"
    "of_nat (first_with dict g) \<noteq> (0 :: u16)" "lig_parts (ligatures T) (of_nat (first_with dict g)) = None"
    if g: "letter_glyph dict c gs g" for c gs g
  proof -
    have c: "([c], gs) \<in> set dict" "g \<in> set gs" using g by (auto simp: letter_glyph_def)
    then obtain e where e: "e \<in> set es" "fst e = [c]" using keys by (metis fst_conv imageE imageI)
    have "the (map_of dict [c]) = gs" using c ok map_of_is_SomeI [of dict "[c]" gs] by (simp add: dict_ok_def)
    then have g': "g \<in> set (the (map_of dict (fst e)))" using c e by simp
    note cp = built_codept [OF b e(1) g']
    have u: "unat (of_nat (glyph_codept st g) :: u16) < 0x800" using cp(3) by (simp add: unat_u16)
    show "rune_ok (enc2 (of_nat (glyph_codept st g)))" by (rule rune_ok_enc2 [OF u])
    show "rune_cp (enc2 (of_nat (glyph_codept st g))) = of_nat (glyph_codept st g)" by (rule rune_cp_enc2 [OF u])
    show "ARABIC_SHAPER_RANGE T (of_nat (glyph_codept st g))" using built_range [OF b] cp by simp
    note fw = built_base_letter [OF b es ok g]
    show "find_base_codept_by_shaped T (of_nat (glyph_codept st g)) = of_nat (first_with dict g)" by (rule fw(1))
    have un: "unat (of_nat (first_with dict g) :: u16) = first_with dict g" using fw(4) by (intro unat_u16) simp
    show "of_nat (first_with dict g) \<noteq> (0 :: u16)" using un fw(3) by (metis not_numeral_le_zero unat_0)
    have "snd (snd (lig_of l)) \<noteq> of_nat (first_with dict g)" if "l \<in> set es" "is_lig l" for l
      using built_lig_codept(2,3) [OF b that] fw(4) un unat_u16 [of "snd l"] by (auto simp: lig_of_def)
    then have "\<forall>l \<in> set (ligatures T). snd (snd l) \<noteq> of_nat (first_with dict g)"
      unfolding built_ligatures(2) [OF b] set_map set_filter by blast
    then show "lig_parts (ligatures T) (of_nat (first_with dict g)) = None"
      by (auto simp: lig_parts_def find_None_iff)
  qed
  note G = rune [OF g] and H = rune [OF h]
  have "unshape_ok T 0 [enc2 (of_nat (glyph_codept st g)), enc2 (of_nat (glyph_codept st h))]"
    using G H enc2_lead_nonzero by (simp add: unshape_ok.simps(2) Let_def)
  from unshape_text_runes [OF built_tables_ok [OF b] this, of xs ys] G H show ?thesis
    by (simp add: unshape_runes_def unshape_go.simps(2) Let_def)
qed

theorem shared_glyph_round_trip:
  assumes T: "tables_of_forms dict = Inr T" and ok: "dict_ok dict"
    and b: "([b], hs) \<in> set dict" and d: "([d], ks) \<in> set dict" and joins: "hs ! 2 \<noteq> hs ! 3" and nolig: "[b, d] \<notin> fst ` set dict"
    and letters: "\<forall>p \<in> set dict. set (snd p) \<inter> {hs ! 1, ks ! 3} \<noteq> {} \<longrightarrow> length (fst p) = 1"
  shows "Option.bind (shape_text T (xs @ concat [enc2 (of_nat b), enc2 (of_nat d)] @ 0 # ys) (length xs)) (\<lambda>m. unshape_text T m (length xs))
    = Some (xs @ concat [enc2 (of_nat (first_with dict (hs ! 1))), enc2 (of_nat (first_with dict (ks ! 3)))] @ 0 # ys)"
proof -
  let ?F = "\<lambda>ch. the (map_of dict ch)"
  from tables_of_forms_built [OF T ok] obtain es st where
    bt: "built ?F es st T" and es: "map fst es = sort (map fst dict)" .
  have keys: "fst ` set es = fst ` set dict" using arg_cong [OF es, of set] by simp
  have dist: "distinct (map fst es)" using ok by (simp add: es dict_ok_def)
  have F: "?F [b] = hs" "?F [d] = ks" using b d ok map_of_is_SomeI [of dict] by (auto simp: dict_ok_def)
  have len: "length hs = 4" "length ks = 4" using b d ok by (auto simp: dict_ok_def)
  have entry: "\<exists>e \<in> set es. fst e = [snd e] \<and> snd e = c" if "([c], gs) \<in> set dict" for c gs
  proof -
    from that obtain e where e: "e \<in> set es" "fst e = [c]" using keys by (metis fst_conv imageE imageI)
    then show ?thesis using built_true_codept(4) [OF bt e(1)] by (auto simp: is_lig_def)
  qed
  from entry [OF b] obtain eb where eb: "eb \<in> set es" "fst eb = [snd eb]" "snd eb = b" by blast
  from entry [OF d] obtain ed where ed: "ed \<in> set es" "fst ed = [snd ed]" "snd ed = d" by blast
  have sh: "shape_runes T [enc2 (of_nat b), enc2 (of_nat d)]
      = [enc2 (of_nat (glyph_codept st (hs ! 1))), enc2 (of_nat (glyph_codept st (ks ! 3)))]"
    using built_two_letters [OF bt dist eb(1,2) ed(1,2)] joins nolig by (simp add: eb(2,3) ed(2,3) F keys)
  have "text_rune T (enc2 (of_nat c))" if "([c], gs) \<in> set dict" for c gs
  proof -
    from entry [OF that] obtain e where e: "e \<in> set es" "fst e = [snd e]" "snd e = c" by blast
    then have "arabic_letter c" using built_true_codept(4) [OF bt e(1)] by (auto simp: is_lig_def)
    note bd = arabic_letter_bounds [OF this]
    then have u: "unat (of_nat c :: u16) = c" by (intro unat_u16) simp
    then have "of_nat c \<noteq> (0 :: u16)" using bd by (metis not_numeral_le_zero unat_0)
    then show ?thesis using rune_ok_enc2 [of "of_nat c"] rune_cp_enc2 [of "of_nat c"] enc2_lead_nonzero bd u by (simp add: text_rune_def)
  qed
  then have ok2: "text_ok T [enc2 (of_nat b), enc2 (of_nat d)]" using b d by (simp add: text_ok_def)
  have "letter_glyph dict b hs (hs ! 1)" "letter_glyph dict d ks (ks ! 3)"
    using b d letters len by (auto simp: letter_glyph_def)
  from built_unshape_two [OF bt es ok this] shape_text_runes [OF built_tables_ok [OF bt] ok2, of xs ys] show ?thesis
    by (simp add: sh)
qed

lemma first_with_le:
  assumes "([a], gs) \<in> set dict" and "g \<in> set gs"
  shows "first_with dict g \<le> a"
  unfolding first_with_def using assms by (intro Min_le) (force simp: image_iff)+

section \<open>The interface between generator and runtime\<close>

text \<open>
  What the runtime needs of whoever writes its tables, and what it promises in return for any
  of them.
\<close>

locale table_source =
  fixes gen :: "'f \<Rightarrow> 'e + tables"
    and usable :: "'f \<Rightarrow> bool"
  assumes gen_tables_ok: "gen f = Inr T \<Longrightarrow> usable f \<Longrightarrow> tables_ok T"
    and gen_directed: "gen f = Inr T \<Longrightarrow> usable f \<Longrightarrow> tables_directed T"
begin

lemma gen_draw:
  assumes "gen f = Inr T" "usable f" "text_ok T rs"
  shows "graphics_draw_text_patch T (xs @ concat rs @ 0 # ys) (length xs) a
    = Some (xs @ concat (shape_runes T rs) @ 0 # ys,
        if a = GTextAlignmentLeft \<and> starts_rtl T rs then GTextAlignmentRight else a)"
  by (rule draw_text_patch_runes [OF gen_tables_ok gen_directed assms(3)]) (rule assms)+

end

lemma text_shaper_tables:
  assumes "map_sum id fst (text_shaper hb A) = Inr T" "alphabet_ok A"
  shows "tables_ok T" "tables_directed T"
proof -
  from assms(1) obtain codepts where "text_shaper hb A = Inr (T, codepts)" by (cases "text_shaper hb A") auto
  from text_shaper_dict [OF this assms(2)] obtain dict where "tables_of_forms dict = Inr T" "dict_ok dict" .
  then show "tables_ok T" "tables_directed T" by (rule tables_of_forms_ok)+
qed

interpretation font: table_source "\<lambda>(hb, A). map_sum id fst (text_shaper hb A)" "\<lambda>(hb, A). alphabet_ok A"
  by unfold_locales (auto dest: text_shaper_tables)

end
