(* ===== verification/Sample_Tables.thy ===== *)
theory Sample_Tables
  imports Lut_Refine
begin

text \<open>
  A small instance of the generated tables, for the letters alef, beh and lam and the ligature
  lam-alef, laid out as \<^verbatim>\<open>fonts/text_shaper.py\<close> does; and sample texts.  The theorems of the
  development are evaluated on them.
\<close>

definition demo :: tables where
  "demo = \<lparr>ARABIC_SHAPER_LUT =
       [0x27, 0x06, 0x00, 0x07, 0, 1, 1, 0x28, 0x06, 0x02, 0x07, 1, 2, 3,
        0x44, 0x06, 0x06, 0x07, 1, 2, 3, 0x0A, 0x07, 0x0B, 0x07, 0, 1, 1],
     ARABIC_LIGATURE_LUT = [0x44, 0x06, 0x27, 0x06, 0x0A, 0x87],
     ARABIC_SHAPER_RANGE = (\<lambda>cp. RANGE cp 0x700 0x70D),
     is_zero_width = gen_is_zero_width, ZERO_WIDTH_CODEPT = gen_ZERO_WIDTH_CODEPT, past_buffer = 0\<rparr>"

abbreviation "alef \<equiv> [0xD8, 0xA7] :: rune"
abbreviation "beh \<equiv> [0xD8, 0xA8] :: rune"
abbreviation "lam \<equiv> [0xD9, 0x84] :: rune"
abbreviation "fatha \<equiv> [0xD9, 0x8E] :: rune"
abbreviation "latin_a \<equiv> [0x61] :: rune"
abbreviation "blank \<equiv> [0x20] :: rune"
abbreviation "full_stop \<equiv> [0x2E] :: rune"
abbreviation "paren_open \<equiv> [0x28] :: rune"
abbreviation "paren_close \<equiv> [0x29] :: rune"
abbreviation "digit_one \<equiv> [0x31] :: rune"
abbreviation "digit_two \<equiv> [0x32] :: rune"

text \<open>A word with a diacritic and a ligature, then a Latin letter.\<close>

definition demo_text :: "rune list" where
  "demo_text = [beh, fatha, lam, alef, blank, latin_a]"

lemma demo_ok: "tables_ok demo" by code_simp

lemma demo_reversible: "reversible demo" by code_simp

lemma demo_forms_follow: "forms_follow demo" by code_simp

lemma demo_directed: "tables_directed demo" by code_simp

lemma demo_text_ok: "text_ok demo demo_text" by code_simp

lemma demo_text_plain: "plain_text demo demo_text" by code_simp

lemma demo_shaped:
  "shape_runes demo demo_text = [[0xDC, 0x83], fatha, [0xD6, 0x91], [0xDC, 0x8C], blank, latin_a]"
  by code_simp

lemma demo_unshape_ok: "unshape_ok demo 0 [[0xDC, 0x83], [0xDC, 0x85], latin_a]"
  by code_simp

text \<open>A rectangle, and a line in RAM: two letters, two blanks, then the stack with the line end.\<close>

abbreviation "demo_box \<equiv>
  \<lparr>rc_origin = \<lparr>pt_x = 0, pt_y = 0\<rparr>, rc_size = \<lparr>sz_w = 144, sz_h = 168\<rparr>\<rparr>"

abbreviation "ram \<equiv> 0x20000000 :: nat"
abbreviation "ram_stack \<equiv> [0, 0, 0, 0, 0, 0, 0x06, 0, 0, 0x20] :: mem"

lemma ram_line: "at_line (LINEEND_SP_OFF 0) ram [] (concat [beh, lam]) 2 ram_stack False (ram + 8)"
  by (simp add: at_line_def SRAM_BASE_def slots_apart_def ld32_def ld8_def rd_def nth_append)

text \<open>
  A drawing routine that draws the sample text in two lines: it records the line ends in the
  words behind the text, and its render handler writes to the byte in front of it.
\<close>

definition demo_line :: "nat \<Rightarrow> bool \<Rightarrow> draw_line" where
  "demo_line start more_text =
     \<lparr>dl_setup = (\<lambda>m. Some (take 12 m @ [0x0A, 0, 0, 0x20, 0x0B, 0, 0, 0x20] @ drop 20 m)),
      dl_handler = (\<lambda>m. Some (m[0 := 0xFF])), dl_start = start, dl_more_text = more_text, dl_callsite_sp = ram + 12\<rparr>"

definition demo_draw :: firmware_draw where
  "demo_draw = \<lparr>fd_lines = [demo_line (ram + 1) True, demo_line (ram + 10) False], fd_finish = Some\<rparr>"

lemma demo_setup_spares: "spares 20 1 12 (dl_setup (demo_line start b))"
  unfolding spares_def
proof (intro allI impI)
  fix xs B ys :: mem
  assume l: "length (xs @ B @ ys) = 20 \<and> length xs = 1 \<and> length (xs @ B) = 12"
  then have "take 12 (xs @ B @ ys) = xs @ B" "drop 20 (xs @ B @ ys) = []" by auto
  with l show "\<exists>xs' ys'. dl_setup (demo_line start b) (xs @ B @ ys) = Some (xs' @ B @ ys') \<and> length xs' = 1 \<and> length ys' = length ys"
    by (intro exI [of _ xs] exI [of _ "[0x0A, 0, 0, 0x20, 0x0B, 0, 0, 0x20]"]) (simp add: demo_line_def)
qed

lemma demo_handler_spares: "spares 20 1 12 (dl_handler (demo_line start b))"
  unfolding spares_def
proof (intro allI impI)
  fix xs B ys :: mem
  assume "length (xs @ B @ ys) = 20 \<and> length xs = 1 \<and> length (xs @ B) = 12"
  then show "\<exists>xs' ys'. dl_handler (demo_line start b) (xs @ B @ ys) = Some (xs' @ B @ ys') \<and> length xs' = 1 \<and> length ys' = length ys"
    by (intro exI [of _ "[0xFF]"] exI [of _ ys]) (cases xs; simp add: demo_line_def)
qed

lemma demo_handler_ends: "keeps_ends (LINEEND_SP_OFF 0) ram (ram + 12) (dl_handler (demo_line start b))"
  by (simp add: keeps_ends_def demo_line_def ld32_def ld8_def rd_def)

lemma demo_marks:
  assumes "start + len + k = (if b then ram + 10 else ram + 11)" and "start + len \<le> ram + 12"
  shows "marks_line 20 (LINEEND_SP_OFF 0) ram (demo_line start b) len k"
  unfolding marks_line_def
proof (intro allI impI)
  fix m m'
  assume m: "length m = 20" "dl_setup (demo_line start b) m = Some m'"
  then have m': "m' = take 12 m @ [0x0A, 0, 0, 0x20, 0x0B, 0, 0, 0x20]" by (simp add: demo_line_def)
  have "line_ends (LINEEND_SP_OFF 0) ram m' (ram + 12) = Some (ram + 10, ram + 11)"
    using m(1) by (simp add: m' ld32_def ld8_def rd_def nth_append)
  then show "(case line_ends (LINEEND_SP_OFF 0) ram m' (dl_callsite_sp (demo_line start b)) of None \<Rightarrow> False
      | Some (e1, e2) \<Rightarrow> (if dl_more_text (demo_line start b) then e1 else e2) = dl_start (demo_line start b) + len + k) \<and>
     slots_apart (LINEEND_SP_OFF 0) ram m' (dl_callsite_sp (demo_line start b)) (dl_start (demo_line start b))
       (dl_start (demo_line start b) + len)"
    using assms by (auto simp: demo_line_def slots_apart_def)
qed

lemma demo_line_draws:
  assumes "shape_runes demo demo_text = ps @ ln @ replicate k [0x20] @ qs" and "undone_line demo ln"
    and "start = ram + 1 + length (concat ps)"
    and "start + length (concat ln) + k = (if b then ram + 10 else ram + 11)" and "start + length (concat ln) \<le> ram + 12"
  shows "draws_line demo (LINEEND_SP_OFF 0) ram 20 1 (shape_runes demo demo_text) (demo_line start b)"
proof -
  have len: "1 + length (concat (shape_runes demo demo_text)) + 1 = 12" by (simp add: demo_shaped)
  have sel: "dl_start (demo_line start b) = start" "dl_callsite_sp (demo_line start b) = ram + 12"
    by (simp_all add: demo_line_def)
  show ?thesis
    unfolding draws_line_def Let_def len sel
    using demo_setup_spares demo_handler_spares demo_handler_ends demo_marks [OF assms(4,5)] assms(1-3) by blast
qed

lemma demo_draws:
  assumes "l \<in> set (fd_lines demo_draw)"
  shows "draws_line demo (LINEEND_SP_OFF 0) ram 20 1 (shape_runes demo demo_text) l"
proof -
  let ?p = "[[0xDC, 0x83], fatha, [0xD6, 0x91], [0xDC, 0x8C]]"
  have u: "undone_line demo ?p" "undone_line demo [latin_a]" by code_simp+
  from assms consider "l = demo_line (ram + 1) True" | "l = demo_line (ram + 10) False"
    by (auto simp: demo_draw_def)
  then show ?thesis
    using demo_line_draws [of "[]" ?p 1 "[latin_a]" "ram + 1" True] demo_line_draws [of "?p @ [blank]" "[latin_a]" 0 "[]" "ram + 10" False] u
    by cases (simp_all add: demo_shaped)
qed

text \<open>The same tables with hamza, which has one glyph for all its forms.\<close>

definition hamza_demo :: tables where
  "hamza_demo = demo\<lparr>ARABIC_SHAPER_LUT := [0x21, 0x06, 0x0D, 0x07, 0, 0, 0] @ ARABIC_SHAPER_LUT demo\<rparr>"

abbreviation "hamza \<equiv> [0xD8, 0xA1] :: rune"

lemma hamza_demo_ok: "tables_ok hamza_demo" by code_simp

section \<open>The generator on a sample font\<close>

text \<open>A font with glyphs for these letters: glyph 0 for what is missing, 1 for the kashida.\<close>

definition demo_hb :: "chars \<Rightarrow> glyph list" where
  "demo_hb s = (case map_of
     [([0x640], [1]),
      ([0x627], [2]), ([0x627, 0x640], [2, 1]), ([0x640, 0x627, 0x640], [1, 3, 1]), ([0x640, 0x627], [1, 3]),
      ([0x628], [4]), ([0x628, 0x640], [5, 1]), ([0x640, 0x628, 0x640], [1, 6, 1]), ([0x640, 0x628], [1, 7]),
      ([0x644], [8]), ([0x644, 0x640], [9, 1]), ([0x640, 0x644, 0x640], [1, 10, 1]), ([0x640, 0x644], [1, 11]),
      ([0x644, 0x627], [12]), ([0x644, 0x627, 0x640], [12, 1]), ([0x640, 0x644, 0x627, 0x640], [1, 13, 1]),
      ([0x640, 0x644, 0x627], [1, 13]),
      ([0x660], [20]), ([0x661], [21]), ([0x662], [22]), ([0x663], [23]), ([0x664], [24]), ([0x665], [25]), ([0x666], [26]),
      ([0x667], [27]), ([0x668], [28]), ([0x669], [29]), ([0x61F], [30]), ([0x61B], [31]), ([0x60C], [32])] s of
     None \<Rightarrow> [0] | Some g \<Rightarrow> g)"

definition demo_alphabet :: "nat list" where
  "demo_alphabet = [0x628, 0x627, 0x644]"

definition demo_dict :: "(chars \<times> glyph list) list" where
  "demo_dict = [([0x628], [4, 5, 6, 7]), ([0x627], [2, 2, 3, 3]), ([0x644], [8, 9, 10, 11]),
     ([0x644, 0x627], [12, 12, 13, 13])]"

lemma demo_forms: "generate_forms demo_hb 0 1 (map (\<lambda>c. [c]) demo_alphabet @ lig_chars) = Inr demo_dict"
  by (simp add: demo_hb_def demo_alphabet_def demo_dict_def lig_chars_def hb_shape_text_def kashida_def)

lemma demo_sorted: "sort (map fst demo_dict) = [[0x627], [0x628], [0x644], [0x644, 0x627]]"
  by (simp add: demo_dict_def)

lemmas pack_eval = pack_lut_def pack_char_def true_codept_of_def pack_init_def scratch_codepts_def
  select_glyph_def take_codept_def Let_def struct_pack_line_def struct_pack_H_def struct_pack_b_def

definition demo_selected :: "(glyph \<times> nat) list" where
  "demo_selected =
     [(13, 0x70C), (12, 0x70B), (11, 0x709), (10, 0x708), (9, 0x707), (8, 0x706), (7, 0x705), (6, 0x704), (5, 0x703), (4, 0x702), (3, 0x701), (2, 0x700)]"

lemma demo_pack:
  "\<exists>st. pack_lut demo_dict = Inr st \<and> lut_data st = ARABIC_SHAPER_LUT demo \<and>
     lig_data st = ARABIC_LIGATURE_LUT demo \<and> dirtied_codepts st = [0x700..<0x70D] \<and> selected_glyphs st = demo_selected"
  by (simp add: demo_sorted demo_def pack_eval) (simp add: demo_dict_def demo_selected_def pack_eval)

lemma demo_ranges: "contiguous_ranges [0x700..<0x70D] = Inr [(0x700, 0x70C)]"
  by (simp add: contiguous_ranges_def)

lemma demo_packed_tables:
  assumes "lut_data st = ARABIC_SHAPER_LUT demo" "lig_data st = ARABIC_LIGATURE_LUT demo" "dirtied_codepts st = [0x700..<0x70D]"
  shows "packed_tables st = Inr demo"
proof -
  have "(\<lambda>cp :: u16. 0x700 \<le> unat cp \<and> unat cp < 0x70C + 1) = (\<lambda>cp. RANGE cp 0x700 0x70D)"
    by (simp add: fun_eq_iff RANGE_def word_less_nat_alt word_le_nat_alt)
  with assms demo_ranges show ?thesis
    by (simp add: packed_tables_def write_lut_def del: upt_rec_numeral) (simp add: demo_def)
qed

lemma demo_tables: "tables_of_forms demo_dict = Inr demo"
  using demo_pack demo_packed_tables by (auto simp: tables_of_forms_def)

definition demo_codepts :: "(nat \<times> glyph) list" where
  "demo_codepts =
     [(0x70C, 13), (0x70B, 12), (0x709, 11), (0x708, 10), (0x707, 9), (0x706, 8), (0x705, 7), (0x704, 6), (0x703, 5), (0x702, 4), (0x701, 3), (0x700, 2),
      (0x661, 21), (0x662, 22), (0x663, 23), (0x664, 24), (0x665, 25), (0x666, 26), (0x667, 27), (0x668, 28), (0x669, 29), (0x660, 20), (0x61F, 30), (0x61B, 31), (0x60C, 32)]"

lemma demo_generated: "text_shaper demo_hb demo_alphabet = Inr (demo, demo_codepts)"
proof -
  have hb: "hb_shape_text demo_hb 0 kashida = Inr [1]" "demo_hb [0x14C4] = [0]"
    by (simp_all add: hb_shape_text_def demo_hb_def kashida_def)
  have a: "\<forall>c \<in> set demo_alphabet. 0x80 \<le> c \<and> c < 0x800" by (simp add: demo_alphabet_def)
  obtain st where st: "pack_lut demo_dict = Inr st" "packed_tables st = Inr demo" "selected_glyphs st = demo_selected"
    using demo_pack demo_packed_tables by blast
  have sup: "bindE (supplement_selected_glyphs demo_hb 0 supplemental_alphabet demo_selected) (\<lambda>sel. Inr (demo, selected_codepts sel)) =
      Inr (demo, demo_codepts)"
    by (simp add: supplemental_alphabet_def hb_shape_text_def demo_hb_def demo_selected_def demo_codepts_def selected_codepts_def)
  from a show ?thesis
    by (simp add: text_shaper_def hb demo_forms [unfolded One_nat_def] st sup)
qed

lemma demo_alphabet_ok: "alphabet_ok demo_alphabet"
  by (simp add: alphabet_ok_def demo_alphabet_def arabic_letter_def gen_is_zero_width_code RANGE_def)

lemma demo_dict_ok: "dict_ok demo_dict"
  by (simp add: dict_ok_def demo_dict_def chars_ok_def arabic_letter_def gen_is_zero_width_code RANGE_def)

text \<open>Two letters, kaf and keheh, whose initial and medial glyphs are the same in the font.\<close>

definition shared_dict :: "(chars \<times> glyph list) list" where
  "shared_dict = [([0x643], [1, 2, 3, 4]), ([0x6A9], [5, 2, 3, 6])]"

definition shared :: tables where
  "shared = \<lparr>ARABIC_SHAPER_LUT = [0x43, 0x06, 0x00, 0x07, 1, 2, 3, 0xA9, 0x06, 0x04, 0x07, 0xFD, 0xFE, 1],
     ARABIC_LIGATURE_LUT = [], ARABIC_SHAPER_RANGE = (\<lambda>cp. RANGE cp 0x700 0x706),
     is_zero_width = gen_is_zero_width, ZERO_WIDTH_CODEPT = gen_ZERO_WIDTH_CODEPT, past_buffer = 0\<rparr>"

lemma shared_tables: "tables_of_forms shared_dict = Inr shared"
proof -
  have s: "sort (map fst shared_dict) = [[0x643], [0x6A9]]" by (simp add: shared_dict_def)
  have "(\<lambda>cp :: u16. 0x700 \<le> unat cp \<and> unat cp < 0x706) = (\<lambda>cp. RANGE cp 0x700 0x706)"
    by (simp add: fun_eq_iff RANGE_def word_less_nat_alt word_le_nat_alt)
  then show ?thesis
    by (simp add: tables_of_forms_def s pack_eval)
      (simp add: shared_dict_def packed_tables_def pack_eval contiguous_ranges_def write_lut_def shared_def)
qed

end
