(* ===== verification/Sample_Cpu.thy ===== *)
theory Sample_Cpu
  imports Stubs Sample_Tables
begin

text \<open>Concrete processor states and routines on which the theorems about the hooks are evaluated.\<close>

text \<open>A call of the drawing routine: the text in r1, left alignment on the stack.\<close>

definition demo_cpu :: "mem \<Rightarrow> mem cpu" where
  "demo_cpu m = \<lparr>rg = (\<lambda>k. if k = 1 then VText 0 else VInt (of_nat k)), sp = 64, stack_floor = 0,
     words = (\<lambda>b. VInt (if b = 72 then 0 else of_nat b)), world = m\<rparr>"

text \<open>Routines that note the flag they are called with, and a handler that notes its third argument.\<close>

definition noting :: "string \<Rightarrow> val list routine" where
  "noting l = (\<lambda>r0 r1 r2 r3 w. Some (None, w @ [r1]))"

definition noting_handler :: "val \<Rightarrow> val list routine" where
  "noting_handler v = (\<lambda>r0 r1 r2 r3 w. Some (None, w @ [r2]))"

definition render_cpu :: "val list cpu" where
  "render_cpu = \<lparr>rg = (\<lambda>k. if k = 4 then VInt 96 else if k \<in> {3, 5} then VInt 1 else VInt 0), sp = 64, stack_floor = 0,
     words = (\<lambda>b. VInt (of_nat b)), world = []\<rparr>"

lemma demo_cpu_args:
  "received_args draw_text_proto (arg_word (demo_cpu m)) =
     [[VInt 0], [VText 0], [VInt 2], [VInt 3, VInt 64], [VInt 68], [VInt (alignment_word GTextAlignmentLeft)], [VInt 76]]"
  by (simp add: received_args_def draw_text_slots arg_word_def slot_location_def demo_cpu_def alignment_word_simps)

end
