(* ===== verification/Pebble_Macros.thy ===== *)
theory Pebble_Macros
  imports Pebble_Layout "HOL-Library.Signed_Division"
begin

text \<open>
  The macros of \<^verbatim>\<open>runtime/pebble.h\<close> that compute something, with the arithmetic of a 32-bit \<^verbatim>\<open>int\<close>:
  overflow is undefined and yields \<^term>\<open>None\<close>, division truncates.
\<close>

definition int_mult :: "int \<Rightarrow> int \<Rightarrow> int option" where
  "int_mult a b = (if - (2 ^ 31) \<le> a * b \<and> a * b < 2 ^ 31 then Some (a * b) else None)"

definition TRIG_MAX_ANGLE :: int where
  "TRIG_MAX_ANGLE = 0x10000"

definition TRIGANGLE_TO_DEG :: "int \<Rightarrow> int option" where
  "TRIGANGLE_TO_DEG trig_angle = do { p \<leftarrow> int_mult trig_angle 360; Some (p sdiv TRIG_MAX_ANGLE) }"

definition DEG_TO_TRIGANGLE :: "int \<Rightarrow> int option" where
  "DEG_TO_TRIGANGLE angle = do { p \<leftarrow> int_mult angle TRIG_MAX_ANGLE; Some (p sdiv 360) }"

lemma sdiv_nonneg: "0 \<le> a \<Longrightarrow> 0 < b \<Longrightarrow> a sdiv b = a div (b :: int)"
  by (cases "a = 0") (simp_all add: signed_divide_int_def)

text \<open>Up to 32767 degrees the conversions are defined, and there and back loses at most a degree.\<close>

lemma trigangle_round_trip:
  assumes "0 \<le> d" "d \<le> 32767"
  shows "\<exists>t d'. DEG_TO_TRIGANGLE d = Some t \<and> TRIGANGLE_TO_DEG t = Some d' \<and> d - 1 \<le> d' \<and> d' \<le> d"
proof -
  let ?t = "d * 65536 div 360"
  have t: "?t * 360 \<le> d * 65536" "d * 65536 < ?t * 360 + 360" "0 \<le> ?t" using assms by auto
  have "DEG_TO_TRIGANGLE d = Some ?t"
    using assms by (simp add: DEG_TO_TRIGANGLE_def int_mult_def TRIG_MAX_ANGLE_def sdiv_nonneg)
  moreover have "TRIGANGLE_TO_DEG ?t = Some (?t * 360 div 65536)"
    using assms t by (simp add: TRIGANGLE_TO_DEG_def int_mult_def TRIG_MAX_ANGLE_def sdiv_nonneg)
  moreover have "d - 1 \<le> ?t * 360 div 65536" "?t * 360 div 65536 \<le> d" using t by auto
  ultimately show ?thesis by blast
qed

text \<open>\<^verbatim>\<open>GEdgeInsetsN\<close> selects by the number of arguments; the members are top, right, bottom, left.\<close>

fun GEdgeInsets :: "'a list \<Rightarrow> ('a \<times> 'a \<times> 'a \<times> 'a) option" where
  "GEdgeInsets [trbl] = Some (trbl, trbl, trbl, trbl)"
| "GEdgeInsets [tb, rl] = Some (tb, rl, tb, rl)"
| "GEdgeInsets [t, rl, b] = Some (t, rl, b, rl)"
| "GEdgeInsets [t, r, b, l] = Some (t, r, b, l)"
| "GEdgeInsets _ = None"

text \<open>The sixteen members of a UUID from an array of bytes.\<close>

definition UuidMakeFromBEBytes :: "u8 list \<Rightarrow> u8 list" where
  "UuidMakeFromBEBytes b = map ((!) b) [0, 1, 2, 3, 4, 5, 6, 7, 8, 9, 10, 11, 12, 13, 14, 15]"

definition UuidMakeFromLEBytes :: "u8 list \<Rightarrow> u8 list" where
  "UuidMakeFromLEBytes b = map ((!) b) [15, 14, 13, 12, 11, 10, 9, 8, 7, 6, 5, 4, 3, 2, 1, 0]"

lemma uuid_byte_orders: "length b = 16 \<Longrightarrow> UuidMakeFromLEBytes b = UuidMakeFromBEBytes (rev b)"
  by (simp add: UuidMakeFromLEBytes_def UuidMakeFromBEBytes_def rev_nth)

text \<open>The mask of all activities covers exactly the bits of the enumeration.\<close>

definition HealthActivityMaskAll :: int where
  "HealthActivityMaskAll = push_bit 1 (2 ^ 1) - 1"

lemma HealthActivityMaskAll_covers:
  "case HealthActivity_t of CEnum es \<Rightarrow> foldr (OR) (map snd (enum_values 0 es)) 0 = HealthActivityMaskAll | _ \<Rightarrow> False"
  by (simp add: HealthActivity_t_def HealthActivityMaskAll_def)

definition SECONDS_PER_HOUR :: int where
  "SECONDS_PER_HOUR = 60 * 60"

definition MINUTES_PER_DAY :: int where
  "MINUTES_PER_DAY = 24 * 60"

definition SECONDS_PER_DAY :: int where
  "SECONDS_PER_DAY = MINUTES_PER_DAY * 60"

lemma seconds_per_day: "SECONDS_PER_DAY = 24 * SECONDS_PER_HOUR"
  by (simp add: SECONDS_PER_DAY_def MINUTES_PER_DAY_def SECONDS_PER_HOUR_def)

end
