(* ===== verification/Patcher.thy ===== *)
theory Patcher
  imports Python
begin

text \<open>
  The part of \<^verbatim>\<open>patch_tools.py\<close> that edits the firmware image: \<open>finalize\<close> overwrites bytes, encodes
  wide Thumb branches to the symbols of the compiled patch, and appends the patch code.  The
  compiler, the linker and \<^verbatim>\<open>nm\<close> are parameters: the symbol table \<open>symtab\<close> and the code they
  produce.
\<close>

section \<open>The code\<close>

datatype patch_op =
    PatchOverwrite nat "u8 list"
  | PatchBranchOffset nat string bool
  | PatchAppendAsm string string string
  | PatchDefineSymbol string nat
  | PatchDefineMacro string string

text \<open>Bootloader size by target, start of the microcode in flash, and largest image by platform.\<close>

definition BOOTLOADER_SIZE :: "bool \<Rightarrow> int" where
  "BOOTLOADER_SIZE hardware = (if hardware then 0x4000 else 0)"

definition MICROCODE_OFFSET :: "bool \<Rightarrow> int" where
  "MICROCODE_OFFSET hardware = 0x8000000 + BOOTLOADER_SIZE hardware"

definition MAX_IMAGE_SIZE :: "bool \<Rightarrow> string \<Rightarrow> py_error + int" where
  "MAX_IMAGE_SIZE hardware platform =
     (if platform = ''aplite'' then Inr (1024 * 512 - BOOTLOADER_SIZE hardware)
      else if platform \<in> {''basalt'', ''chalk'', ''diorite''} then Inr (1024 * 1024 - BOOTLOADER_SIZE hardware)
      else Inl KeyError)"

definition trailing_bin_content :: "bool \<Rightarrow> u8 list \<Rightarrow> u8 list" where
  "trailing_bin_content hardware target_bin =
     (if hardware then drop (length target_bin - 47) target_bin else [])"

text \<open>\<^verbatim>\<open>bin[:address] + content + bin[address + len(content):]\<close>\<close>

definition put_bytes :: "u8 list \<Rightarrow> nat \<Rightarrow> u8 list \<Rightarrow> u8 list" where
  "put_bytes bin address content = take address bin @ content @ drop (address + length content) bin"

fun overwrites :: "patch_op list \<Rightarrow> u8 list \<Rightarrow> u8 list" where
  "overwrites [] bin = bin"
| "overwrites (PatchOverwrite address content # ops) bin = overwrites ops (put_bytes bin address content)"
| "overwrites (_ # ops) bin = overwrites ops bin"

definition branch_offset :: "int \<Rightarrow> int \<Rightarrow> int" where
  "branch_offset address final_addr = drop_bit 1 (final_addr - address - 4)"

definition branch_instr :: "int \<Rightarrow> bool \<Rightarrow> int" where
  "branch_instr offset link =
     (let s = (if offset > 0 then 0 else 1);
          i1 = drop_bit 23 offset AND 1;
          j1 = (if s XOR i1 \<noteq> 0 then 0 else 1);
          i2 = drop_bit 22 offset AND 1;
          j2 = (if s XOR i2 \<noteq> 0 then 0 else 1);
          imm10 = drop_bit 11 offset AND 0b1111111111;
          imm11 = offset AND 0b11111111111;
          instr = 0b11110000000000001001000000000000
            OR (push_bit 26 s OR push_bit 16 imm10 OR push_bit 13 j1 OR push_bit 11 j2 OR imm11) in
      if link then instr OR push_bit 14 1 else instr)"

definition pack_branch :: "int \<Rightarrow> py_error + u8 list" where
  "pack_branch instr =
     bindE (struct_pack_H (drop_bit 16 instr)) (\<lambda>hi.
     bindE (struct_pack_H (instr AND 0xFFFF)) (\<lambda>lo. Inr (hi @ lo)))"

fun relocate :: "(string \<Rightarrow> int option) \<Rightarrow> int \<Rightarrow> patch_op list \<Rightarrow> u8 list \<Rightarrow> py_error + u8 list" where
  "relocate symtab microcode_offset [] bin = Inr bin"
| "relocate symtab microcode_offset (PatchBranchOffset address symbol link # ops) bin =
     (case symtab symbol of
        None \<Rightarrow> Inl KeyError
      | Some addr \<Rightarrow>
          bindE (pack_branch (branch_instr (branch_offset (int address) (addr - microcode_offset)) link))
            (\<lambda>b. relocate symtab microcode_offset ops (put_bytes bin address b)))"
| "relocate symtab microcode_offset (_ # ops) bin = relocate symtab microcode_offset ops bin"

definition finalize ::
  "bool \<Rightarrow> string \<Rightarrow> (string \<Rightarrow> int option) \<Rightarrow> u8 list \<Rightarrow> patch_op list \<Rightarrow> u8 list \<Rightarrow> py_error + u8 list" where
  "finalize hardware platform symtab patch_bin op_queue target_bin =
     bindE (MAX_IMAGE_SIZE hardware platform) (\<lambda>max_size.
     bindE (relocate symtab (MICROCODE_OFFSET hardware) op_queue (overwrites op_queue target_bin)) (\<lambda>bin.
       let bin = (if length bin mod 2 = 1 then bin @ [0] else bin) @ patch_bin @
             trailing_bin_content hardware target_bin in
       if max_size - int (length bin) \<ge> 0 then Inr bin else Inl AssertionError))"

section \<open>Branches\<close>

text \<open>
  The offset of a wide branch as the ARMv7-M architecture defines it (encoding T4 of B, T1 of
  BL): sign, I1, I2, imm10 and imm11, where I1 and I2 are the complement of J1 and J2 xor the
  sign.
\<close>

definition bits_at :: "int \<Rightarrow> nat \<Rightarrow> nat \<Rightarrow> int" where
  "bits_at instr k n = take_bit n (drop_bit k instr)"

definition branch_decode :: "int \<Rightarrow> int" where
  "branch_decode instr =
     (let s = bits_at instr 26 1; i1 = 1 - (bits_at instr 13 1 XOR s); i2 = 1 - (bits_at instr 11 1 XOR s) in
      - s * 2 ^ 24 + i1 * 2 ^ 23 + i2 * 2 ^ 22 + bits_at instr 16 10 * 2 ^ 12 + bits_at instr 0 11 * 2)"

lemma bits_at_one: "bits_at instr k 1 = of_bool (bit instr k)"
  by (simp add: bits_at_def bit_iff_odd_drop_bit take_bit_eq_mod mod_2_eq_odd)

lemma branch_fields:
  fixes s j1 j2 a b :: int
  assumes "s \<in> {0, 1}" "j1 \<in> {0, 1}" "j2 \<in> {0, 1}"
    and i: "i = 0b11110000000000001001000000000000 OR (push_bit 26 s OR push_bit 16 (take_bit 10 a) OR push_bit 13 j1 OR push_bit 11 j2 OR take_bit 11 b)"
    and instr: "instr = (if link then i OR push_bit 14 1 else i)"
  shows "bits_at instr 26 1 = s" "bits_at instr 13 1 = j1" "bits_at instr 11 1 = j2"
    "bits_at instr 16 10 = take_bit 10 a" "bits_at instr 0 11 = take_bit 11 b"
proof -
  have one: "bit (1 :: int) n \<longleftrightarrow> n = 0" for n by (simp add: bit_1_iff)
  have b: "bit instr 26 = bit s 0" "bit instr 13 = bit j1 0" "bit instr 11 = bit j2 0"
    using assms(1-3) by (auto simp: instr i bit_simps one simp del: bit_0)
  have "of_bool (bit x 0) = x" if "x \<in> {0, 1}" for x :: int using that by auto
  then show "bits_at instr 26 1 = s" "bits_at instr 13 1 = j1" "bits_at instr 11 1 = j2"
    using b assms(1-3) by (simp_all only: bits_at_one)
  show "bits_at instr 16 10 = take_bit 10 a" "bits_at instr 0 11 = take_bit 11 b"
    using assms(2,3)
    by (auto simp: bits_at_def instr i drop_bit_or take_bit_or drop_bit_push_bit drop_bit_take_bit
        take_bit_push_bit)
qed

text \<open>
  Within four megabytes the encoding is right, except for an offset of zero, whose sign bit is
  set.
\<close>

lemma branch_round_trip:
  assumes "- (2 ^ 21) \<le> offset" "offset < 2 ^ 21" "offset \<noteq> 0"
  shows "branch_decode (branch_instr offset link) = 2 * offset"
proof -
  define s :: int where "s = (if offset > 0 then 0 else 1)"
  have s: "s \<in> {0, 1}" by (simp add: s_def)
  have dv: "drop_bit 23 offset = - s" "drop_bit 22 offset = - s"
    using assms by (auto simp: s_def drop_bit_eq_div)
  have "- s AND 1 = s" using s by auto
  then have ij: "drop_bit 23 offset AND 1 = s" "drop_bit 22 offset AND 1 = s" by (simp_all add: dv)
  have m: "x AND 0b1111111111 = take_bit 10 x" "x AND 0b11111111111 = take_bit 11 x" for x :: int
    by (simp_all add: take_bit_eq_mask mask_eq_exp_minus_1)
  have instr: "branch_instr offset link = (if link then i OR push_bit 14 1 else i)"
    if "i = 0b11110000000000001001000000000000 OR (push_bit 26 s OR
       push_bit 16 (take_bit 10 (drop_bit 11 offset)) OR push_bit 13 1 OR push_bit 11 1 OR take_bit 11 offset)" for i
    unfolding branch_instr_def Let_def s_def [symmetric] ij m that by simp
  have one: "(1 :: int) \<in> {0, 1}" by simp
  note f = branch_fields [OF s one one refl instr [OF refl]]
  have d: "branch_decode (branch_instr offset link) = - s * 2 ^ 24 + s * 2 ^ 23 + s * 2 ^ 22 +
      take_bit 10 (drop_bit 11 offset) * 2 ^ 12 + take_bit 11 offset * 2"
    unfolding branch_decode_def Let_def f using s by auto
  have "(offset + s * 2 ^ 21) mod 2 ^ 21 = offset + s * 2 ^ 21"
    using assms by (intro mod_pos_pos_trivial) (auto simp: s_def)
  then have "offset mod 2 ^ 21 = offset + s * 2 ^ 21" by simp
  moreover have "offset mod 2 ^ 21 = 2048 * (offset div 2048 mod 1024) + offset mod 2048"
    using zmod_zmult2_eq [of 1024 offset 2048] by simp
  ultimately show ?thesis
    using d by (simp add: take_bit_eq_mod drop_bit_eq_div)
qed

text \<open>What the processor makes of the encoded offset, far away too.\<close>

lemma branch_powers:
  "(2 :: int) ^ 12 = 4096" "(2 :: int) ^ 21 = 2097152" "(2 :: int) ^ 22 = 4194304" "(2 :: int) ^ 23 = 8388608" "(2 :: int) ^ 24 = 16777216"
  by simp_all

lemma branch_decode_general:
  "branch_decode (branch_instr offset link) = - of_bool (offset \<le> 0) * 2 ^ 24 + (offset div 2 ^ 23) mod 2 * 2 ^ 23 +
     (offset div 2 ^ 22) mod 2 * 2 ^ 22 + 2 * (offset mod 2 ^ 21)"
proof -
  define s i1 i2 :: int where "s = (if offset > 0 then 0 else 1)"
    and "i1 = drop_bit 23 offset AND 1" and "i2 = drop_bit 22 offset AND 1"
  define j1 j2 :: int where "j1 = (if s XOR i1 \<noteq> 0 then 0 else 1)" and "j2 = (if s XOR i2 \<noteq> 0 then 0 else 1)"
  have i: "i1 = (offset div 2 ^ 23) mod 2" "i2 = (offset div 2 ^ 22) mod 2"
    by (simp_all add: i1_def i2_def and_one_eq drop_bit_eq_div)
  have bin: "s \<in> {0, 1}" "i1 \<in> {0, 1}" "i2 \<in> {0, 1}" "j1 \<in> {0, 1}" "j2 \<in> {0, 1}"
    unfolding i by (auto simp: s_def j1_def j2_def)
  have m: "x AND 0b1111111111 = take_bit 10 x" "x AND 0b11111111111 = take_bit 11 x" for x :: int
    by (simp_all add: take_bit_eq_mask mask_eq_exp_minus_1)
  have instr: "branch_instr offset link = (if link then i OR push_bit 14 1 else i)"
    if "i = 0b11110000000000001001000000000000 OR (push_bit 26 s OR
       push_bit 16 (take_bit 10 (drop_bit 11 offset)) OR push_bit 13 j1 OR push_bit 11 j2 OR take_bit 11 offset)" for i
    unfolding branch_instr_def Let_def s_def [symmetric] i1_def [symmetric] i2_def [symmetric] j1_def [symmetric] j2_def [symmetric] m that
    by simp
  note f = branch_fields [OF bin(1,4,5) refl instr [OF refl]]
  have "1 - (j1 XOR s) = i1" "1 - (j2 XOR s) = i2" using bin(1-3) by (auto simp: j1_def j2_def)
  then have "branch_decode (branch_instr offset link) = - s * 2 ^ 24 + i1 * 2 ^ 23 + i2 * 2 ^ 22 +
      take_bit 10 (drop_bit 11 offset) * 2 ^ 12 + take_bit 11 offset * 2"
    unfolding branch_decode_def Let_def f by simp
  moreover have "take_bit 10 (drop_bit 11 offset) * 2 ^ 12 + take_bit 11 offset * 2 = 2 * (offset mod 2 ^ 21)"
  proof -
    have "take_bit 10 (drop_bit 11 offset) = offset div 2048 mod 1024" "take_bit 11 offset = offset mod 2048"
      by (simp_all only: take_bit_eq_mod drop_bit_eq_div) simp_all
    moreover have "offset mod 2 ^ 21 = 2048 * (offset div 2048 mod 1024) + offset mod 2048"
      using zmod_zmult2_eq [of 1024 offset 2048] by simp
    ultimately show ?thesis unfolding branch_powers by linarith
  qed
  moreover have "s = of_bool (offset \<le> 0)" by (simp add: s_def)
  ultimately show ?thesis unfolding i by (simp only: add.assoc)
qed

lemma branch_decode_right:
  assumes "- (2 ^ 23) \<le> offset" "offset < 2 ^ 23"
  shows "branch_decode (branch_instr offset link) = 2 * offset \<longleftrightarrow> offset \<noteq> 0 \<and> - (2 ^ 21) \<le> offset \<and> offset < 2 ^ 21"
proof -
  define q r where "q = offset div 2 ^ 21" and "r = offset mod 2 ^ 21"
  have o: "offset = 2 ^ 21 * q + r" and r: "0 \<le> r" "r < 2 ^ 21"
    unfolding q_def r_def by (simp_all only: mult_div_mod_eq pos_mod_sign pos_mod_bound zero_less_power zero_less_numeral)
  have "offset div 2 ^ 22 = q div 2" "offset div 2 ^ 23 = q div 4"
    using zdiv_zmult2_eq [of 2 offset 2097152] zdiv_zmult2_eq [of 4 offset 2097152] by (simp_all add: q_def)
  with branch_decode_general [of offset link] have d: "branch_decode (branch_instr offset link) =
      - of_bool (offset \<le> 0) * 2 ^ 24 + q div 4 mod 2 * 2 ^ 23 + q div 2 mod 2 * 2 ^ 22 + 2 * r" by (simp only: r_def)
  have "- 4 \<le> q" "q < 4" using assms o r unfolding branch_powers by linarith+
  then consider "q = -4" | "q = -3" | "q = -2" | "q = -1" | "q = 0" | "q = 1" | "q = 2" | "q = 3" by linarith
  then show ?thesis unfolding d using o r by cases auto
qed

text \<open>The instruction in an image: two half-words, each low byte first; and where it branches to.\<close>

definition instr_at :: "u8 list \<Rightarrow> nat \<Rightarrow> int" where
  "instr_at bin a = (uint (bin ! a) + 256 * uint (bin ! (a + 1))) * 2 ^ 16 +
     uint (bin ! (a + 2)) + 256 * uint (bin ! (a + 3))"

definition branch_target :: "u8 list \<Rightarrow> nat \<Rightarrow> int" where
  "branch_target bin a = int a + 4 + branch_decode (instr_at bin a)"

lemma branch_instr_range: "0 \<le> branch_instr offset link \<and> branch_instr offset link < 2 ^ 32"
proof -
  have bit: "x \<in> {0, 1} \<Longrightarrow> take_bit (Suc k) x = x" for x :: int and k by auto
  have m: "x AND 0b1111111111 = take_bit 10 x" "x AND 0b11111111111 = take_bit 11 x" for x :: int
    by (simp_all add: take_bit_eq_mask mask_eq_exp_minus_1)
  have "take_bit 32 (branch_instr offset link) = branch_instr offset link"
    unfolding branch_instr_def Let_def m
    by (simp add: take_bit_or take_bit_push_bit)
  then show ?thesis by (metis take_bit_int_less_exp take_bit_nonnegative)
qed

lemma pack_branch_bytes:
  assumes "0 \<le> instr" "instr < 2 ^ 32"
  obtains b where "pack_branch instr = Inr b" "length b = 4"
    "\<And>xs ys. instr_at (xs @ b @ ys) (length xs) = instr"
proof -
  let ?hi = "instr div 2 ^ 16" and ?lo = "instr mod 2 ^ 16"
  have d: "drop_bit 16 instr = ?hi" "instr AND 0xFFFF = ?lo"
    using take_bit_eq_mask [of 16 instr] by (simp_all add: drop_bit_eq_div take_bit_eq_mod mask_eq_exp_minus_1)
  have r: "0 \<le> ?hi" "?hi \<le> 65535" "0 \<le> ?lo" "?lo \<le> 65535" using assms by auto
  then have p: "pack_branch instr = Inr (h16 ?hi @ h16 ?lo)"
    unfolding pack_branch_def d by (simp add: struct_pack_H_def h16_def)
  have u: "uint (word_of_int (x mod 256) :: u8) + 256 * uint (word_of_int (x div 256) :: u8) = x"
    if "0 \<le> x" "x \<le> 65535" for x :: int
    using that by (simp add: uint_word_of_int take_bit_int_eq_self)
  have "instr_at (xs @ (h16 ?hi @ h16 ?lo) @ ys) (length xs) = ?hi * 2 ^ 16 + ?lo" for xs ys
    using u [OF r(1,2)] u [OF r(3,4)] by (simp add: instr_at_def h16_def nth_append add.assoc)
  then have "instr_at (xs @ (h16 ?hi @ h16 ?lo) @ ys) (length xs) = instr" for xs ys by simp
  with p that show thesis by (metis length_append length_h16 numeral_Bit0)
qed


section \<open>Relocation\<close>

lemma length_put_bytes: "length bin \<le> length (put_bytes bin a c)"
  by (simp add: put_bytes_def)

lemma put_bytes_inside:
  assumes "a + length c \<le> length bin"
  shows "length (put_bytes bin a c) = length bin"
    "i < a \<or> a + length c \<le> i \<Longrightarrow> put_bytes bin a c ! i = bin ! i"
  using assms by (cases "a = length bin"; auto simp: put_bytes_def nth_append)+

lemma overwrites_length: "length bin \<le> length (overwrites ops bin)"
  by (induction ops bin rule: overwrites.induct) (auto intro: order_trans [OF length_put_bytes])

lemma relocate_length: "relocate symtab off ops bin = Inr bin' \<Longrightarrow> length bin \<le> length bin'"
  by (induction symtab off ops bin rule: relocate.induct)
    (auto simp: bindE_Inr_iff intro: order_trans [OF length_put_bytes] split: option.splits)

text \<open>The branches a queue inserts, and the condition that their sites do not overlap.\<close>

fun branches :: "patch_op list \<Rightarrow> (nat \<times> string) list" where
  "branches [] = []"
| "branches (PatchBranchOffset address symbol link # ops) = (address, symbol) # branches ops"
| "branches (_ # ops) = branches ops"

fun sites_apart :: "nat list \<Rightarrow> bool" where
  "sites_apart [] = True"
| "sites_apart (a # as) = ((\<forall>b \<in> set as. a + 4 \<le> b \<or> b + 4 \<le> a) \<and> sites_apart as)"

definition branch_ok :: "(string \<Rightarrow> int option) \<Rightarrow> int \<Rightarrow> nat \<Rightarrow> nat \<times> string \<Rightarrow> bool" where
  "branch_ok symtab off len b = (case b of (a, symbol) \<Rightarrow> a + 4 \<le> len \<and>
     (case symtab symbol of
        None \<Rightarrow> False
      | Some addr \<Rightarrow> let d = addr - off - int a - 4 in
          even d \<and> d \<noteq> 0 \<and> - (2 ^ 22) \<le> d \<and> d < 2 ^ 22))"

lemma relocate_one:
  assumes ok: "branch_ok symtab off (length bin) (a, symbol)" and "symtab symbol = Some addr"
  obtains b where "pack_branch (branch_instr (branch_offset (int a) (addr - off)) link) = Inr b"
    "length b = 4" "branch_target (put_bytes bin a b) a = addr - off"
proof -
  let ?o = "branch_offset (int a) (addr - off)"
  have d: "even (addr - off - int a - 4)" "addr - off - int a - 4 \<noteq> 0"
    "- (2 ^ 22) \<le> addr - off - int a - 4" "addr - off - int a - 4 < 2 ^ 22" "a + 4 \<le> length bin"
    using assms by (auto simp: branch_ok_def Let_def)
  have o: "2 * ?o = addr - off - int a - 4" using d(1) by (simp add: branch_offset_def drop_bit_eq_div)
  then have "- (2 ^ 21) \<le> ?o" "?o < 2 ^ 21" "?o \<noteq> 0" using d(2-4) by auto
  note rt = branch_round_trip [OF this, of link]
  from branch_instr_range [of ?o link] obtain b where b: "pack_branch (branch_instr ?o link) = Inr b" "length b = 4"
    "\<And>xs ys. instr_at (xs @ b @ ys) (length xs) = branch_instr ?o link"
    using pack_branch_bytes by blast
  have "instr_at (put_bytes bin a b) a = branch_instr ?o link"
    using b(3) [of "take a bin" "drop (a + 4) bin"] d(5) by (simp add: put_bytes_def b(2))
  with rt o have "branch_target (put_bytes bin a b) a = addr - off" by (simp add: branch_target_def)
  with b that show thesis by blast
qed

lemma branch_target_cong:
  "(\<And>i. a \<le> i \<Longrightarrow> i < a + 4 \<Longrightarrow> bin' ! i = bin ! i) \<Longrightarrow> branch_target bin' a = branch_target bin a"
  by (simp add: branch_target_def instr_at_def)

lemma relocate_lands:
  assumes "sites_apart (map fst (branches ops))" and "\<forall>b \<in> set (branches ops). branch_ok symtab off (length bin) b"
  shows "\<exists>bin'. relocate symtab off ops bin = Inr bin' \<and> length bin' = length bin \<and>
     (\<forall>b \<in> set (branches ops). symtab (snd b) = Some (branch_target bin' (fst b) + off)) \<and>
     (\<forall>i. (\<forall>b \<in> set (branches ops). i < fst b \<or> fst b + 4 \<le> i) \<longrightarrow> bin' ! i = bin ! i)"
  using assms
proof (induction symtab off ops bin rule: relocate.induct)
  case (2 symtab off a symbol link ops bin)
  from "2.prems"(2) have ok: "branch_ok symtab off (length bin) (a, symbol)" by simp
  then obtain addr where addr: "symtab symbol = Some addr"
    by (auto simp: branch_ok_def split: option.splits)
  from relocate_one [OF ok addr] obtain b where b:
    "pack_branch (branch_instr (branch_offset (int a) (addr - off)) link) = Inr b" "length b = 4"
    "branch_target (put_bytes bin a b) a = addr - off" .
  have a: "a + length b \<le> length bin" using ok b(2) by (simp add: branch_ok_def split: option.splits)
  note sp = put_bytes_inside [OF a]
  from "2.IH" [OF addr, of b] "2.prems" obtain bin' where bin':
    "relocate symtab off ops (put_bytes bin a b) = Inr bin'" "length bin' = length bin"
    "\<forall>b \<in> set (branches ops). symtab (snd b) = Some (branch_target bin' (fst b) + off)"
    "\<forall>i. (\<forall>b \<in> set (branches ops). i < fst b \<or> fst b + 4 \<le> i) \<longrightarrow> bin' ! i = put_bytes bin a b ! i"
    by (auto simp: sp(1))
  have "branch_target bin' a = branch_target (put_bytes bin a b) a"
  proof (rule branch_target_cong)
    fix i assume "a \<le> i" "i < a + 4"
    then have "\<forall>b \<in> set (branches ops). i < fst b \<or> fst b + 4 \<le> i" using "2.prems"(1) by force
    with bin'(4) show "bin' ! i = put_bytes bin a b ! i" by blast
  qed
  then have "branch_target bin' a = addr - off" using b(3) by simp
  with bin' sp(2) b(2) show ?case by (auto simp: addr b(1))
qed auto


section \<open>The image\<close>

lemma MAX_IMAGE_SIZE_bound: "MAX_IMAGE_SIZE hw platform = Inr n \<Longrightarrow> n \<le> 2 ^ 20"
  by (auto simp: MAX_IMAGE_SIZE_def BOOTLOADER_SIZE_def split: if_splits)

lemma finalize_fits:
  assumes "finalize hw platform symtab code ops bin = Inr img"
  shows "platform \<in> {''aplite'', ''basalt'', ''chalk'', ''diorite''}"
    and "length img + (if hw then 0x4000 else 0) \<le> (if platform = ''aplite'' then 512 * 1024 else 1024 * 1024)"
  using assms by (auto simp: finalize_def bindE_Inr_iff Let_def MAX_IMAGE_SIZE_def BOOTLOADER_SIZE_def split: if_splits)

lemma finalize_image:
  assumes "finalize hw platform symtab code ops bin = Inr img"
  obtains bin' pad where "relocate symtab (MICROCODE_OFFSET hw) ops (overwrites ops bin) = Inr bin'"
    "img = bin' @ pad @ code @ trailing_bin_content hw bin" "even (length (bin' @ pad))" "length pad \<le> 1"
    "length img \<le> 2 ^ 20"
proof -
  from assms obtain n bin' where n: "MAX_IMAGE_SIZE hw platform = Inr n"
    and r: "relocate symtab (MICROCODE_OFFSET hw) ops (overwrites ops bin) = Inr bin'"
    and img: "img = (if length bin' mod 2 = 1 then bin' @ [0] else bin') @ code @ trailing_bin_content hw bin"
    and len: "n - int (length img) \<ge> 0"
    by (auto simp: finalize_def bindE_Inr_iff Let_def split: if_splits)
  from len MAX_IMAGE_SIZE_bound [OF n] have max: "length img \<le> 2 ^ 20" by simp
  show thesis
  proof (cases "odd (length bin')")
    case True
    then show thesis using img by (intro that [OF r _ _ _ max, of "[0]"]) (simp_all add: odd_iff_mod_2_eq_one)
  next
    case False
    then show thesis using img by (intro that [OF r _ _ _ max, of "[]"]) (simp_all add: even_iff_mod_2_eq_zero)
  qed
qed

text \<open>A symbol of the patch that can be branched to from \<open>a\<close>: even, inside the image, not the next instruction.\<close>

definition target_ok :: "(string \<Rightarrow> int option) \<Rightarrow> int \<Rightarrow> nat \<Rightarrow> nat \<Rightarrow> nat \<times> string \<Rightarrow> bool" where
  "target_ok symtab off len img_len b = (case b of (a, symbol) \<Rightarrow> a + 4 \<le> len \<and> even a \<and>
     (case symtab symbol of
        None \<Rightarrow> False
      | Some addr \<Rightarrow> even (addr - off) \<and> 0 \<le> addr - off \<and> addr - off < int img_len \<and> addr - off \<noteq> int a + 4))"

lemma target_ok_branch_ok:
  assumes "target_ok symtab off len img_len b" "len \<le> img_len" "img_len \<le> 2 ^ 20"
  shows "branch_ok symtab off len b"
proof -
  obtain a symbol where b: "b = (a, symbol)" by (cases b)
  from assms(1) obtain addr where addr: "symtab symbol = Some addr" "a + 4 \<le> len" "even a" "even (addr - off)"
    "0 \<le> addr - off" "addr - off < int img_len" "addr - off \<noteq> int a + 4"
    by (auto simp: target_ok_def b split: option.splits)
  then have "even (addr - off - int a - 4)" by simp
  with addr assms(2,3) show ?thesis by (simp add: branch_ok_def b Let_def)
qed

lemma finalize_lands:
  assumes fin: "finalize hw platform symtab code ops bin = Inr img"
    and "sites_apart (map fst (branches ops))"
    and "\<forall>b \<in> set (branches ops). target_ok symtab (MICROCODE_OFFSET hw) (length bin) (length img) b"
  shows "(\<forall>b \<in> set (branches ops). symtab (snd b) = Some (branch_target img (fst b) + MICROCODE_OFFSET hw)) \<and>
     drop (length img - length (trailing_bin_content hw bin)) img = trailing_bin_content hw bin \<and>
     length img \<le> 2 ^ 20"
proof -
  from finalize_image [OF fin] obtain bin' pad where
    r: "relocate symtab (MICROCODE_OFFSET hw) ops (overwrites ops bin) = Inr bin'"
    and img: "img = bin' @ pad @ code @ trailing_bin_content hw bin" and len: "length img \<le> 2 ^ 20" .
  let ?ow = "overwrites ops bin"
  have l: "length bin \<le> length ?ow" "length ?ow \<le> length bin'"
    using overwrites_length relocate_length [OF r] by auto
  have "\<forall>b \<in> set (branches ops). branch_ok symtab (MICROCODE_OFFSET hw) (length ?ow) b"
  proof
    fix b assume "b \<in> set (branches ops)"
    with assms(3) have "target_ok symtab (MICROCODE_OFFSET hw) (length ?ow) (length img) b"
      using l(1) by (auto simp: target_ok_def split: prod.splits)
    then show "branch_ok symtab (MICROCODE_OFFSET hw) (length ?ow) b"
      using target_ok_branch_ok [OF _ _ len] l(2) by (simp add: img)
  qed
  from relocate_lands [OF assms(2) this] r have lands:
    "\<forall>b \<in> set (branches ops). symtab (snd b) = Some (branch_target bin' (fst b) + MICROCODE_OFFSET hw)"
    by auto
  have "branch_target img (fst b) = branch_target bin' (fst b)" if "b \<in> set (branches ops)" for b
  proof (rule branch_target_cong)
    fix i assume "i < fst b + 4"
    moreover have "fst b + 4 \<le> length bin" using assms(3) that by (auto simp: target_ok_def)
    ultimately show "img ! i = bin' ! i" using l by (simp add: img nth_append)
  qed
  with lands len show ?thesis by (simp add: img)
qed

end
