(* ===== verification/Crc.thy ===== *)
theory Crc
  imports Python
begin

text \<open>
  The checksum of \<^verbatim>\<open>pebblesdk/stm32_crc.py\<close>, with which resources and images are tagged: a bitwise
  CRC on unbounded integers, compared with the 32-bit register of the STM32 CRC unit.
\<close>

section \<open>The code\<close>

definition CRC_POLY :: int where
  "CRC_POLY = 0x04C11DB7"

text \<open>\<^verbatim>\<open>array.array('I', buf)\<close> on a little-endian machine.\<close>

fun array_I :: "u8 list \<Rightarrow> int list" where
  "array_I (a # b # c # d # buf) =
     (uint a + 2 ^ 8 * uint b + 2 ^ 16 * uint c + 2 ^ 24 * uint d) # array_I buf"
| "array_I _ = []"

definition pad_buffer :: "u8 list \<Rightarrow> u8 list" where
  "pad_buffer buf =
     (let word_count = length buf div 4 in
      if length buf mod 4 \<noteq> 0 then
        take (word_count * 4) buf @ rev (drop (word_count * 4) buf) @ replicate (4 - length buf mod 4) 0
      else buf)"

definition crc_bit :: "int \<Rightarrow> int" where
  "crc_bit crc = (if crc AND 0x80000000 \<noteq> 0 then push_bit 1 crc XOR CRC_POLY else push_bit 1 crc)"

definition crc_word :: "int \<Rightarrow> int \<Rightarrow> int" where
  "crc_word w crc = (crc_bit ^^ 32) (crc XOR w) AND 0xffffffff"

definition process_buffer :: "u8 list \<Rightarrow> int \<Rightarrow> int" where
  "process_buffer buf c = fold crc_word (array_I (pad_buffer buf)) c"

definition crc32 :: "u8 list \<Rightarrow> int" where
  "crc32 data = process_buffer data 0xffffffff"

section \<open>The register of the CRC unit\<close>

definition reg_bit :: "u32 \<Rightarrow> u32" where
  "reg_bit r = (if bit r 31 then push_bit 1 r XOR 0x04C11DB7 else push_bit 1 r)"

definition reg_word :: "u32 \<Rightarrow> u32 \<Rightarrow> u32" where
  "reg_word w r = (reg_bit ^^ 32) (r XOR w)"

text \<open>The integer may carry bits above the register; they never come back down.\<close>

lemma crc_bit_reg: "word_of_int (crc_bit x) = reg_bit (word_of_int x)"
proof -
  have "x AND 0x80000000 \<noteq> 0 \<longleftrightarrow> bit (word_of_int x :: u32) 31"
    using and_exp_eq_0_iff_not_bit [of x 31] by (simp add: bit_simps)
  then show ?thesis
    by (simp add: crc_bit_def reg_bit_def of_int_xor_eq CRC_POLY_def flip: of_int_push_bit)
qed

lemma crc_word_reg: "crc_word w x = uint (reg_word (word_of_int w) (word_of_int x))"
proof -
  have "word_of_int ((crc_bit ^^ n) y) = (reg_bit ^^ n) (word_of_int y)" for n y
    by (induction n) (simp_all add: crc_bit_reg)
  moreover have "(y AND 0xffffffff :: int) = uint (word_of_int y :: u32)" for y
    using take_bit_eq_mask [of 32 y] by (simp add: uint_word_of_int mask_eq_exp_minus_1 take_bit_eq_mod)
  ultimately show ?thesis
    by (simp add: crc_word_def reg_word_def of_int_xor_eq)
qed

lemma process_buffer_reg:
  assumes "0 \<le> c" "c < 2 ^ 32"
  shows "process_buffer buf c = uint (fold reg_word (map word_of_int (array_I (pad_buffer buf))) (word_of_int c))"
proof -
  have "fold crc_word ws (uint r) = uint (fold reg_word (map word_of_int ws) r)" for ws r
    by (induction ws arbitrary: r) (simp_all add: crc_word_reg)
  from this [of _ "word_of_int c"] assms show ?thesis
    by (simp add: process_buffer_def uint_word_of_int take_bit_int_eq_self)
qed

section \<open>Detection\<close>

lemma xor_cancel: "(a :: u32) XOR w = a XOR v \<longleftrightarrow> w = v" "w XOR a = v XOR a \<longleftrightarrow> w = v"
  by (auto simp: bit_eq_iff bit_xor_iff)

text \<open>Every step of the register can be undone, so the register depends on all that was fed in.\<close>

lemma reg_bit_inj: "inj reg_bit"
proof (rule injI)
  fix r q :: u32 assume eq: "reg_bit r = reg_bit q"
  have low: "bit (reg_bit x) 0 = bit x 31" for x
    by (simp add: reg_bit_def bit_0 even_xor_iff)
  from low [of r] low [of q] eq have top: "bit r 31 = bit q 31" by simp
  then have "push_bit 1 r = push_bit 1 q" using eq by (auto simp: reg_bit_def xor_cancel split: if_splits)
  then have "bit (push_bit 1 r) (Suc k) = bit (push_bit 1 q) (Suc k)" for k by simp
  then have "bit r k = bit q k" if "k < 31" for k
    using that by (auto simp: bit_push_bit_iff simp del: push_bit_Suc push_bit_of_Suc_0 One_nat_def)
  then show "r = q" using top by (intro bit_word_eqI) (auto simp: less_Suc_eq numeral_eq_Suc)
qed

lemma reg_word_inj: "reg_word w r = reg_word v q \<Longrightarrow> r XOR w = q XOR v"
proof -
  assume "reg_word w r = reg_word v q"
  then show ?thesis using inj_fn [OF reg_bit_inj] unfolding reg_word_def by (blast dest: injD)
qed

lemma fold_reg_inj: "fold reg_word ws r = fold reg_word ws q \<Longrightarrow> r = q"
proof (induction ws arbitrary: r q)
  case (Cons w ws)
  then have "reg_word w r = reg_word w q" by simp
  from reg_word_inj [OF this] show ?case by (simp add: xor_cancel)
qed simp

lemma reg_detects:
  assumes "fold reg_word (us @ w # vs) r = fold reg_word (us @ v # vs) r"
  shows "w = v"
proof -
  let ?r = "fold reg_word us r"
  from assms have "reg_word w ?r = reg_word v ?r" using fold_reg_inj [of vs] by simp
  from reg_word_inj [OF this] show ?thesis by (simp add: xor_cancel)
qed

text \<open>The words of a buffer of whole words, block by block.\<close>

lemma array_I_append: "length xs mod 4 = 0 \<Longrightarrow> array_I (xs @ ys) = array_I xs @ array_I ys"
proof (induction xs rule: array_I.induct)
  case (1 a b c d xs)
  then show ?case by simp
qed auto

lemma low_digit:
  fixes a b n m :: int
  assumes "a + 256 * n = b + 256 * m" "0 \<le> a" "a < 256" "0 \<le> b" "b < 256"
  shows "a = b \<and> n = m"
proof -
  have "a = (a + 256 * n) mod 256" "b = (b + 256 * m) mod 256" using assms(2-5) by simp_all
  with assms(1) show ?thesis by simp
qed

lemma array_I_word_inj:
  fixes a b c d a' b' c' d' :: u8
  assumes "map word_of_int (array_I [a, b, c, d]) = (map word_of_int (array_I [a', b', c', d']) :: u32 list)"
  shows "[a, b, c, d] = [a', b', c', d']"
proof -
  let ?v = "\<lambda>a b c d :: u8. uint a + 256 * (uint b + 256 * (uint c + 256 * uint d))"
  have len32: "2 ^ LENGTH(32) = (2 ^ 32 :: int)" by simp
  have u: "0 \<le> uint x \<and> uint x < 256" for x :: u8 using uint_bounded [of x] by simp
  have r: "uint (word_of_int (?v a b c d) :: u32) = ?v a b c d" for a b c d :: u8
  proof -
    have "0 \<le> ?v a b c d \<and> ?v a b c d < 2 ^ 32" using u [of a] u [of b] u [of c] u [of d] by simp
    then show ?thesis unfolding uint_word_of_int by (simp only: len32 mod_pos_pos_trivial)
  qed
  have "(word_of_int (?v a b c d) :: u32) = word_of_int (?v a' b' c' d')" using assms by (simp add: algebra_simps)
  then have "?v a b c d = ?v a' b' c' d'" using r by metis
  with low_digit u have "uint a = uint a'" "uint b = uint b'" "uint c = uint c'" "uint d = uint d'" by metis+
  then show ?thesis by (simp add: word_uint_eq_iff)
qed

lemma crc32_detects:
  assumes l: "length xs mod 4 = 0" "length ys mod 4 = 0" "length a = 4" "length b = 4"
    and "crc32 (xs @ a @ ys) = crc32 (xs @ b @ ys)"
  shows "a = b"
proof -
  have p: "pad_buffer (xs @ z @ ys) = xs @ z @ ys" if "length z = 4" for z
    using l that by (simp add: pad_buffer_def mod_0_imp_dvd [of _ 4] dvd_imp_mod_0)
  obtain a0 a1 a2 a3 b0 b1 b2 b3 where ab: "a = [a0, a1, a2, a3]" "b = [b0, b1, b2, b3]"
    using l(3,4) by (auto simp: length_Suc_conv numeral_eq_Suc)
  let ?w = "\<lambda>z. map word_of_int (array_I z) :: u32 list"
  have "fold reg_word (?w xs @ ?w a @ ?w ys) 0xffffffff = fold reg_word (?w xs @ ?w b @ ?w ys) 0xffffffff"
    using assms(5) l by (simp add: crc32_def process_buffer_reg p array_I_append word_uint_eq_iff)
  then have "?w a = ?w b" using reg_detects [of "?w xs" _ "?w ys"] by (simp add: ab)
  with array_I_word_inj show ?thesis by (simp only: ab)
qed

end
