(* ===== verification/Pbpack.thy ===== *)
theory Pbpack
  imports Crc "HOL-Library.Multiset"
begin

text \<open>
  Resource packs, from \<^verbatim>\<open>generator.py\<close>: \<open>pack_resources\<close> writes a header, a table of fixed size and the
  data with duplicates shared; \<open>unpack_resources\<close> reads such a file back; \<open>tag_version\<close> marks a
  firmware image.  A resource is its identifier and the content of its file; the files written by
  the unpacker are the list it returns.
\<close>

section \<open>The code\<close>

definition le32 :: "int \<Rightarrow> u8 list" where
  "le32 x = [word_of_int x, word_of_int (x div 2 ^ 8), word_of_int (x div 2 ^ 16), word_of_int (x div 2 ^ 24)]"

definition struct_pack_I :: "int \<Rightarrow> py_error + u8 list" where
  "struct_pack_I x = (if 0 \<le> x \<and> x < 2 ^ 32 then Inr (le32 x) else Inl StructError)"

definition struct_pack_IIII :: "int \<Rightarrow> int \<Rightarrow> int \<Rightarrow> int \<Rightarrow> py_error + u8 list" where
  "struct_pack_IIII a b c d =
     bindE (struct_pack_I a) (\<lambda>a. bindE (struct_pack_I b) (\<lambda>b.
     bindE (struct_pack_I c) (\<lambda>c. bindE (struct_pack_I d) (\<lambda>d. Inr (a @ b @ c @ d)))))"

definition MAX_RESOURCES :: nat where
  "MAX_RESOURCES = 512"

record pbpack =
  data_offset_map :: "u8 list \<rightharpoonup> nat"
  resource_table :: "u8 list"
  resource_data :: "u8 list"

definition pack_resource :: "int \<times> u8 list \<Rightarrow> pbpack \<Rightarrow> py_error + pbpack" where
  "pack_resource r P =
     (let (resid, data) = r;
          (offset, P) = (case data_offset_map P data of
              Some offset \<Rightarrow> (offset, P)
            | None \<Rightarrow> (length (resource_data P),
                P\<lparr>resource_data := resource_data P @ data,
                  data_offset_map := (data_offset_map P)(data \<mapsto> length (resource_data P))\<rparr>))
      in bindE (struct_pack_IIII resid (int offset) (int (length data)) (crc32 data))
           (\<lambda>line. Inr (P\<lparr>resource_table := resource_table P @ line\<rparr>)))"

fun pack_loop :: "(int \<times> u8 list) list \<Rightarrow> pbpack \<Rightarrow> py_error + pbpack" where
  "pack_loop [] P = Inr P"
| "pack_loop (r # rs) P = bindE (pack_resource r P) (pack_loop rs)"

definition pack_resources :: "(int \<times> u8 list) list \<Rightarrow> nat \<Rightarrow> py_error + u8 list" where
  "pack_resources resmap max_resources =
     (let resources = sort_key fst resmap in
      bindE (pack_loop resources \<lparr>data_offset_map = Map.empty, resource_table = [], resource_data = []\<rparr>) (\<lambda>P.
        let table = resource_table P @ replicate ((max_resources - length resources) * 16) 0 in
        if length table \<noteq> max_resources * 16 then Inl AssertionError
        else bindE (struct_pack_I (int (length resources))) (\<lambda>n.
             bindE (struct_pack_I (crc32 (resource_data P))) (\<lambda>c.
             bindE (struct_pack_I 0) (\<lambda>z.
               Inr ((n @ c @ z) @ table @ resource_data P))))))"

text \<open>\<^verbatim>\<open>struct.unpack\<close> with as many \<^verbatim>\<open>I\<close> in the format as \<open>n\<close>.\<close>

definition struct_unpack_Is :: "nat \<Rightarrow> u8 list \<Rightarrow> py_error + int list" where
  "struct_unpack_Is n b = (if length b = 4 * n then Inr (array_I b) else Inl StructError)"

fun read_entries :: "nat \<Rightarrow> nat \<Rightarrow> u8 list \<Rightarrow> py_error + (int \<times> nat \<times> nat) list" where
  "read_entries 0 pos file = Inr []"
| "read_entries (Suc n) pos file =
     bindE (struct_unpack_Is 4 (take 16 (drop pos file))) (\<lambda>v.
     bindE (read_entries n (pos + 16) file) (\<lambda>rs. Inr ((v ! 0, nat (v ! 1), nat (v ! 2)) # rs)))"

definition unpack_resources :: "u8 list \<Rightarrow> py_error + (int \<times> u8 list) list" where
  "unpack_resources file =
     (let OFFSET_TABLE_OFFSET = 0xC; res_base = OFFSET_TABLE_OFFSET + MAX_RESOURCES * 16 in
      bindE (struct_unpack_Is 1 (take 4 file)) (\<lambda>n.
      bindE (read_entries (nat (n ! 0)) OFFSET_TABLE_OFFSET file) (\<lambda>resources.
        Inr (map (\<lambda>(resid, offset, size). (resid, take size (drop (res_base + offset) file))) resources))))"

section \<open>Fields\<close>

lemma uint_low_byte: "uint (word_of_int x :: u8) = x mod 256"
  by (simp add: uint_word_of_int)

lemma bytes_of_32:
  fixes x :: int
  assumes "0 \<le> x" "x < 2 ^ 32"
  shows "x mod 256 + 2 ^ 8 * (x div 2 ^ 8 mod 256) + 2 ^ 16 * (x div 2 ^ 16 mod 256) + 2 ^ 24 * (x div 2 ^ 24 mod 256) = x"
proof -
  define y z w where yzw: "y = x div 256" "z = y div 256" "w = z div 256"
  have d: "x div 65536 = z" "x div 16777216 = w"
    by (simp_all add: yzw flip: zdiv_zmult2_eq)
  have "w mod 256 = w" using assms by (intro mod_pos_pos_trivial) (simp_all flip: d(2))
  moreover have "x = 256 * y + x mod 256" "y = 256 * z + y mod 256" "z = 256 * w + z mod 256"
    by (simp_all add: yzw)
  ultimately have "x mod 256 + 256 * (y mod 256) + 65536 * (z mod 256) + 16777216 * (w mod 256) = x" by linarith
  moreover have "(2 :: int) ^ 8 = 256" "(2 :: int) ^ 16 = 65536" "(2 :: int) ^ 24 = 16777216" by simp_all
  ultimately show ?thesis by (simp only: d flip: yzw(1))
qed

lemma array_I_le32: "0 \<le> x \<Longrightarrow> x < 2 ^ 32 \<Longrightarrow> array_I (le32 x @ ys) = x # array_I ys"
  unfolding le32_def append.simps array_I.simps uint_low_byte
  by (simp only: bytes_of_32)

lemma length_le32 [simp]: "length (le32 x) = 4" by (simp add: le32_def)

lemma struct_pack_I_Inr: "struct_pack_I x = Inr b \<longleftrightarrow> 0 \<le> x \<and> x < 2 ^ 32 \<and> b = le32 x"
  by (auto simp: struct_pack_I_def)

lemma crc32_range: "0 \<le> crc32 data \<and> crc32 data < 2 ^ 32"
proof -
  have "crc32 data = uint (fold reg_word (map word_of_int (array_I (pad_buffer data))) 0xffffffff)"
    by (simp add: crc32_def process_buffer_reg)
  then show ?thesis using uint_bounded [of "fold reg_word (map word_of_int (array_I (pad_buffer data))) 0xffffffff :: u32"]
    by simp
qed

section \<open>The table\<close>

text \<open>A line of the table, and when its fields fit.\<close>

definition entry_line :: "int \<times> nat \<times> u8 list \<Rightarrow> u8 list" where
  "entry_line e = (case e of (resid, offset, data) \<Rightarrow>
     le32 resid @ le32 (int offset) @ le32 (int (length data)) @ le32 (crc32 data))"

definition entry_fits :: "int \<times> nat \<times> u8 list \<Rightarrow> bool" where
  "entry_fits e = (case e of (resid, offset, data) \<Rightarrow>
     0 \<le> resid \<and> resid < 2 ^ 32 \<and> offset < 2 ^ 32 \<and> length data < 2 ^ 32)"

lemma length_entry_line [simp]: "length (entry_line e) = 16"
  by (simp add: entry_line_def split: prod.split)

lemma length_lines [simp]: "length (concat (map entry_line es)) = 16 * length es"
  by (induction es) simp_all

lemma struct_pack_IIII_line:
  "struct_pack_IIII resid (int offset) (int (length data)) (crc32 data) =
     (if entry_fits (resid, offset, data) then Inr (entry_line (resid, offset, data)) else Inl StructError)"
  using crc32_range [of data] by (simp add: struct_pack_IIII_def struct_pack_I_def entry_line_def entry_fits_def)

lemma array_I_line:
  assumes "entry_fits (resid, offset, data)"
  shows "array_I (entry_line (resid, offset, data)) = [resid, int offset, int (length data), crc32 data]"
  using assms crc32_range [of data] array_I_le32 [of "crc32 data" "[]"]
  by (simp add: entry_fits_def entry_line_def array_I_le32)

lemma read_entries_lines:
  assumes "\<forall>e \<in> set es. entry_fits e" "length hdr = pos"
  shows "read_entries (length es) pos (hdr @ concat (map entry_line es) @ rest) =
     Inr (map (\<lambda>(resid, offset, data). (resid, offset, length data)) es)"
  using assms
proof (induction es arbitrary: hdr pos)
  case (Cons e es)
  obtain r o' d where e: "e = (r, o', d)" by (cases e)
  from Cons.IH [of "hdr @ entry_line e" "pos + 16"] Cons.prems show ?case
    by (simp add: e struct_unpack_Is_def array_I_line)
qed simp

section \<open>The pack loop\<close>

text \<open>Data already written stays where it is; every recorded offset finds its data.\<close>

definition stored :: "u8 list \<Rightarrow> nat \<Rightarrow> u8 list \<Rightarrow> bool" where
  "stored mem offset data \<longleftrightarrow> offset + length data \<le> length mem \<and> take (length data) (drop offset mem) = data"

definition pbpack_inv :: "pbpack \<Rightarrow> bool" where
  "pbpack_inv P \<longleftrightarrow> finite (dom (data_offset_map P)) \<and>
     length (resource_data P) = (\<Sum>d \<in> dom (data_offset_map P). length d) \<and>
     (\<forall>d offset. data_offset_map P d = Some offset \<longrightarrow> stored (resource_data P) offset d)"

lemma stored_append: "stored mem offset d \<Longrightarrow> stored (mem @ ext) offset d"
  by (simp add: stored_def)

lemma stored_last: "offset = length mem \<Longrightarrow> stored (mem @ d) offset d"
  by (simp add: stored_def)

lemma pack_resource_step:
  assumes inv: "pbpack_inv P" and id: "0 \<le> resid" "resid < 2 ^ 32"
    and size: "length (resource_data P) + length data < 2 ^ 32"
  shows "\<exists>P' offset ext. pack_resource (resid, data) P = Inr P' \<and> pbpack_inv P' \<and>
     resource_table P' = resource_table P @ entry_line (resid, offset, data) \<and> entry_fits (resid, offset, data) \<and>
     resource_data P' = resource_data P @ ext \<and> length ext \<le> length data \<and>
     stored (resource_data P') offset data \<and>
     dom (data_offset_map P') = insert data (dom (data_offset_map P))"
proof (cases "data_offset_map P data")
  case None
  have ok: "entry_fits (resid, length (resource_data P), data)" using id size by (simp add: entry_fits_def)
  let ?P = "P\<lparr>resource_data := resource_data P @ data,
    data_offset_map := (data_offset_map P)(data \<mapsto> length (resource_data P)),
    resource_table := resource_table P @ entry_line (resid, length (resource_data P), data)\<rparr>"
  have "pack_resource (resid, data) P = Inr ?P"
    using None ok by (simp add: pack_resource_def struct_pack_IIII_line)
  moreover have "data \<notin> dom (data_offset_map P)" using None by auto
  then have "pbpack_inv ?P" using inv by (auto simp: pbpack_inv_def stored_append stored_last)
  ultimately show ?thesis using ok stored_last [of _ "resource_data P" data]
    by (intro exI [of _ ?P] exI [of _ "length (resource_data P)"] exI [of _ data]) simp
next
  case (Some offset)
  then have st: "stored (resource_data P) offset data" using inv by (simp add: pbpack_inv_def)
  then have ok: "entry_fits (resid, offset, data)" using id size by (simp add: entry_fits_def stored_def)
  let ?P = "P\<lparr>resource_table := resource_table P @ entry_line (resid, offset, data)\<rparr>"
  have "pack_resource (resid, data) P = Inr ?P"
    using Some ok by (simp add: pack_resource_def struct_pack_IIII_line)
  moreover have "pbpack_inv ?P" using inv by (simp add: pbpack_inv_def)
  ultimately show ?thesis using ok st Some
    by (intro exI [of _ ?P] exI [of _ offset] exI [of _ "[]"]) (auto simp: insert_absorb)
qed

text \<open>What packing the resources \<open>rs\<close> adds: the lines \<open>es\<close>, and data under which each is stored.\<close>

definition packed :: "pbpack \<Rightarrow> (int \<times> u8 list) list \<Rightarrow> pbpack \<Rightarrow> (int \<times> nat \<times> u8 list) list \<Rightarrow> bool" where
  "packed P rs P' es \<longleftrightarrow> pbpack_inv P' \<and>
     resource_table P' = resource_table P @ concat (map entry_line es) \<and>
     map (\<lambda>(resid, offset, data). (resid, data)) es = rs \<and>
     (\<forall>e \<in> set es. entry_fits e \<and> stored (resource_data P') (fst (snd e)) (snd (snd e))) \<and>
     (\<exists>ext. resource_data P' = resource_data P @ ext) \<and>
     dom (data_offset_map P') = dom (data_offset_map P) \<union> snd ` set rs"

lemma packed_Cons:
  assumes "resource_table Q = resource_table P @ entry_line (resid, offset, data)" "entry_fits (resid, offset, data)"
    "resource_data Q = resource_data P @ ext" "stored (resource_data Q) offset data"
    "dom (data_offset_map Q) = insert data (dom (data_offset_map P))" "packed Q rs P' es"
  shows "packed P ((resid, data) # rs) P' ((resid, offset, data) # es)"
  using assms stored_append by (fastforce simp: packed_def)

lemma pack_loop_total:
  assumes "pbpack_inv P" "\<forall>r \<in> set rs. 0 \<le> fst r \<and> fst r < 2 ^ 32"
    and "length (resource_data P) + sum_list (map (\<lambda>r. length (snd r)) rs) < 2 ^ 32"
  shows "\<exists>P' es. pack_loop rs P = Inr P' \<and> packed P rs P' es"
  using assms
proof (induction rs arbitrary: P)
  case Nil
  then show ?case by (intro exI [of _ P] exI [of _ "[]"]) (simp add: packed_def)
next
  case (Cons r rs)
  obtain resid data where r: "r = (resid, data)" by (cases r)
  have "0 \<le> resid" "resid < 2 ^ 32" "length (resource_data P) + length data < 2 ^ 32"
    using Cons.prems by (simp_all add: r)
  from pack_resource_step [OF Cons.prems(1) this] obtain Q offset ext where
    Q: "pack_resource r P = Inr Q" "pbpack_inv Q"
      "resource_table Q = resource_table P @ entry_line (resid, offset, data)" "entry_fits (resid, offset, data)"
      "resource_data Q = resource_data P @ ext" "length ext \<le> length data"
      "stored (resource_data Q) offset data" "dom (data_offset_map Q) = insert data (dom (data_offset_map P))"
    unfolding r by blast
  have "length (resource_data Q) + sum_list (map (\<lambda>r. length (snd r)) rs) < 2 ^ 32"
    using Cons.prems(3) Q(5,6) by (simp add: r)
  with Cons.IH [OF Q(2)] Cons.prems(2) obtain P' es where "pack_loop rs Q = Inr P'" "packed Q rs P' es"
    by fastforce
  with packed_Cons [OF Q(3,4,5,7,8)] Q(1) show ?case by (simp add: r) blast
qed

section \<open>Packing and unpacking\<close>

definition packable :: "(int \<times> u8 list) list \<Rightarrow> bool" where
  "packable rs \<longleftrightarrow> length rs < 2 ^ 32 \<and> (\<forall>r \<in> set rs. 0 \<le> fst r \<and> fst r < 2 ^ 32) \<and>
     sum_list (map (\<lambda>r. length (snd r)) rs) < 2 ^ 32"

lemma sum_list_sort_key: "sum_list (map f (sort_key k xs)) = (sum_list (map f xs) :: 'a :: comm_monoid_add)"
proof -
  have "mset (map f (sort_key k xs)) = mset (map f xs)" by simp
  then show ?thesis by (simp only: flip: sum_mset_sum_list)
qed

text \<open>The loop of the packer, run from the start.\<close>

definition no_pbpack :: pbpack where
  "no_pbpack = \<lparr>data_offset_map = Map.empty, resource_table = [], resource_data = []\<rparr>"

lemma pack_loop_start:
  assumes "packable rs"
  obtains P es where "pack_loop (sort_key fst rs) no_pbpack = Inr P" "packed no_pbpack (sort_key fst rs) P es"
    "length es = length rs" "resource_table P = concat (map entry_line es)"
    "length (resource_data P) = (\<Sum>d \<in> snd ` set rs. length d)"
proof -
  have i: "pbpack_inv no_pbpack" by (simp add: pbpack_inv_def no_pbpack_def)
  have r: "\<forall>r \<in> set (sort_key fst rs). 0 \<le> fst r \<and> fst r < 2 ^ 32"
    using assms by (simp add: packable_def)
  have l: "length (resource_data no_pbpack) + sum_list (map (\<lambda>r. length (snd r)) (sort_key fst rs)) < 2 ^ 32"
    using assms by (simp add: packable_def sum_list_sort_key no_pbpack_def)
  from pack_loop_total [OF i r l] obtain P es where
    "pack_loop (sort_key fst rs) no_pbpack = Inr P \<and> packed no_pbpack (sort_key fst rs) P es"
    by (elim exE)
  then have P: "pack_loop (sort_key fst rs) no_pbpack = Inr P" "packed no_pbpack (sort_key fst rs) P es"
    by simp_all
  from P(2) have "length (map (\<lambda>(resid, offset, data). (resid, data)) es) = length (sort_key fst rs)"
    by (simp add: packed_def)
  then have l: "length es = length rs" by simp
  from P(2) have "resource_table P = concat (map entry_line es)"
    "length (resource_data P) = (\<Sum>d \<in> snd ` set rs. length d)"
    by (simp_all add: packed_def pbpack_inv_def no_pbpack_def)
  with that [OF P l] show ?thesis .
qed

lemma pack_resources_image:
  assumes "pack_loop (sort_key fst rs) no_pbpack = Inr P" "resource_table P = concat (map entry_line es)"
    "length es = length rs" "length rs \<le> n" "length rs < 2 ^ 32"
  shows "pack_resources rs n = Inr ((le32 (int (length rs)) @ le32 (crc32 (resource_data P)) @ le32 0) @
       (concat (map entry_line es) @ replicate ((n - length rs) * 16) 0) @ resource_data P)"
  using assms crc32_range [of "resource_data P"]
  by (simp add: pack_resources_def struct_pack_I_def Let_def flip: no_pbpack_def)

lemma pack_resources_full:
  assumes "packable rs" "n < length rs"
  shows "pack_resources rs n = Inl AssertionError"
  by (rule pack_loop_start [OF assms(1)]) (use assms(2) in \<open>simp add: pack_resources_def Let_def flip: no_pbpack_def\<close>)

text \<open>
  With a table of any size the entries give back the resources, from where the data starts; the
  unpacker looks for the data behind a table of 512 entries.
\<close>

definition read_data :: "nat \<Rightarrow> u8 list \<Rightarrow> int \<times> nat \<times> nat \<Rightarrow> int \<times> u8 list" where
  "read_data base file e = (case e of (resid, offset, sz) \<Rightarrow> (resid, take sz (drop (base + offset) file)))"

lemma pack_resources_read:
  assumes "packable rs" "length rs \<le> n"
  shows "\<exists>pack es. pack_resources rs n = Inr pack \<and> read_entries (length rs) 0xC pack = Inr es \<and>
     map (read_data (0xC + n * 16) pack) es = sort_key fst rs \<and>
     unpack_resources pack = Inr (map (read_data (0xC + 512 * 16) pack) es) \<and>
     length pack = 0xC + n * 16 + (\<Sum>d \<in> snd ` set rs. length d)"
proof (rule pack_loop_start [OF assms(1)])
  fix P es
  assume run: "pack_loop (sort_key fst rs) no_pbpack = Inr P" "packed no_pbpack (sort_key fst rs) P es"
    and es: "length es = length rs" "resource_table P = concat (map entry_line es)"
    and len: "length (resource_data P) = (\<Sum>d \<in> snd ` set rs. length d)"
  let ?mem = "resource_data P" and ?pad = "replicate ((n - length es) * 16) 0 :: u8 list"
  let ?hdr = "le32 (int (length es)) @ le32 (crc32 ?mem) @ le32 0"
  let ?tab = "?hdr @ concat (map entry_line es) @ ?pad"
  let ?file = "?tab @ ?mem" and ?ents = "map (\<lambda>(resid, offset, data). (resid, offset, length data)) es"
  have rs: "map (\<lambda>(resid, offset, data). (resid, data)) es = sort_key fst rs"
    and fits: "\<forall>e \<in> set es. entry_fits e \<and> stored ?mem (fst (snd e)) (snd (snd e))"
    using run(2) by (simp_all add: packed_def)
  have small: "length rs < 2 ^ 32" using assms(1) by (simp add: packable_def)
  have pack: "pack_resources rs n = Inr ?file"
    using pack_resources_image [OF run(1) es(2,1) assms(2) small] by (simp add: es(1))
  have tab: "length ?tab = 0xC + n * 16" using assms(2) es(1) by (simp add: algebra_simps)
  have ents: "read_entries (length es) 0xC ?file = Inr ?ents"
    using read_entries_lines [of es ?hdr 12 "?pad @ ?mem"] fits by simp
  have d: "drop (0xC + n * 16 + k) ?file = drop k ?mem" for k
  proof -
    have "drop (length xs + k) (xs @ ys) = drop k ys" for xs ys :: "u8 list" by simp
    from this [of ?tab ?mem] show ?thesis unfolding tab .
  qed
  have "read_data (0xC + n * 16) ?file (resid, offset, length data) = (resid, data)" if "(resid, offset, data) \<in> set es" for resid offset data
    using fits that by (auto simp only: read_data_def d stored_def prod.case fst_conv snd_conv)
  then have "map (read_data (0xC + n * 16) ?file) ?ents = map (\<lambda>(resid, offset, data). (resid, data)) es"
    unfolding map_map by (intro map_cong) auto
  moreover have "struct_unpack_Is 1 (take 4 ?file) = Inr [int (length es)]"
    using small es(1) array_I_le32 [of "int (length es)" "[]"] by (simp add: struct_unpack_Is_def)
  then have "unpack_resources ?file = Inr (map (read_data (0xC + 512 * 16) ?file) ?ents)"
    unfolding unpack_resources_def Let_def MAX_RESOURCES_def
    by (simp only: bindE_simps nth_Cons_0 nat_int ents read_data_def [abs_def])
  moreover have "length ?file = 0xC + n * 16 + (\<Sum>d \<in> snd ` set rs. length d)"
    unfolding length_append [of ?tab] tab len by simp
  ultimately show ?thesis using pack ents rs by (metis es(1))
qed

section \<open>Tagging a firmware image\<close>

text \<open>\<^verbatim>\<open>bytes.index\<close> and \<^verbatim>\<open>%d\<close>.\<close>

fun py_index :: "u8 list \<Rightarrow> u8 list \<Rightarrow> py_error + nat" where
  "py_index xs pat =
     (if take (length pat) xs = pat then Inr 0
      else case xs of [] \<Rightarrow> Inl ValueError | x # ys \<Rightarrow> bindE (py_index ys pat) (\<lambda>n. Inr (Suc n)))"

fun dec_nat :: "nat \<Rightarrow> u8 list" where
  "dec_nat n = (if n < 10 then [0x30 + of_nat n] else dec_nat (n div 10) @ [0x30 + of_nat (n mod 10)])"

definition py_dec :: "int \<Rightarrow> u8 list" where
  "py_dec i = (if i < 0 then 0x2D # dec_nat (nat (- i)) else dec_nat (nat i))"

text \<open>\<^verbatim>\<open>b"-RTL-r%d" % rev_no\<close>; \<open>fw_ver\<close> is the encoded version string.\<close>

definition tag_version :: "u8 list \<Rightarrow> int \<Rightarrow> u8 list \<Rightarrow> py_error + u8 list" where
  "tag_version fw_ver rev_no fw_bin =
     bindE (py_index fw_bin fw_ver) (\<lambda>ver_string_loc.
       let new_ver_string = fw_ver @ [0x2D, 0x52, 0x54, 0x4C, 0x2D, 0x72] @ py_dec rev_no in
       Inr (take ver_string_loc fw_bin @ new_ver_string @ drop (ver_string_loc + length new_ver_string) fw_bin))"

declare py_index.simps [simp del] dec_nat.simps [simp del]

lemma py_index_found:
  "py_index xs pat = Inr n \<Longrightarrow> take (length pat) (drop n xs) = pat \<and> n \<le> length xs \<and>
     (\<forall>k < n. take (length pat) (drop k xs) \<noteq> pat)"
proof (induction xs arbitrary: n)
  case Nil
  then show ?case by (subst (asm) py_index.simps) (auto split: if_splits)
next
  case (Cons x xs)
  show ?case
  proof (cases "take (length pat) (x # xs) = pat")
    case True
    then show ?thesis using Cons.prems by (subst (asm) py_index.simps) simp
  next
    case False
    then obtain m where m: "n = Suc m" "py_index xs pat = Inr m"
      using Cons.prems by (subst (asm) py_index.simps) (auto simp: bindE_Inr_iff)
    from Cons.IH [OF m(2)] False show ?thesis by (auto simp: m(1) less_Suc_eq_0_disj)
  qed
qed

text \<open>When the tag fits, only the bytes under it change; it starts where the version string first stood.\<close>

lemma nth_overwrite:
  assumes "loc + length n \<le> length xs" "k < length xs"
  shows "(take loc xs @ n @ drop (loc + length n) xs) ! k = (if loc \<le> k \<and> k < loc + length n then n ! (k - loc) else xs ! k)"
  using assms by (auto simp: nth_append)

lemma tag_version_frame:
  assumes "tag_version fw_ver rev_no fw_bin = Inr res"
  obtains loc where "py_index fw_bin fw_ver = Inr loc"
    "loc + length fw_ver + 6 + length (py_dec rev_no) \<le> length fw_bin \<Longrightarrow> length res = length fw_bin \<and>
       (\<forall>k < length fw_bin. k < loc + length fw_ver \<or> loc + length fw_ver + 6 + length (py_dec rev_no) \<le> k \<longrightarrow>
          res ! k = fw_bin ! k)"
proof -
  from assms obtain loc where loc: "py_index fw_bin fw_ver = Inr loc"
    by (auto simp: tag_version_def bindE_Inr_iff)
  from py_index_found [OF loc] have at: "take (length fw_ver) (drop loc fw_bin) = fw_ver" "loc \<le> length fw_bin" by auto
  let ?n = "fw_ver @ [0x2D, 0x52, 0x54, 0x4C, 0x2D, 0x72] @ py_dec rev_no"
  have res: "res = take loc fw_bin @ ?n @ drop (loc + length ?n) fw_bin"
    using assms by (simp add: tag_version_def loc)
  have same: "res ! k = fw_bin ! k" if fit: "loc + length ?n \<le> length fw_bin" "k < length fw_bin"
    and out: "k < loc + length fw_ver \<or> loc + length ?n \<le> k" for k
  proof (cases "loc \<le> k \<and> k < loc + length fw_ver")
    case True
    then have k: "k - loc < length fw_ver" by linarith
    then have "res ! k = fw_ver ! (k - loc)" using True fit by (simp add: res nth_overwrite [OF fit(1)] nth_append)
    also have "\<dots> = take (length fw_ver) (drop loc fw_bin) ! (k - loc)" by (simp only: at(1))
    finally show ?thesis using True k fit at(2) by simp
  next
    case False
    then have "\<not> (loc \<le> k \<and> k < loc + length ?n)" using out by linarith
    then show ?thesis unfolding res nth_overwrite [OF fit] by (simp only: if_False)
  qed
  show ?thesis by (rule that [OF loc]) (use same at(2) in \<open>auto simp: res add.assoc add.commute\<close>)
qed

end
