(* ===== verification/Symtab.thy ===== *)
theory Symtab
  imports Patcher Pbpack
begin

text \<open>
  The symbol table of the stripped firmware, from \<open>Patcher._build_symbol_table\<close> in \<^verbatim>\<open>patch_tools.py\<close>: the
  calls of the SDK go through a jump table in the image, and the script finds it by the pattern of its
  used and unused slots.  The offsets of the functions, which a regular expression takes from
  disassembled text, are a parameter.
\<close>

section \<open>The code\<close>

text \<open>The regular expression: literal bytes and dots.\<close>

datatype byte_pat = Lit u8 | Dot

fun jump_pattern :: "nat \<Rightarrow> nat list \<Rightarrow> byte_pat list" where
  "jump_pattern last_idx [] = []"
| "jump_pattern last_idx (idx # idxs) =
     replicate (idx - last_idx - 4) (Lit 0) @ [Dot, Dot, Dot, Lit 8] @ jump_pattern idx idxs"

fun matches :: "byte_pat list \<Rightarrow> u8 list \<Rightarrow> bool" where
  "matches [] bs \<longleftrightarrow> True"
| "matches (p # ps) (b # bs) \<longleftrightarrow> (p = Dot \<or> p = Lit b) \<and> matches ps bs"
| "matches (p # ps) [] \<longleftrightarrow> False"

text \<open>\<^verbatim>\<open>next(re.finditer(pattern, bin, re.DOTALL)).start()\<close>\<close>

fun finditer_start :: "byte_pat list \<Rightarrow> u8 list \<Rightarrow> py_error + nat" where
  "finditer_start pattern bin =
     (if matches pattern bin then Inr 0
      else case bin of [] \<Rightarrow> Inl StopIteration | b # bs \<Rightarrow> bindE (finditer_start pattern bs) (\<lambda>n. Inr (Suc n)))"

definition read_symbol :: "bool \<Rightarrow> u8 list \<Rightarrow> nat \<Rightarrow> py_error + int" where
  "read_symbol hardware target_bin ptr_offset =
     bindE (struct_unpack_Is 1 (take 4 (drop ptr_offset target_bin))) (\<lambda>v.
       let abs_addr = v ! 0 in
       if abs_addr AND 1 \<noteq> 0 then Inr ((abs_addr AND NOT 1) - MICROCODE_OFFSET hardware)
       else Inl AssertionError)"

fun read_symbols :: "bool \<Rightarrow> u8 list \<Rightarrow> nat \<Rightarrow> (string \<times> nat) list \<Rightarrow> (string \<rightharpoonup> int) \<Rightarrow> py_error + (string \<rightharpoonup> int)" where
  "read_symbols hardware target_bin base [] symtab = Inr symtab"
| "read_symbols hardware target_bin base ((func, offset) # fs) symtab =
     bindE (read_symbol hardware target_bin (base + offset)) (\<lambda>a.
       read_symbols hardware target_bin base fs (symtab(func \<mapsto> a)))"

definition build_symbol_table :: "bool \<Rightarrow> u8 list \<Rightarrow> (string \<times> nat) list \<Rightarrow> py_error + (string \<rightharpoonup> int)" where
  "build_symbol_table hardware target_bin func_offset_map =
     bindE (finditer_start (jump_pattern 0 (sort (map snd func_offset_map))) target_bin) (\<lambda>jump_tbl_match_base.
       read_symbols hardware target_bin jump_tbl_match_base func_offset_map Map.empty)"

declare finditer_start.simps [simp del]

section \<open>The first match\<close>

lemma finditer_start_first:
  assumes "matches pattern (drop t bin)" "t \<le> length bin" "\<And>k. k < t \<Longrightarrow> \<not> matches pattern (drop k bin)"
  shows "finditer_start pattern bin = Inr t"
  using assms
proof (induction t arbitrary: bin)
  case 0
  then show ?case by (simp add: finditer_start.simps)
next
  case (Suc t)
  from Suc.prems(2) obtain b bs where bin: "bin = b # bs" by (cases bin) auto
  have "finditer_start pattern bs = Inr t"
    using Suc.prems(1,2) Suc.prems(3) [of "Suc _"] by (intro Suc.IH) (simp_all add: bin)
  with Suc.prems(3) [of 0] show ?case by (simp add: bin finditer_start.simps [of _ "b # bs"])
qed

lemma finditer_start_Inr:
  "finditer_start pattern bin = Inr t \<Longrightarrow> matches pattern (drop t bin) \<and> (\<forall>k < t. \<not> matches pattern (drop k bin))"
proof (induction bin arbitrary: t)
  case Nil
  then show ?case by (simp add: finditer_start.simps [of _ "[]"] split: if_splits)
next
  case (Cons b bs)
  show ?case
  proof (cases "matches pattern (b # bs)")
    case True
    then show ?thesis using Cons.prems by (simp add: finditer_start.simps [of _ "b # bs"])
  next
    case False
    then obtain n where n: "t = Suc n" "finditer_start pattern bs = Inr n"
      using Cons.prems by (auto simp: finditer_start.simps [of _ "b # bs"] bindE_Inr_iff)
    from Cons.IH [OF n(2)] False show ?thesis by (auto simp: n(1) less_Suc_eq_0_disj)
  qed
qed

section \<open>A jump table in the image\<close>

text \<open>
  A table of words, one for each slot; the functions still offered have a pointer to Thumb code in
  flash, the slots of the others are zero.
\<close>

definition thumb_pointer :: "int \<Rightarrow> bool" where
  "thumb_pointer p \<longleftrightarrow> 0x8000000 \<le> p \<and> p < 0x9000000 \<and> p mod 2 = 1"

definition jump_table :: "int list \<Rightarrow> (string \<times> nat) list \<Rightarrow> bool" where
  "jump_table slots fs \<longleftrightarrow> distinct (map snd fs) \<and> 0 \<in> snd ` set fs \<and>
     (\<forall>f \<in> set fs. 4 dvd snd f \<and> snd f div 4 < length slots \<and> thumb_pointer (slots ! (snd f div 4))) \<and>
     (\<forall>i < length slots. 4 * i \<notin> snd ` set fs \<longrightarrow> slots ! i = 0)"

lemma matches_append: "length ps = length bs \<Longrightarrow> matches (ps @ qs) (bs @ cs) \<longleftrightarrow> matches ps bs \<and> matches qs cs"
  by (induction ps bs rule: list_induct2) auto

lemma matches_zeros: "matches (replicate n (Lit 0)) (replicate n 0)"
  by (induction n) auto

lemma le32_zero: "le32 0 = replicate 4 0"
  by (simp add: le32_def eval_nat_numeral)

lemma concat_zeros: "concat (map le32 (replicate n 0)) = replicate (4 * n) 0"
  by (induction n) (simp_all add: le32_zero flip: replicate_add)

lemma matches_pointer: "thumb_pointer p \<Longrightarrow> matches [Dot, Dot, Dot, Lit 8] (le32 p)"
proof -
  assume "thumb_pointer p"
  then have "p div 16777216 = 8" by (auto simp: thumb_pointer_def)
  then show ?thesis by (simp add: le32_def)
qed

lemma matches_slots:
  assumes "sorted_wrt (<) (j # js)" "\<forall>i \<in> set js. i < length slots \<and> thumb_pointer (slots ! i)"
    "\<forall>i < length slots. j < i \<longrightarrow> i \<notin> set js \<longrightarrow> slots ! i = 0"
  shows "matches (jump_pattern (4 * j) (map ((*) 4) js)) (concat (map le32 (drop (Suc j) slots)) @ rest)"
  using assms
proof (induction js arbitrary: j)
  case (Cons i js)
  then have i: "j < i" "i < length slots" "thumb_pointer (slots ! i)" by auto
  have "take (i - Suc j) (drop (Suc j) slots) = replicate (i - Suc j) 0"
  proof (rule nth_equalityI)
    fix k assume "k < length (take (i - Suc j) (drop (Suc j) slots))"
    moreover from this i have "Suc j + k \<notin> set (i # js)" using Cons.prems(1) by fastforce
    ultimately show "take (i - Suc j) (drop (Suc j) slots) ! k = replicate (i - Suc j) 0 ! k"
      using Cons.prems(3) i by simp
  qed (use i in simp)
  moreover have "drop (i - Suc j) (drop (Suc j) slots) = slots ! i # drop (Suc i) slots"
    using i by (simp add: Cons_nth_drop_Suc)
  ultimately have "drop (Suc j) slots = replicate (i - Suc j) 0 @ slots ! i # drop (Suc i) slots"
    by (metis append_take_drop_id)
  then have bytes: "concat (map le32 (drop (Suc j) slots)) @ rest =
      replicate (4 * (i - Suc j)) 0 @ le32 (slots ! i) @ concat (map le32 (drop (Suc i) slots)) @ rest"
    by (simp only: map_append concat_append concat_zeros list.map concat.simps append_assoc)
  have gap: "4 * i - 4 * j - 4 = 4 * (i - Suc j)" using i by simp
  have later: "matches (jump_pattern (4 * i) (map ((*) 4) js)) (concat (map le32 (drop (Suc i) slots)) @ rest)"
    using Cons.prems by (intro Cons.IH) auto
  show ?case unfolding bytes list.map jump_pattern.simps gap
    by (subst matches_append, simp, subst matches_append, simp)
      (simp only: matches_zeros matches_pointer [OF i(3)] later simp_thms)
qed simp

lemma matches_table:
  assumes "jump_table slots fs"
  shows "matches (jump_pattern 0 (sort (map snd fs))) (concat (map le32 slots) @ rest)"
proof -
  define os where "os = sort (map snd fs)"
  have os: "set os = snd ` set fs" "sorted_wrt (<) os" "0 \<in> set os" "\<forall>x \<in> set os. 4 dvd x"
    using assms by (auto simp: os_def jump_table_def strict_sorted_iff)
  from os(2,3) obtain xs where xs: "os = 0 # xs" by (cases os) auto
  define js where "js = map (\<lambda>x. x div 4) xs"
  have m: "xs = map ((*) 4) js" using os(4) by (auto simp: js_def xs intro!: map_idI [symmetric])
  have inj: "4 * i \<in> snd ` set fs \<longleftrightarrow> i = 0 \<or> i \<in> set js" for i
    unfolding os(1) [symmetric] xs m by auto
  have srt: "sorted_wrt (<) (0 # js)" using os(2) unfolding xs m by (simp add: sorted_wrt_map)
  have ptr: "i < length slots \<and> thumb_pointer (slots ! i)" if "i = 0 \<or> i \<in> set js" for i
    using that inj assms unfolding jump_table_def by (metis (no_types, lifting) imageE nonzero_mult_div_cancel_left zero_neq_numeral)
  have z: "\<forall>i < length slots. 0 < i \<longrightarrow> i \<notin> set js \<longrightarrow> slots ! i = 0"
    using assms inj by (simp add: jump_table_def)
  from ptr [of 0] obtain p ws where ws: "slots = p # ws" "thumb_pointer p" by (cases slots) auto
  have "matches (jump_pattern (4 * 0) (map ((*) 4) js)) (concat (map le32 (drop (Suc 0) slots)) @ rest)"
    by (rule matches_slots [OF srt _ z]) (use ptr in blast)
  then have later: "matches (jump_pattern 0 xs) (concat (map le32 ws) @ rest)" by (simp add: ws(1) m)
  show ?thesis unfolding os_def [symmetric] xs ws(1) jump_pattern.simps
    using matches_append [of "[Dot, Dot, Dot, Lit 8]" "le32 p"] matches_pointer [OF ws(2)] later by simp
qed

lemma read_slot:
  assumes "i < length slots" "thumb_pointer (slots ! i)"
  shows "read_symbol hardware (pre @ concat (map le32 slots) @ post) (length pre + 4 * i) =
     Inr (slots ! i - 1 - MICROCODE_OFFSET hardware)"
proof -
  have len: "length (concat (map le32 xs)) = 4 * length xs" for xs
    by (induction xs) simp_all
  have "concat (map le32 slots) = concat (map le32 (take i slots)) @ le32 (slots ! i) @ concat (map le32 (drop (Suc i) slots))"
    using id_take_nth_drop [OF assms(1)] by (metis concat.simps(2) concat_append list.map(2) map_append)
  then have word: "take 4 (drop (length pre + 4 * i) (pre @ concat (map le32 slots) @ post)) = le32 (slots ! i)"
    using assms(1) by (simp add: len min_def)
  have p: "array_I (le32 (slots ! i)) = [slots ! i]"
    using array_I_le32 [of "slots ! i" "[]"] assms(2) by (simp add: thumb_pointer_def)
  have clear: "x AND - 2 = 2 * (x div 2)" for x :: int by (subst and_rec) simp
  have odd: "slots ! i AND 1 = 1" "slots ! i AND - 2 = slots ! i - 1"
    using assms(2) by (simp_all add: thumb_pointer_def and_one_eq clear flip: minus_mod_eq_mult_div)
  show ?thesis unfolding read_symbol_def word by (simp add: struct_unpack_Is_def p odd Let_def)
qed

lemma read_all_slots:
  assumes "\<forall>f \<in> set fs. 4 dvd snd f \<and> snd f div 4 < length slots \<and> thumb_pointer (slots ! (snd f div 4))" "distinct (map fst fs)"
    "\<forall>f \<in> set fs. symtab (fst f) = None"
  shows "read_symbols hardware (pre @ concat (map le32 slots) @ post) (length pre) fs symtab =
     Inr (symtab ++ (\<lambda>f. map_option (\<lambda>offset. slots ! (offset div 4) - 1 - MICROCODE_OFFSET hardware) (map_of fs f)))"
  using assms
proof (induction fs arbitrary: symtab)
  case (Cons f fs)
  obtain func offset where f: "f = (func, offset)" by force
  let ?a = "slots ! (offset div 4) - 1 - MICROCODE_OFFSET hardware"
  from Cons.prems have "read_symbol hardware (pre @ concat (map le32 slots) @ post) (length pre + offset) = Inr ?a"
    using read_slot [of "offset div 4" slots hardware pre post] by (simp add: f)
  moreover have "read_symbols hardware (pre @ concat (map le32 slots) @ post) (length pre) fs (symtab(func \<mapsto> ?a)) =
      Inr (symtab(func \<mapsto> ?a) ++ (\<lambda>f. map_option (\<lambda>offset. slots ! (offset div 4) - 1 - MICROCODE_OFFSET hardware) (map_of fs f)))"
    using Cons.prems by (intro Cons.IH) (auto simp: f image_iff)
  moreover have "map_of fs func = None" using Cons.prems(2) by (simp add: f map_of_eq_None_iff)
  ultimately show ?case by (auto simp: f fun_eq_iff map_add_def split: option.splits)
qed simp

text \<open>Where the table is the first place that looks like one, every function gets the address its slot holds.\<close>

lemma symbol_table_of_slots:
  assumes "jump_table slots fs" "distinct (map fst fs)" "target_bin = pre @ concat (map le32 slots) @ post"
    "\<forall>k < length pre. \<not> matches (jump_pattern 0 (sort (map snd fs))) (drop k target_bin)"
  shows "build_symbol_table hardware target_bin fs =
     Inr (\<lambda>f. map_option (\<lambda>offset. slots ! (offset div 4) - 1 - MICROCODE_OFFSET hardware) (map_of fs f))"
proof -
  have "finditer_start (jump_pattern 0 (sort (map snd fs))) target_bin = Inr (length pre)"
    using matches_table [OF assms(1), of post] assms(4) by (intro finditer_start_first) (simp_all add: assms(3))
  with read_all_slots [of fs slots Map.empty hardware pre post] assms(1,2) show ?thesis
    by (simp add: build_symbol_table_def assms(3) jump_table_def)
qed

text \<open>
  A table in which no function has slot zero is searched one word short: the pattern is that of a table
  shifted by a word, and the addresses are taken from the slots after the right ones.
\<close>

lemma jump_pattern_shift: "jump_pattern 0 (map (\<lambda>i. i + 4) (0 # xs)) = jump_pattern 0 (0 # xs)"
proof -
  have "jump_pattern (l + 4) (map (\<lambda>i. i + 4) xs) = jump_pattern l xs" for l
    by (induction xs arbitrary: l) simp_all
  from this [of 0] show ?thesis by simp
qed

lemma symbol_table_shifted:
  "build_symbol_table True (concat (map le32 [0, 0x8004101, 0x8004201, 0x8004301])) [(''first'', 4), (''second'', 8)] =
     Inr [''first'' \<mapsto> 0x200, ''second'' \<mapsto> 0x300]"
proof -
  let ?bin = "[0, 0, 0, 0, 1, 0x41, 0, 8, 1, 0x42, 0, 8, 1, 0x43, 0, 8] :: u8 list"
  have bin: "concat (map le32 [0, 0x8004101, 0x8004201, 0x8004301]) = ?bin" by (simp add: le32_def)
  have "finditer_start (jump_pattern 0 [4, 8]) ?bin = Inr 4" by code_simp
  then show ?thesis unfolding bin
    by (simp add: build_symbol_table_def read_symbol_def struct_unpack_Is_def MICROCODE_OFFSET_def BOOTLOADER_SIZE_def)
qed

end
