(* ===== verification/System_Fonts.thy ===== *)
theory System_Fonts
  imports Pbpack "HOL-Library.AList"
begin

text \<open>
  The search for the table of font resources in a firmware image, from
  \<open>extract_system_font_resource_ids\<close> in \<^verbatim>\<open>fonts/find_system_fonts.py\<close>.  The loop keeps a table under
  construction and the largest seen; while the former is the largest, both names refer to one
  dictionary, and what is added to the one is added to the other.
\<close>

section \<open>The code\<close>

type_synonym res_table = "(u8 list \<times> int) list"

definition FLASH_OFFSET :: int where
  "FLASH_OFFSET = 0x8000000"

definition BOOTLOADER_OFFSET :: int where
  "BOOTLOADER_OFFSET = 0x4000"

text \<open>Slices, whose bounds count from the end when negative.\<close>

definition py_bound :: "'a list \<Rightarrow> int \<Rightarrow> nat" where
  "py_bound xs i = nat (if i < 0 then i + int (length xs) else i)"

definition py_slice :: "'a list \<Rightarrow> int \<Rightarrow> int \<Rightarrow> 'a list" where
  "py_slice xs i j = drop (py_bound xs i) (take (py_bound xs j) xs)"

definition RESOURCE_ID :: "u8 list" where
  "RESOURCE_ID = [0x52, 0x45, 0x53, 0x4F, 0x55, 0x52, 0x43, 0x45, 0x5F, 0x49, 0x44]"

definition pad_image :: "u8 list \<Rightarrow> u8 list" where
  "pad_image target_bin =
     (if length target_bin mod 4 \<noteq> 0 then target_bin @ replicate (4 - length target_bin mod 4) 0 else target_bin)"

text \<open>The entry a word ends, when the word before points to a name.\<close>

definition entry_at :: "u8 list \<Rightarrow> int \<Rightarrow> int \<Rightarrow> py_error + (u8 list \<times> int) option" where
  "entry_at target_bin last_word word =
     (if FLASH_OFFSET < last_word \<and> last_word < 0x9000000 then
        let name_ptr = last_word - FLASH_OFFSET - BOOTLOADER_OFFSET in
        if py_slice target_bin name_ptr (name_ptr + 11) = RESOURCE_ID then
          bindE (py_index (drop (py_bound target_bin name_ptr) target_bin) [0]) (\<lambda>n.
            Inr (Some (py_slice target_bin name_ptr (int n + name_ptr), word AND 0xffff)))
        else Inr None
      else Inr None)"

text \<open>\<open>aliased\<close>: \<open>final_table\<close> is the dictionary \<open>work_table\<close>.\<close>

record table_search =
  last_word :: int
  final_table :: res_table
  work_table :: res_table
  since_last :: nat
  aliased :: bool

definition put_entry :: "(u8 list \<times> int) option \<Rightarrow> table_search \<Rightarrow> table_search" where
  "put_entry e s =
     (case e of
        None \<Rightarrow> s
      | Some (full_name, resid) \<Rightarrow>
          let t = AList.update full_name resid (work_table s) in
          s\<lparr>work_table := t, final_table := (if aliased s then t else final_table s), since_last := 0\<rparr>)"

definition save_table :: "table_search \<Rightarrow> table_search" where
  "save_table s =
     (if 2 < since_last s then s\<lparr>work_table := [], aliased := False\<rparr>
      else if length (final_table s) < length (work_table s) then s\<lparr>final_table := work_table s, aliased := True\<rparr>
      else s)"

definition search_word :: "u8 list \<Rightarrow> int \<Rightarrow> table_search \<Rightarrow> py_error + table_search" where
  "search_word target_bin word s =
     bindE (entry_at target_bin (last_word s) word) (\<lambda>e.
       Inr ((save_table (put_entry e (s\<lparr>since_last := since_last s + 1\<rparr>)))\<lparr>last_word := word\<rparr>))"

fun search_words :: "u8 list \<Rightarrow> int list \<Rightarrow> table_search \<Rightarrow> py_error + table_search" where
  "search_words target_bin [] s = Inr s"
| "search_words target_bin (word # words) s = bindE (search_word target_bin word s) (search_words target_bin words)"

definition extract_system_font_resource_ids :: "u8 list \<Rightarrow> py_error + res_table" where
  "extract_system_font_resource_ids bin =
     (let target_bin = pad_image bin in
      bindE (search_words target_bin (array_I target_bin)
               \<lparr>last_word = 0, final_table = [], work_table = [], since_last = 0, aliased = False\<rparr>)
        (\<lambda>s. Inr (final_table s)))"

section \<open>The largest table\<close>

text \<open>
  The entries found, word by word, fall into runs: a run ends at the third word in a row without an
  entry.  Each run is a table; the result is the first of the largest.
\<close>

fun run_tables :: "(u8 list \<times> int) option list \<Rightarrow> nat \<Rightarrow> res_table \<Rightarrow> res_table list" where
  "run_tables [] gap t = [t]"
| "run_tables (Some (name, resid) # es) gap t = run_tables es 0 (AList.update name resid t)"
| "run_tables (None # es) gap t = (if gap < 2 then run_tables es (gap + 1) t else t # run_tables es (gap + 1) [])"

definition largest :: "res_table list \<Rightarrow> res_table \<Rightarrow> res_table" where
  "largest ts best = fold (\<lambda>t best. if length best < length t then t else best) ts best"

fun entries :: "u8 list \<Rightarrow> int \<Rightarrow> int list \<Rightarrow> py_error + (u8 list \<times> int) option list" where
  "entries target_bin lw [] = Inr []"
| "entries target_bin lw (word # words) =
     bindE (entry_at target_bin lw word) (\<lambda>e. bindE (entries target_bin word words) (\<lambda>es. Inr (e # es)))"

definition tracks :: "table_search \<Rightarrow> res_table \<Rightarrow> res_table \<Rightarrow> bool" where
  "tracks s best t \<longleftrightarrow> work_table s = t \<and>
     (if length best < length t then aliased s \<and> final_table s = t else \<not> aliased s \<and> final_table s = best)"

lemma length_update_ge: "length t \<le> length (AList.update k v t)"
  by (induction t) auto

lemma tracks_entry:
  assumes "tracks s best t"
  shows "tracks (save_table (put_entry (Some (name, resid)) s)) best (AList.update name resid t)"
  using assms length_update_ge [of t name resid]
  by (auto simp: tracks_def save_table_def put_entry_def Let_def split: if_splits)

lemma tracks_gap:
  assumes "tracks s best t"
  shows "since_last s \<le> 2 \<Longrightarrow> tracks (save_table s) best t"
    and "2 < since_last s \<Longrightarrow> tracks (save_table s) (if length best < length t then t else best) []"
  using assms by (auto simp: tracks_def save_table_def split: if_splits)

lemma tracks_since: "tracks (s\<lparr>since_last := n\<rparr>) best t = tracks s best t" "tracks (s\<lparr>last_word := w\<rparr>) best t = tracks s best t"
  by (simp_all add: tracks_def)

lemma search_words_runs:
  assumes "tracks s best t"
  shows "bindE (search_words target_bin ws s) (\<lambda>s. Inr (final_table s)) =
     bindE (entries target_bin (last_word s) ws) (\<lambda>es. Inr (largest (run_tables es (since_last s) t) best))"
  using assms
proof (induction ws arbitrary: s best t)
  case Nil
  then show ?case by (auto simp: tracks_def largest_def)
next
  case (Cons w ws)
  show ?case
  proof (cases "entry_at target_bin (last_word s) w")
    case (Inl e)
    then show ?thesis by (simp add: search_word_def)
  next
    case (Inr e)
    define s1 where "s1 = s\<lparr>since_last := since_last s + 1\<rparr>"
    define s2 where "s2 = (save_table (put_entry e s1))\<lparr>last_word := w\<rparr>"
    have s1: "tracks s1 best t" using Cons.prems by (simp add: s1_def tracks_since)
    have step: "search_word target_bin w s = Inr s2" by (simp add: search_word_def Inr s1_def s2_def)
    have w: "last_word s2 = w" by (simp add: s2_def)
    show ?thesis
    proof (cases e)
      case None
      have since: "since_last s2 = since_last s + 1" by (simp add: s2_def s1_def None put_entry_def save_table_def)
      show ?thesis
      proof (cases "since_last s < 2")
        case True
        have "tracks s2 best t" using tracks_gap(1) [OF s1] True by (simp add: s2_def None put_entry_def tracks_since s1_def)
        from Cons.IH [OF this] True show ?thesis
          by (simp add: step Inr None w since) (cases "entries target_bin w ws"; simp)
      next
        case False
        have "tracks s2 (if length best < length t then t else best) []"
          using tracks_gap(2) [OF s1] False by (simp add: s2_def None put_entry_def tracks_since s1_def)
        from Cons.IH [OF this] False show ?thesis
          by (simp add: step Inr None w since) (cases "entries target_bin w ws"; simp add: largest_def)
      qed
    next
      case (Some a)
      obtain name resid where a: "a = (name, resid)" by force
      have "tracks s2 best (AList.update name resid t)" "since_last s2 = 0"
        using tracks_entry [OF s1] by (simp_all add: s2_def Some a tracks_since put_entry_def save_table_def Let_def)
      from Cons.IH [OF this(1)] this(2) show ?thesis
        by (simp add: step Inr Some a w) (cases "entries target_bin w ws"; simp)
    qed
  qed
qed

lemma extract_largest:
  "extract_system_font_resource_ids bin =
     bindE (entries (pad_image bin) 0 (array_I (pad_image bin))) (\<lambda>es. Inr (largest (run_tables es 0 []) []))"
  using search_words_runs [of "\<lparr>last_word = 0, final_table = [], work_table = [], since_last = 0, aliased = False\<rparr>" "[]" "[]"]
  by (simp add: extract_system_font_resource_ids_def Let_def tracks_def)

text \<open>No run has more names, and the result is a run, the first of its size.\<close>

lemma largest_cases: "largest ts best = best \<or> largest ts best \<in> set ts"
  unfolding largest_def by (induction ts arbitrary: best) fastforce+

lemma largest_max: "length best \<le> length (largest ts best) \<and> (\<forall>t \<in> set ts. length t \<le> length (largest ts best))"
proof (induction ts arbitrary: best)
  case (Cons t ts)
  have "largest (t # ts) best = largest ts (if length best < length t then t else best)" by (simp add: largest_def)
  with Cons.IH [of t] Cons.IH [of best] show ?case by auto
qed (simp add: largest_def)

lemma extract_maximal:
  assumes "extract_system_font_resource_ids bin = Inr table" "entries (pad_image bin) 0 (array_I (pad_image bin)) = Inr es"
  shows "(table = [] \<or> table \<in> set (run_tables es 0 [])) \<and> (\<forall>t \<in> set (run_tables es 0 []). length t \<le> length table)"
  using assms largest_cases [of "run_tables es 0 []" "[]"] largest_max [of "[]" "run_tables es 0 []"]
  by (simp add: extract_largest)

end
