(* ===== verification/Pfo.thy ===== *)
theory Pfo
  imports Pbpack "HOL-Library.AList"
begin

text \<open>
  Font files, from \<^verbatim>\<open>fonts/pfo_merge.py\<close>: \<open>font_read\<close>, \<open>font_write\<close>, \<open>merge_fonts\<close> and the script
  itself.  A file maps code points to glyph data through a hash table of 255 bins.  A dictionary is an
  association list in the order Python lists it; where that order is not known, it is a parameter.
  The theory shows that a font within the limits of the format can be written and reads back, and that
  merging puts the second font over the first.
\<close>

section \<open>The code\<close>

record Glyph =
  codepoints :: "int list"
  gdata :: "u8 list"

record Font =
  max_height :: int
  wildcard :: int
  compressed :: bool
  glyphs :: "(int \<times> Glyph) list"

definition HASHTABLE_DIRECTORY_SIZE :: nat where
  "HASHTABLE_DIRECTORY_SIZE = 255"

definition HASHTABLE_DIRECTORY_ITEM_SIZE :: nat where
  "HASHTABLE_DIRECTORY_ITEM_SIZE = 4"

definition OFFSET_TABLE_MAX_SIZE :: nat where
  "OFFSET_TABLE_MAX_SIZE = 128"

text \<open>\<^verbatim>\<open>pfo[a:a + n]\<close>, and the formats the script uses.\<close>

definition slice :: "u8 list \<Rightarrow> nat \<Rightarrow> nat \<Rightarrow> u8 list" where
  "slice pfo a n = take n (drop a pfo)"

definition uint16 :: "u8 \<Rightarrow> u8 \<Rightarrow> int" where
  "uint16 a b = uint a + 256 * uint b"

definition struct_pack_B :: "int \<Rightarrow> py_error + u8 list" where
  "struct_pack_B x = (if 0 \<le> x \<and> x \<le> 255 then Inr [word_of_int x] else Inl StructError)"

fun unpack_BB :: "u8 list \<Rightarrow> py_error + int \<times> int" where
  "unpack_BB [a, b] = Inr (uint a, uint b)"
| "unpack_BB _ = Inl StructError"

fun unpack_BBH :: "u8 list \<Rightarrow> py_error + int \<times> int \<times> int" where
  "unpack_BBH [a, b, c, d] = Inr (uint a, uint b, uint16 c d)"
| "unpack_BBH _ = Inl StructError"

text \<open>A chain item is \<^verbatim>\<open><HL\<close> in a large font and \<^verbatim>\<open><HH\<close> in a small one.\<close>

definition item_size :: "bool \<Rightarrow> nat" where
  "item_size wide = (if wide then 6 else 4)"

fun unpack_item :: "bool \<Rightarrow> u8 list \<Rightarrow> py_error + int \<times> int" where
  "unpack_item False [a, b, c, d] = Inr (uint16 a b, uint16 c d)"
| "unpack_item True [a, b, c, d, e, f] = Inr (uint16 a b, uint16 c d + 65536 * uint16 e f)"
| "unpack_item _ _ = Inl StructError"

definition pack_item :: "bool \<Rightarrow> int \<times> int \<Rightarrow> py_error + u8 list" where
  "pack_item wide p =
     bindE (struct_pack_H (fst p)) (\<lambda>a.
     bindE (if wide then struct_pack_I (snd p) else struct_pack_H (snd p)) (\<lambda>b. Inr (a @ b)))"

subsection \<open>Reading\<close>

text \<open>Version, height, number of code points, wildcard, size of a code point, features.\<close>

definition read_header :: "u8 list \<Rightarrow> py_error + (nat \<times> bool \<times> bool \<times> int \<times> int \<times> int)" where
  "read_header pfo =
     (case pfo of [] \<Rightarrow> Inl IndexError | ver # _ \<Rightarrow>
        if ver = 2 then
          (case take 8 pfo of
             [v, h, n0, n1, w0, w1, hs, cs] \<Rightarrow>
               if cs = 2 then Inr (8, False, False, uint h, uint16 n0 n1, uint16 w0 w1) else Inl AssertionError
           | _ \<Rightarrow> Inl StructError)
        else if ver = 3 then
          (case take 10 pfo of
             [v, h, n0, n1, w0, w1, hs, cs, ss, features] \<Rightarrow>
               if cs = 2 then Inr (10, \<not> bit features 0, bit features 1, uint h, uint16 n0 n1, uint16 w0 w1)
               else Inl AssertionError
           | _ \<Rightarrow> Inl StructError)
        else Inl AssertionError)"

text \<open>The bitmap is padded to bytes and then to words; five bytes precede it.\<close>

definition bitmap_data_sz :: "int \<Rightarrow> int \<Rightarrow> nat" where
  "bitmap_data_sz h w = nat (((h * w + 7) div 8 + 3) div 4 * 4)"

definition add_glyph :: "u8 list \<Rightarrow> nat \<Rightarrow> int \<Rightarrow> int \<Rightarrow> (int \<times> Glyph) list \<Rightarrow> py_error + (int \<times> Glyph) list" where
  "add_glyph pfo glyphs_base codept offset gs =
     (if offset \<in> fst ` set gs then
        Inr (map (\<lambda>(k, g). (k, if k = offset then g\<lparr>codepoints := codepoints g @ [codept]\<rparr> else g)) gs)
      else
        let data_start = glyphs_base + nat offset in
        bindE (unpack_BB (slice pfo data_start 2)) (\<lambda>(h, w).
          Inr (gs @ [(offset, \<lparr>codepoints = [codept], gdata = slice pfo data_start (5 + bitmap_data_sz h w)\<rparr>)])))"

fun read_chain :: "bool \<Rightarrow> u8 list \<Rightarrow> nat \<Rightarrow> nat \<Rightarrow> nat \<Rightarrow> (int \<times> Glyph) list \<Rightarrow> py_error + (int \<times> Glyph) list" where
  "read_chain wide pfo glyphs_base item_addr 0 gs = Inr gs"
| "read_chain wide pfo glyphs_base item_addr (Suc n) gs =
     bindE (unpack_item wide (slice pfo item_addr (item_size wide))) (\<lambda>(codept, offset).
     bindE (add_glyph pfo glyphs_base codept offset gs)
       (read_chain wide pfo glyphs_base (item_addr + item_size wide) n))"

fun read_directory ::
  "bool \<Rightarrow> u8 list \<Rightarrow> nat \<Rightarrow> nat \<Rightarrow> nat list \<Rightarrow> (int \<times> Glyph) list \<Rightarrow> py_error + (int \<times> Glyph) list" where
  "read_directory wide pfo header_size glyphs_base [] gs = Inr gs"
| "read_directory wide pfo header_size glyphs_base (x # xs) gs =
     bindE (unpack_BBH (slice pfo (header_size + x * HASHTABLE_DIRECTORY_ITEM_SIZE) HASHTABLE_DIRECTORY_ITEM_SIZE))
       (\<lambda>(_, table_size, offset).
         let chain_base = header_size + HASHTABLE_DIRECTORY_SIZE * HASHTABLE_DIRECTORY_ITEM_SIZE + nat offset in
         bindE (read_chain wide pfo glyphs_base chain_base (nat table_size) gs)
           (read_directory wide pfo header_size glyphs_base xs))"

definition font_read :: "u8 list \<Rightarrow> py_error + Font" where
  "font_read pfo =
     bindE (read_header pfo) (\<lambda>(header_size, wide, compressed, max_height, codept_ct, wildcard).
       let glyphs_base = header_size + HASHTABLE_DIRECTORY_SIZE * HASHTABLE_DIRECTORY_ITEM_SIZE
                           + nat codept_ct * item_size wide in
       bindE (read_directory wide pfo header_size glyphs_base [0 ..< HASHTABLE_DIRECTORY_SIZE] [])
         (\<lambda>gs. Inr \<lparr>max_height = max_height, wildcard = wildcard, compressed = compressed, glyphs = gs\<rparr>))"

subsection \<open>Writing\<close>

text \<open>Offsets of the code points, and the glyph data, in the order of the glyphs given.\<close>

fun place_glyphs :: "Glyph list \<Rightarrow> u8 list \<Rightarrow> (int \<times> int) list \<times> u8 list" where
  "place_glyphs [] glyph_data = ([], glyph_data)"
| "place_glyphs (g # gs) glyph_data =
     (let (ps, d) = place_glyphs gs (glyph_data @ gdata g) in
      (map (\<lambda>c. (c, int (length glyph_data))) (codepoints g) @ ps, d))"

definition bin_no :: "int \<times> int \<Rightarrow> nat" where
  "bin_no p = nat (fst p mod int HASHTABLE_DIRECTORY_SIZE)"

fun fill_chains :: "bool \<Rightarrow> (int \<times> int) list \<Rightarrow> u8 list list \<Rightarrow> nat list \<Rightarrow> py_error + u8 list list \<times> nat list" where
  "fill_chains wide [] chs counts = Inr (chs, counts)"
| "fill_chains wide (p # ps) chs counts =
     bindE (pack_item wide p) (\<lambda>b.
       let n = counts ! bin_no p + 1 in
       if n < OFFSET_TABLE_MAX_SIZE
       then fill_chains wide ps (chs[bin_no p := chs ! bin_no p @ b]) (counts[bin_no p := n])
       else Inl AssertionError)"

fun write_directory :: "u8 list list \<Rightarrow> nat list \<Rightarrow> nat list \<Rightarrow> int \<Rightarrow> py_error + u8 list" where
  "write_directory chs counts [] off = Inr []"
| "write_directory chs counts (x # xs) off =
     bindE (struct_pack_B (int x)) (\<lambda>a. bindE (struct_pack_B (int (counts ! x))) (\<lambda>b. bindE (struct_pack_H off) (\<lambda>c.
     bindE (write_directory chs counts xs (off + int (length (chs ! x)))) (\<lambda>bs. Inr (a @ b @ c @ bs)))))"

definition write_header :: "Font \<Rightarrow> bool \<Rightarrow> py_error + u8 list" where
  "write_header font wide =
     bindE (struct_pack_B (max_height font)) (\<lambda>h.
     bindE (struct_pack_H (int (sum_list (map (\<lambda>g. length (codepoints (snd g))) (glyphs font))))) (\<lambda>n.
     bindE (struct_pack_H (wildcard font)) (\<lambda>w.
       Inr ([3] @ h @ n @ w @ [255, 2, 10, (if wide then 0 else 1) OR (if compressed font then 2 else 0)]))))"

definition font_write :: "Font \<Rightarrow> py_error + u8 list" where
  "font_write font =
     (let gs = map snd (glyphs font);
          wide = (\<not> sum_list (map (length \<circ> gdata) gs) < 65535) in
      bindE (write_header font wide) (\<lambda>header.
        if \<exists>g \<in> set gs. codepoints g = [] then Inl IndexError
        else let (codepoint_offset_pairs, glyph_data) = place_glyphs (sort_key (\<lambda>g. hd (codepoints g)) gs) [0, 0, 0, 0] in
        bindE (fill_chains wide (sort_key fst codepoint_offset_pairs)
                 (replicate HASHTABLE_DIRECTORY_SIZE []) (replicate HASHTABLE_DIRECTORY_SIZE 0)) (\<lambda>(chs, counts).
        bindE (write_directory chs counts [0 ..< HASHTABLE_DIRECTORY_SIZE] 0) (\<lambda>hashtable_data.
          Inr (header @ hashtable_data @ concat chs @ glyph_data)))))"

subsection \<open>Merging\<close>

text \<open>
  The glyphs of the result are objects that several code points share and that are changed in place: they live
  in a store, here a list, and the dictionaries hold their positions.
\<close>

definition enter_glyph :: "Glyph \<Rightarrow> Glyph list \<times> (int \<times> nat) list \<Rightarrow> Glyph list \<times> (int \<times> nat) list" where
  "enter_glyph glyph S =
     (fst S @ [\<lparr>codepoints = [], gdata = gdata glyph\<rparr>],
      fold (\<lambda>cpt. AList.update cpt (length (fst S))) (codepoints glyph) (snd S))"

fun group_glyphs :: "(int \<times> nat) list \<Rightarrow> Glyph list \<Rightarrow> (int \<times> nat) list \<Rightarrow> Glyph list \<times> (int \<times> nat) list" where
  "group_glyphs [] objs font_glyphs = (objs, font_glyphs)"
| "group_glyphs ((cpt, i) # items) objs font_glyphs =
     (let objs' = objs[i := (objs ! i)\<lparr>codepoints := codepoints (objs ! i) @ [cpt]\<rparr>] in
      group_glyphs items objs'
        (if objs' ! i \<in> set (map (\<lambda>e. objs' ! snd e) font_glyphs) then font_glyphs
         else AList.update cpt i font_glyphs))"

text \<open>\<open>py_items\<close> is the order in which a dictionary lists its items.\<close>

definition merge_fonts :: "((int \<times> nat) list \<Rightarrow> (int \<times> nat) list) \<Rightarrow> Font \<Rightarrow> Font \<Rightarrow> py_error + Font" where
  "merge_fonts py_items font_1 font_2 =
     (if compressed font_1 = compressed font_2 then
        let (objs, font_cpt_map) =
              fold enter_glyph (map snd (glyphs font_2)) (fold enter_glyph (map snd (glyphs font_1)) ([], []));
            (objs', font_glyphs) = group_glyphs (py_items font_cpt_map) objs []
        in Inr \<lparr>max_height = max_height font_1, wildcard = wildcard font_1, compressed = compressed font_1,
                glyphs = map (\<lambda>(cpt, i). (cpt, objs' ! i)) font_glyphs\<rparr>
      else Inl AssertionError)"

fun read_fonts :: "u8 list list \<Rightarrow> py_error + Font list" where
  "read_fonts [] = Inr []"
| "read_fonts (pfo # pfos) = bindE (font_read pfo) (\<lambda>f. bindE (read_fonts pfos) (\<lambda>fs. Inr (f # fs)))"

fun merge_all :: "((int \<times> nat) list \<Rightarrow> (int \<times> nat) list) \<Rightarrow> Font \<Rightarrow> Font list \<Rightarrow> py_error + Font" where
  "merge_all py_items font_accum [] = Inr font_accum"
| "merge_all py_items font_accum (font # fonts) =
     bindE (merge_fonts py_items font_accum font) (\<lambda>f. merge_all py_items f fonts)"

text \<open>The script: the files to read, to the file written.\<close>

definition pfo_merge :: "((int \<times> nat) list \<Rightarrow> (int \<times> nat) list) \<Rightarrow> u8 list list \<Rightarrow> py_error + u8 list" where
  "pfo_merge py_items pfos =
     bindE (read_fonts pfos) (\<lambda>fonts. case fonts of [] \<Rightarrow> Inl IndexError
       | font # fonts \<Rightarrow> bindE (merge_all py_items font fonts) font_write)"

section \<open>Items\<close>

definition item_bytes :: "bool \<Rightarrow> int \<times> int \<Rightarrow> u8 list" where
  "item_bytes wide p = h16 (fst p) @ (if wide then le32 (snd p) else h16 (snd p))"

definition item_fits :: "bool \<Rightarrow> int \<times> int \<Rightarrow> bool" where
  "item_fits wide p \<longleftrightarrow> 0 \<le> fst p \<and> fst p \<le> 65535 \<and> 0 \<le> snd p \<and> snd p < (if wide then 2 ^ 32 else 2 ^ 16)"

lemma pack_item_Inr: "pack_item wide p = Inr b \<longleftrightarrow> item_fits wide p \<and> b = item_bytes wide p"
  by (auto simp: pack_item_def bindE_Inr_iff struct_pack_H_Inr struct_pack_I_Inr item_fits_def item_bytes_def)

lemma length_item_bytes [simp]: "length (item_bytes wide p) = item_size wide"
  by (simp add: item_bytes_def item_size_def)

lemma uint16_h16: "0 \<le> x \<Longrightarrow> x \<le> 65535 \<Longrightarrow> uint16 (word_of_int (x mod 256)) (word_of_int (x div 256)) = x"
proof -
  assume "0 \<le> x" "x \<le> 65535"
  then have "x div 256 mod 256 = x div 256" by (intro mod_pos_pos_trivial) auto
  then show ?thesis by (simp add: uint16_def uint_low_byte)
qed

lemma word_quad: "(a + 256 * b) + 65536 * (c + 256 * d) = a + 2 ^ 8 * b + 2 ^ 16 * c + 2 ^ 24 * (d :: int)"
  by simp

lemma uint16_le32:
  assumes "0 \<le> x" "x < 2 ^ 32"
  shows "uint16 (word_of_int x) (word_of_int (x div 256)) +
     65536 * uint16 (word_of_int (x div 65536)) (word_of_int (x div 16777216)) = x"
proof -
  have "(2 :: int) ^ 8 = 256" "(2 :: int) ^ 16 = 65536" "(2 :: int) ^ 24 = 16777216" by simp_all
  note p = this
  have "x mod 256 + 2 ^ 8 * (x div 256 mod 256) + 2 ^ 16 * (x div 65536 mod 256) + 2 ^ 24 * (x div 16777216 mod 256) = x"
    using bytes_of_32 [OF assms] by (simp only: p)
  then show ?thesis by (simp only: uint16_def uint_low_byte word_quad)
qed

lemma unpack_item_bytes: "item_fits wide p \<Longrightarrow> unpack_item wide (item_bytes wide p) = Inr p"
  by (cases p; cases wide)
    (simp_all add: item_fits_def item_bytes_def h16_def le32_def uint16_h16 uint16_le32 del: uint_word_of_int_eq)

lemma slice_split: "a = length xs \<Longrightarrow> n = length b \<Longrightarrow> slice (xs @ b @ ys) a n = b"
  by (simp add: slice_def)

section \<open>Chains and directory\<close>

abbreviation bin_pairs :: "(int \<times> int) list \<Rightarrow> nat \<Rightarrow> (int \<times> int) list" where
  "bin_pairs ps x \<equiv> filter (\<lambda>p. bin_no p = x) ps"

lemma bin_no_less: "bin_no p < HASHTABLE_DIRECTORY_SIZE"
  by (simp add: bin_no_def HASHTABLE_DIRECTORY_SIZE_def nat_less_iff)

lemma fill_chains_Inr:
  assumes "fill_chains wide ps chs counts = Inr (chs', counts')"
    and "length chs = HASHTABLE_DIRECTORY_SIZE" "length counts = HASHTABLE_DIRECTORY_SIZE"
    and "\<forall>c \<in> set counts. c < OFFSET_TABLE_MAX_SIZE"
  shows "length chs' = HASHTABLE_DIRECTORY_SIZE \<and> (\<forall>p \<in> set ps. item_fits wide p) \<and>
     (\<forall>x < HASHTABLE_DIRECTORY_SIZE. chs' ! x = chs ! x @ concat (map (item_bytes wide) (bin_pairs ps x)) \<and>
        counts' ! x = counts ! x + length (bin_pairs ps x) \<and> counts' ! x < OFFSET_TABLE_MAX_SIZE)"
  using assms
proof (induction ps arbitrary: chs counts)
  case Nil
  then show ?case by auto
next
  case (Cons p ps)
  let ?b = "bin_no p"
  from Cons.prems(1) have fits: "item_fits wide p" and n: "counts ! ?b + 1 < OFFSET_TABLE_MAX_SIZE"
    and run: "fill_chains wide ps (chs[?b := chs ! ?b @ item_bytes wide p]) (counts[?b := counts ! ?b + 1]) = Inr (chs', counts')"
    by (auto simp: bindE_Inr_iff pack_item_Inr Let_def split: if_splits)
  have "\<forall>c \<in> set (counts[?b := counts ! ?b + 1]). c < OFFSET_TABLE_MAX_SIZE"
    using Cons.prems(4) n set_update_subset_insert by fastforce
  from Cons.IH [OF run _ _ this] Cons.prems(2,3) fits bin_no_less [of p] show ?case
    by (auto simp: nth_list_update)
qed

lemma struct_pack_B_Inr: "struct_pack_B x = Inr b \<longleftrightarrow> 0 \<le> x \<and> x \<le> 255 \<and> b = [word_of_int x]"
  by (auto simp: struct_pack_B_def)

lemma uint_byte: "0 \<le> x \<Longrightarrow> x \<le> 255 \<Longrightarrow> uint (word_of_int x :: u8) = x"
  by (simp add: uint_low_byte)

lemma write_directory_Inr:
  assumes "write_directory chs counts xs off = Inr bs"
  shows "length bs = 4 * length xs \<and> (\<forall>i < length xs. unpack_BBH (slice bs (4 * i) 4) =
     Inr (int (xs ! i), int (counts ! (xs ! i)), off + int (length (concat (map ((!) chs) (take i xs))))))"
  using assms
proof (induction xs arbitrary: off bs)
  case (Cons x xs)
  let ?off = "off + int (length (chs ! x))"
  from Cons.prems obtain cs where cs: "write_directory chs counts xs ?off = Inr cs"
    and bs: "bs = [word_of_int (int x), word_of_int (int (counts ! x))] @ h16 off @ cs"
    and r: "int x \<le> 255" "int (counts ! x) \<le> 255" "0 \<le> off" "off \<le> 65535"
    by (auto simp: bindE_Inr_iff struct_pack_B_Inr struct_pack_H_Inr)
  have first: "unpack_BBH (slice bs 0 4) = Inr (int x, int (counts ! x), off)"
    using r by (simp add: bs slice_def h16_def uint16_h16 uint_byte del: of_int_of_nat_eq)
  have "drop 4 bs = cs" by (simp add: bs h16_def)
  then have later: "slice bs (4 * Suc i) 4 = slice cs (4 * i) 4" for i
    by (auto simp: slice_def add.commute)
  show ?case
  proof (intro conjI allI impI)
    show "length bs = 4 * length (x # xs)" using Cons.IH [OF cs] by (simp add: bs)
  next
    fix i assume i: "i < length (x # xs)"
    show "unpack_BBH (slice bs (4 * i) 4) = Inr (int ((x # xs) ! i), int (counts ! ((x # xs) ! i)),
        off + int (length (concat (map ((!) chs) (take i (x # xs))))))"
    proof (cases i)
      case 0
      then show ?thesis using first by simp
    next
      case (Suc j)
      then show ?thesis using Cons.IH [OF cs] i by (simp only: later) (simp add: algebra_simps)
    qed
  qed
qed simp

section \<open>Reading back what was written\<close>

fun add_all :: "u8 list \<Rightarrow> nat \<Rightarrow> (int \<times> int) list \<Rightarrow> (int \<times> Glyph) list \<Rightarrow> py_error + (int \<times> Glyph) list" where
  "add_all pfo glyphs_base [] gs = Inr gs"
| "add_all pfo glyphs_base (p # ps) gs =
     bindE (add_glyph pfo glyphs_base (fst p) (snd p) gs) (add_all pfo glyphs_base ps)"

lemma bindE_assoc: "bindE (bindE x f) g = bindE x (\<lambda>a. bindE (f a) g)"
  by (cases x) simp_all

lemma add_all_append: "add_all pfo gb (ps @ qs) gs = bindE (add_all pfo gb ps gs) (add_all pfo gb qs)"
proof (induction ps arbitrary: gs)
  case (Cons p ps)
  have "add_all pfo gb (ps @ qs) = (\<lambda>gs. bindE (add_all pfo gb ps gs) (add_all pfo gb qs))"
    using Cons by (intro ext)
  then show ?case by (simp add: bindE_assoc)
qed simp

lemma read_chain_add_all:
  assumes "drop addr pfo = concat (map (item_bytes wide) ps) @ rest" "\<forall>p \<in> set ps. item_fits wide p"
  shows "read_chain wide pfo gb addr (length ps) gs = add_all pfo gb ps gs"
  using assms
proof (induction ps arbitrary: addr gs)
  case (Cons p ps)
  have item: "slice pfo addr (item_size wide) = item_bytes wide p"
    using Cons.prems(1) by (simp add: slice_def)
  have "drop (item_size wide) (drop addr pfo) = concat (map (item_bytes wide) ps) @ rest"
    unfolding Cons.prems(1) by simp
  then have "drop (addr + item_size wide) pfo = concat (map (item_bytes wide) ps) @ rest" by (simp add: add.commute)
  from Cons.IH [OF this] Cons.prems(2) have
    "read_chain wide pfo gb (addr + item_size wide) (length ps) = add_all pfo gb ps" by auto
  then show ?case using Cons.prems(2) by (simp add: item unpack_item_bytes split: prod.split)
qed simp

lemma slice_append_mid: "a = length xs + i \<Longrightarrow> i + n \<le> length ys \<Longrightarrow> slice (xs @ ys @ zs) a n = slice ys i n"
  by (simp add: slice_def)

lemma drop_chain:
  assumes "pfo = hdr @ dir @ concat chs @ gd" "x < length chs"
  shows "drop (length hdr + length dir + length (concat (take x chs))) pfo = chs ! x @ concat (drop (Suc x) chs) @ gd"
proof -
  have "concat chs = concat (take x chs) @ chs ! x @ concat (drop (Suc x) chs)"
    using id_take_nth_drop [OF assms(2)] by (metis concat.simps(2) concat_append)
  then have "pfo = (hdr @ dir @ concat (take x chs)) @ chs ! x @ concat (drop (Suc x) chs) @ gd"
    using assms(1) by simp
  moreover have "length hdr + length dir + length (concat (take x chs)) = length (hdr @ dir @ concat (take x chs))"
    by simp
  ultimately show ?thesis by (metis append_eq_conv_conj)
qed

lemma read_directory_add_all:
  assumes pfo: "pfo = hdr @ dir @ concat chs @ gd" and len: "length chs = HASHTABLE_DIRECTORY_SIZE"
    "length dir = 4 * HASHTABLE_DIRECTORY_SIZE"
    and dir: "\<And>x. x < HASHTABLE_DIRECTORY_SIZE \<Longrightarrow> unpack_BBH (slice dir (4 * x) 4) =
      Inr (int x, int (length (qs x)), int (length (concat (take x chs))))"
    and chs: "\<And>x. x < HASHTABLE_DIRECTORY_SIZE \<Longrightarrow> chs ! x = concat (map (item_bytes wide) (qs x))"
    and fits: "\<And>x p. p \<in> set (qs x) \<Longrightarrow> item_fits wide p"
  shows "k + n = HASHTABLE_DIRECTORY_SIZE \<Longrightarrow>
     read_directory wide pfo (length hdr) gb [k ..< HASHTABLE_DIRECTORY_SIZE] gs =
       add_all pfo gb (concat (map qs [k ..< HASHTABLE_DIRECTORY_SIZE])) gs"
proof (induction n arbitrary: k gs)
  case (Suc n)
  then have k: "k < HASHTABLE_DIRECTORY_SIZE" by simp
  have "slice pfo (length hdr + k * 4) 4 = slice dir (4 * k) 4"
    unfolding pfo by (rule slice_append_mid) (use k len in simp_all)
  with dir [OF k] have entry: "unpack_BBH (slice pfo (length hdr + k * 4) 4) =
      Inr (int k, int (length (qs k)), int (length (concat (take k chs))))" by simp
  have "drop (length hdr + HASHTABLE_DIRECTORY_SIZE * 4 + length (concat (take k chs))) pfo =
      concat (map (item_bytes wide) (qs k)) @ concat (drop (Suc k) chs) @ gd"
    using drop_chain [OF pfo, of k] k len chs [OF k] by (simp add: mult.commute)
  from read_chain_add_all [OF this] fits have
    "read_chain wide pfo gb (length hdr + HASHTABLE_DIRECTORY_SIZE * 4 + length (concat (take k chs))) (length (qs k)) gs =
      add_all pfo gb (qs k) gs" by simp
  moreover have "read_directory wide pfo (length hdr) gb [Suc k ..< HASHTABLE_DIRECTORY_SIZE] =
      add_all pfo gb (concat (map qs [Suc k ..< HASHTABLE_DIRECTORY_SIZE]))"
    using Suc by (intro ext Suc.IH) simp
  ultimately show ?case
    unfolding upt_conv_Cons [OF k] by (simp add: entry HASHTABLE_DIRECTORY_ITEM_SIZE_def Let_def add_all_append)
qed simp

text \<open>What has been read so far: pairs of code point and offset.\<close>

definition cpairs :: "(int \<times> Glyph) list \<Rightarrow> (int \<times> int) set" where
  "cpairs gs = {(c, k). \<exists>g. (k, g) \<in> set gs \<and> c \<in> set (codepoints g)}"

text \<open>Glyph data says how long it is.\<close>

fun wf_data :: "u8 list \<Rightarrow> bool" where
  "wf_data (h # w # d) \<longleftrightarrow> length (h # w # d) = 5 + bitmap_data_sz (uint h) (uint w)"
| "wf_data _ \<longleftrightarrow> False"

lemma stored_wf_slice:
  assumes "stored gd n d" "wf_data d"
  shows "\<exists>h w. slice gd n 2 = [h, w] \<and> slice gd n (5 + bitmap_data_sz (uint h) (uint w)) = d"
proof -
  from assms(2) obtain h w r where d: "d = h # w # r" "length d = 5 + bitmap_data_sz (uint h) (uint w)"
    by (cases d rule: wf_data.cases) auto
  from assms(1) have t: "take (length d) (drop n gd) = d" by (simp add: stored_def)
  have "slice gd n 2 = take 2 (take (length d) (drop n gd))" by (simp add: slice_def d(1) min_def)
  also have "\<dots> = [h, w]" unfolding t by (simp add: d(1))
  finally show ?thesis using t d(2) by (auto simp: slice_def)
qed

definition read_as :: "(int \<Rightarrow> u8 list) \<Rightarrow> (int \<times> Glyph) list \<Rightarrow> bool" where
  "read_as D gs \<longleftrightarrow> (\<forall>(k, g) \<in> set gs. gdata g = D k \<and> codepoints g \<noteq> [])"

lemma add_glyph_content:
  assumes gd: "drop gb pfo = gd" and p: "0 \<le> k" "stored gd (nat k) (D k)" "wf_data (D k)"
    and gs: "read_as D gs"
  shows "\<exists>gs'. add_glyph pfo gb c k gs = Inr gs' \<and> read_as D gs' \<and> cpairs gs' = insert (c, k) (cpairs gs)"
proof (cases "k \<in> fst ` set gs")
  case True
  then have "cpairs (map (\<lambda>(j, g). (j, if j = k then g\<lparr>codepoints := codepoints g @ [c]\<rparr> else g)) gs) = insert (c, k) (cpairs gs)"
    by (force simp: cpairs_def image_iff split: if_splits)
  with True gs show ?thesis by (auto simp: add_glyph_def read_as_def split: if_splits)
next
  case False
  obtain h w where hw: "slice gd (nat k) 2 = [h, w]" "slice gd (nat k) (5 + bitmap_data_sz (uint h) (uint w)) = D k"
    using stored_wf_slice [OF p(2,3)] by blast
  have "slice pfo (gb + nat k) n = slice gd (nat k) n" for n by (simp add: slice_def add.commute flip: gd)
  then have "add_glyph pfo gb c k gs = Inr (gs @ [(k, \<lparr>codepoints = [c], gdata = D k\<rparr>)])"
    using False hw by (simp add: add_glyph_def Let_def)
  with gs show ?thesis by (auto simp: cpairs_def read_as_def)
qed

lemma add_all_content:
  assumes "drop gb pfo = gd" "\<forall>p \<in> set ps. 0 \<le> snd p \<and> stored gd (nat (snd p)) (D (snd p)) \<and> wf_data (D (snd p))"
    and "read_as D gs"
  shows "\<exists>gs'. add_all pfo gb ps gs = Inr gs' \<and> read_as D gs' \<and> cpairs gs' = set ps \<union> cpairs gs"
  using assms(2,3)
proof (induction ps arbitrary: gs)
  case (Cons p ps)
  from add_glyph_content [where D = D, OF assms(1), of "snd p" gs "fst p"] Cons.prems obtain gs1 where
    gs1: "add_glyph pfo gb (fst p) (snd p) gs = Inr gs1" "read_as D gs1" "cpairs gs1 = insert p (cpairs gs)"
    by auto
  from Cons.IH [OF _ gs1(2)] Cons.prems(1) gs1(1,3) show ?case by auto
qed simp

section \<open>The round trip\<close>

lemma place_glyphs_stored:
  assumes "place_glyphs gs d0 = (ps, d)"
  shows "(\<exists>ext. d = d0 @ ext) \<and> length ps = sum_list (map (\<lambda>g. length (codepoints g)) gs) \<and>
     (\<forall>p \<in> set ps. 0 \<le> snd p \<and> (\<exists>g \<in> set gs. fst p \<in> set (codepoints g) \<and> stored d (nat (snd p)) (gdata g))) \<and>
     (\<forall>g \<in> set gs. \<forall>c \<in> set (codepoints g). \<exists>k. (c, k) \<in> set ps \<and> stored d (nat k) (gdata g))"
  using assms
proof (induction gs arbitrary: d0 ps)
  case (Cons g gs)
  obtain qs where run: "place_glyphs gs (d0 @ gdata g) = (qs, d)"
    and ps: "ps = map (\<lambda>c. (c, int (length d0))) (codepoints g) @ qs"
    using Cons.prems by (auto simp: Let_def split: prod.splits)
  from Cons.IH [OF run] obtain ext where d: "d = d0 @ gdata g @ ext" by auto
  have "stored d (nat (int (length d0))) (gdata g)" by (simp add: d stored_def)
  with Cons.IH [OF run] show ?case by (fastforce simp: ps)
qed simp

definition cmap :: "Font \<Rightarrow> (int \<times> u8 list) set" where
  "cmap font = {(c, d). \<exists>k g. (k, g) \<in> set (glyphs font) \<and> c \<in> set (codepoints g) \<and> d = gdata g}"

lemma bins_length:
  "(\<And>p. p \<in> set ps \<Longrightarrow> f p < n) \<Longrightarrow> sum_list (map (\<lambda>x. length (filter (\<lambda>p. f p = x) ps)) [0 ..< n]) = length ps"
proof (induction ps)
  case (Cons p ps)
  have "sum_list (map (\<lambda>x. if f p = x then Suc (g x) else g x) [0 ..< n]) = Suc (sum_list (map g [0 ..< n]))" for g :: "nat \<Rightarrow> nat"
  proof -
    have "sum_list (map (\<lambda>x. if f p = x then Suc (g x) else g x) [0 ..< n]) =
        sum_list (map g [0 ..< n]) + sum_list (map (\<lambda>x. if x = f p then 1 else 0) [0 ..< n])"
      by (subst sum_list_addf [symmetric]) (auto intro!: arg_cong [where f = sum_list])
    also have "sum_list (map (\<lambda>x. if x = f p then 1 else 0) [0 ..< n]) = (1 :: nat)"
      using Cons.prems [of p] by (simp add: interv_sum_list_conv_sum_set_nat)
    finally show ?thesis by simp
  qed
  with Cons show ?case by (simp add: if_distrib cong: if_cong)
qed simp

lemma bins_set: "set (concat (map (bin_pairs ps) [0 ..< HASHTABLE_DIRECTORY_SIZE])) = set ps"
  using bin_no_less by auto

lemma write_header_Inr:
  assumes "write_header font wide = Inr hdr"
  shows "length hdr = 10" "read_header (hdr @ rest) = Inr (10, wide, compressed font, max_height font,
     int (sum_list (map (\<lambda>g. length (codepoints (snd g))) (glyphs font))), wildcard font)"
proof -
  define n where "n = int (sum_list (map (\<lambda>g. length (codepoints (snd g))) (glyphs font)))"
  let ?f = "(if wide then 0 else 1) OR (if compressed font then 2 else 0) :: u8"
  from assms have hdr: "hdr = [3, word_of_int (max_height font)] @ h16 n @ h16 (wildcard font) @ [255, 2, 10, ?f]"
    and r: "0 \<le> max_height font" "max_height font \<le> 255" "0 \<le> n" "n \<le> 65535" "0 \<le> wildcard font" "wildcard font \<le> 65535"
    by (auto simp: write_header_def n_def [symmetric] bindE_Inr_iff struct_pack_B_Inr struct_pack_H_Inr)
  show "length hdr = 10" by (simp add: hdr)
  have "bit ?f 0 = (\<not> wide)" "bit ?f 1 = compressed font"
    by (cases wide; cases "compressed font"; simp add: bit_or_iff bit_1_iff)+
  with r show "read_header (hdr @ rest) = Inr (10, wide, compressed font, max_height font, int (sum_list (map (\<lambda>g. length (codepoints (snd g))) (glyphs font))), wildcard font)"
    unfolding n_def [symmetric] by (simp add: hdr read_header_def h16_def uint16_h16 uint_byte)
qed

lemma font_write_Inr:
  assumes "font_write font = Inr pfo"
  obtains wide hdr dir chs counts ps gd where
    "write_header font wide = Inr hdr" "pfo = hdr @ dir @ concat chs @ gd"
    "place_glyphs (sort_key (\<lambda>g. hd (codepoints g)) (map snd (glyphs font))) [0, 0, 0, 0] = (ps, gd)"
    "fill_chains wide (sort_key fst ps) (replicate HASHTABLE_DIRECTORY_SIZE []) (replicate HASHTABLE_DIRECTORY_SIZE 0) = Inr (chs, counts)"
    "write_directory chs counts [0 ..< HASHTABLE_DIRECTORY_SIZE] 0 = Inr dir"
  using assms unfolding font_write_def Let_def
  by (auto simp: bindE_Inr_iff split: if_splits prod.splits)

definition readable :: "Font \<Rightarrow> bool" where
  "readable font \<longleftrightarrow> (\<forall>g \<in> set (glyphs font). wf_data (gdata (snd g)))"

text \<open>Glyphs stored at an offset are determined by it.\<close>

definition data_at :: "u8 list \<Rightarrow> int \<Rightarrow> u8 list" where
  "data_at gd k = (THE d. stored gd (nat k) d \<and> wf_data d)"

lemma data_at: "stored gd (nat k) d \<Longrightarrow> wf_data d \<Longrightarrow> data_at gd k = d"
  unfolding data_at_def
proof (rule the_equality)
  fix e assume "stored gd (nat k) d" "wf_data d" "stored gd (nat k) e \<and> wf_data e"
  then show "e = d"
    using stored_wf_slice [of gd "nat k" d] stored_wf_slice [of gd "nat k" e] by auto
qed simp

lemma placed_cmap:
  assumes place: "place_glyphs gs d0 = (ps, gd)" and gs: "set gs = snd ` set (glyphs font)" and "readable font"
  shows "cmap font = (\<lambda>(c, k). (c, data_at gd k)) ` set ps" (is ?map)
    "p \<in> set ps \<Longrightarrow> 0 \<le> snd p \<and> stored gd (nat (snd p)) (data_at gd (snd p)) \<and> wf_data (data_at gd (snd p))"
proof -
  note pg = place_glyphs_stored [OF place]
  have wf: "wf_data (gdata g)" if "g \<in> set gs" for g
    using that assms(3) by (auto simp: gs readable_def)
  show "p \<in> set ps \<Longrightarrow> 0 \<le> snd p \<and> stored gd (nat (snd p)) (data_at gd (snd p)) \<and> wf_data (data_at gd (snd p))"
    using pg wf by (metis data_at)
  have cm: "cmap font = {(c, gdata g) | c g. g \<in> set gs \<and> c \<in> set (codepoints g)}"
    by (force simp: cmap_def gs)
  show ?map
  proof (intro equalityI subsetI; clarify)
    fix c d assume "(c, d) \<in> cmap font"
    then obtain g k where g: "g \<in> set gs" "d = gdata g" "(c, k) \<in> set ps" "stored gd (nat k) (gdata g)"
      using pg unfolding cm by blast
    with wf have "data_at gd k = d" by (simp add: data_at)
    with g(3) show "(c, d) \<in> (\<lambda>(c, k). (c, data_at gd k)) ` set ps" by force
  next
    fix c k assume "(c, k) \<in> set ps"
    then obtain g where g: "g \<in> set gs" "c \<in> set (codepoints g)" "stored gd (nat k) (gdata g)"
      using pg by fastforce
    with wf have "data_at gd k = gdata g" by (simp add: data_at)
    with g show "(c, data_at gd k) \<in> cmap font" unfolding cm by auto
  qed
qed

lemma cmap_cpairs:
  "read_as D (glyphs font) \<Longrightarrow> cmap font = (\<lambda>(c, k). (c, D k)) ` cpairs (glyphs font)"
  by (force simp: cmap_def cpairs_def read_as_def)

text \<open>
  The layout of a font file: ten bytes of header, the directory, the chains of the bins, and the glyphs.
\<close>

definition chained :: "bool \<Rightarrow> (int \<times> int) list \<Rightarrow> u8 list list \<Rightarrow> nat list \<Rightarrow> bool" where
  "chained wide qs chs counts \<longleftrightarrow> length chs = HASHTABLE_DIRECTORY_SIZE \<and> (\<forall>p \<in> set qs. item_fits wide p) \<and>
     (\<forall>x < HASHTABLE_DIRECTORY_SIZE. chs ! x = concat (map (item_bytes wide) (bin_pairs qs x)) \<and>
        counts ! x = length (bin_pairs qs x))"

definition font_layout :: "u8 list \<Rightarrow> int \<Rightarrow> int \<Rightarrow> bool \<Rightarrow> (int \<times> int) list \<Rightarrow> u8 list \<Rightarrow> bool" where
  "font_layout pfo h w c qs gd \<longleftrightarrow>
     (\<exists>wide hdr dir chs counts. pfo = hdr @ dir @ concat chs @ gd \<and> length hdr = 10 \<and>
        read_header pfo = Inr (10, wide, c, h, int (length qs), w) \<and> chained wide qs chs counts \<and>
        write_directory chs counts [0 ..< HASHTABLE_DIRECTORY_SIZE] 0 = Inr dir)"

definition holds_glyphs :: "(int \<times> int) list \<Rightarrow> u8 list \<Rightarrow> bool" where
  "holds_glyphs qs gd \<longleftrightarrow> (\<forall>p \<in> set qs. 0 \<le> snd p \<and> stored gd (nat (snd p)) (data_at gd (snd p)) \<and> wf_data (data_at gd (snd p)))"

lemma fill_chains_chained:
  "fill_chains wide qs (replicate HASHTABLE_DIRECTORY_SIZE []) (replicate HASHTABLE_DIRECTORY_SIZE 0) = Inr (chs, counts) \<Longrightarrow>
     chained wide qs chs counts"
  by (drule fill_chains_Inr) (auto simp: OFFSET_TABLE_MAX_SIZE_def chained_def)

lemma chained_extent:
  assumes "chained wide qs chs counts"
  shows "sum_list (map (\<lambda>x. length (chs ! x)) [0 ..< HASHTABLE_DIRECTORY_SIZE]) = length qs * item_size wide"
proof -
  have "sum_list (map (\<lambda>x. length (chs ! x)) [0 ..< HASHTABLE_DIRECTORY_SIZE]) =
      sum_list (map (\<lambda>x. length (bin_pairs qs x) * item_size wide) [0 ..< HASHTABLE_DIRECTORY_SIZE])"
    using assms by (intro arg_cong [where f = sum_list] map_cong refl)
      (simp add: chained_def length_concat comp_def sum_list_triv)
  also have "\<dots> = length qs * item_size wide"
    using bins_length [of qs bin_no HASHTABLE_DIRECTORY_SIZE] bin_no_less by (simp add: sum_list_mult_const)
  finally show ?thesis .
qed

lemma written_directory:
  assumes chains: "chained wide qs chs counts"
    and dir: "write_directory chs counts [0 ..< HASHTABLE_DIRECTORY_SIZE] 0 = Inr dir"
    and pfo: "pfo = hdr @ dir @ concat chs @ gd"
  shows "read_directory wide pfo (length hdr) gb [0 ..< HASHTABLE_DIRECTORY_SIZE] gs =
      add_all pfo gb (concat (map (bin_pairs qs) [0 ..< HASHTABLE_DIRECTORY_SIZE])) gs" (is ?read)
    and "length (hdr @ dir @ concat chs) =
      length hdr + HASHTABLE_DIRECTORY_SIZE * HASHTABLE_DIRECTORY_ITEM_SIZE + length qs * item_size wide"
proof -
  from chains have len: "length chs = HASHTABLE_DIRECTORY_SIZE"
    and fits: "\<And>p. p \<in> set qs \<Longrightarrow> item_fits wide p"
    and ch: "\<And>x. x < HASHTABLE_DIRECTORY_SIZE \<Longrightarrow> chs ! x = concat (map (item_bytes wide) (bin_pairs qs x))"
    and ct: "\<And>x. x < HASHTABLE_DIRECTORY_SIZE \<Longrightarrow> counts ! x = length (bin_pairs qs x)"
    by (auto simp: chained_def)
  have tk: "map ((!) chs) [0 ..< x] = take x chs" if "x < HASHTABLE_DIRECTORY_SIZE" for x
    using len that by (intro nth_equalityI) auto
  from write_directory_Inr [OF dir] have ld: "length dir = 4 * HASHTABLE_DIRECTORY_SIZE"
    and entry: "\<And>x. x < HASHTABLE_DIRECTORY_SIZE \<Longrightarrow> unpack_BBH (slice dir (4 * x) 4) =
      Inr (int x, int (length (bin_pairs qs x)), int (length (concat (take x chs))))"
    by (simp_all add: ct tk del: length_concat)
  show ?read
    by (rule read_directory_add_all [OF pfo len ld entry ch, where k = 0 and n = HASHTABLE_DIRECTORY_SIZE])
      (auto intro: fits)
  have "map length chs = map (\<lambda>x. length (chs ! x)) [0 ..< HASHTABLE_DIRECTORY_SIZE]"
    by (intro nth_equalityI) (simp_all add: len)
  then have "length (concat chs) = length qs * item_size wide"
    using chained_extent [OF chains] by (simp add: length_concat)
  then show "length (hdr @ dir @ concat chs) =
      length hdr + HASHTABLE_DIRECTORY_SIZE * HASHTABLE_DIRECTORY_ITEM_SIZE + length qs * item_size wide"
    by (simp add: ld HASHTABLE_DIRECTORY_ITEM_SIZE_def del: length_concat)
qed

lemma read_layout:
  assumes l: "font_layout pfo h w c qs gd" and g: "holds_glyphs qs gd"
  shows "\<exists>font. font_read pfo = Inr font \<and> readable font \<and> max_height font = h \<and> wildcard font = w \<and> compressed font = c \<and>
     cmap font = (\<lambda>(c, k). (c, data_at gd k)) ` set qs"
proof -
  from l obtain wide hdr dir chs counts where pfo: "pfo = hdr @ dir @ concat chs @ gd" and len: "length hdr = 10"
    and h: "read_header pfo = Inr (10, wide, c, h, int (length qs), w)" and chains: "chained wide qs chs counts"
    and dir: "write_directory chs counts [0 ..< HASHTABLE_DIRECTORY_SIZE] 0 = Inr dir"
    unfolding font_layout_def by blast
  let ?gb = "10 + HASHTABLE_DIRECTORY_SIZE * HASHTABLE_DIRECTORY_ITEM_SIZE + length qs * item_size wide"
  let ?qs = "concat (map (bin_pairs qs) [0 ..< HASHTABLE_DIRECTORY_SIZE])"
  note d = written_directory [OF chains dir pfo]
  have "?gb = length (hdr @ dir @ concat chs)" using d(2) by (simp add: len del: length_append length_concat)
  moreover have "pfo = (hdr @ dir @ concat chs) @ gd" by (simp add: pfo)
  ultimately have gd: "drop ?gb pfo = gd" by (metis append_eq_conv_conj)
  from g have "\<forall>p \<in> set ?qs. 0 \<le> snd p \<and> stored gd (nat (snd p)) (data_at gd (snd p)) \<and> wf_data (data_at gd (snd p))"
    by (auto simp: holds_glyphs_def)
  from add_all_content [OF gd this, of "[]"] obtain gs where gs: "add_all pfo ?gb ?qs [] = Inr gs"
    "read_as (data_at gd) gs" "cpairs gs = set qs"
    by (auto simp: cpairs_def read_as_def bins_set simp del: set_concat)
  let ?font = "\<lparr>max_height = h, wildcard = w, compressed = c, glyphs = gs\<rparr>"
  have "font_read pfo = Inr ?font"
    using h d(1) [of ?gb "[]"] gs(1) by (simp add: font_read_def Let_def len)
  moreover have "cmap ?font = (\<lambda>(c, k). (c, data_at gd k)) ` set qs"
    using cmap_cpairs [of "data_at gd" ?font] gs by simp
  moreover have "wf_data (gdata g)" if "(k, g) \<in> set gs" for k g
  proof -
    from that gs(2) have "gdata g = data_at gd k" "hd (codepoints g) \<in> set (codepoints g)" by (auto simp: read_as_def)
    with that have "(hd (codepoints g), k) \<in> cpairs gs" by (auto simp: cpairs_def)
    with gs(3) g show ?thesis by (auto simp: holds_glyphs_def \<open>gdata g = data_at gd k\<close>)
  qed
  ultimately show ?thesis by (intro exI [of _ ?font]) (auto simp: readable_def)
qed

text \<open>What a program that writes font files promises to those that read them.\<close>

locale pfo_writer =
  fixes emit :: "'f \<Rightarrow> py_error + u8 list" and valid :: "'f \<Rightarrow> bool"
    and height_of :: "'f \<Rightarrow> int" and wildcard_of :: "'f \<Rightarrow> int" and compressed_of :: "'f \<Rightarrow> bool"
    and chars_of :: "'f \<Rightarrow> (int \<times> u8 list) set"
  assumes emits: "emit f = Inr pfo \<Longrightarrow> valid f \<Longrightarrow>
    \<exists>qs gd. font_layout pfo (height_of f) (wildcard_of f) (compressed_of f) qs gd \<and> holds_glyphs qs gd \<and>
      chars_of f = (\<lambda>(c, k). (c, data_at gd k)) ` set qs"
begin

lemma read_back:
  "emit f = Inr pfo \<Longrightarrow> valid f \<Longrightarrow>
     \<exists>font. font_read pfo = Inr font \<and> readable font \<and> max_height font = height_of f \<and> wildcard font = wildcard_of f \<and>
       compressed font = compressed_of f \<and> cmap font = chars_of f"
  using emits [of f pfo] read_layout by metis

end

interpretation written_font: pfo_writer font_write readable max_height wildcard compressed cmap
proof
  fix font pfo assume w: "font_write font = Inr pfo" and wf: "readable font"
  from w obtain wide hdr dir chs counts ps gd where hdr: "write_header font wide = Inr hdr"
    and pfo: "pfo = hdr @ dir @ concat chs @ gd"
    and place: "place_glyphs (sort_key (\<lambda>g. hd (codepoints g)) (map snd (glyphs font))) [0, 0, 0, 0] = (ps, gd)"
    and chains: "fill_chains wide (sort_key fst ps) (replicate HASHTABLE_DIRECTORY_SIZE [])
      (replicate HASHTABLE_DIRECTORY_SIZE 0) = Inr (chs, counts)"
    and dir: "write_directory chs counts [0 ..< HASHTABLE_DIRECTORY_SIZE] 0 = Inr dir"
    by (rule font_write_Inr)
  let ?qs = "sort_key fst ps"
  from place_glyphs_stored [OF place] have n: "length ps = sum_list (map (\<lambda>g. length (codepoints (snd g))) (glyphs font))"
    by (simp add: sum_list_sort_key comp_def)
  have "read_header pfo = Inr (10, wide, compressed font, max_height font, int (length ?qs), wildcard font)"
    using write_header_Inr(2) [OF hdr, of "dir @ concat chs @ gd"] by (simp add: pfo n)
  with write_header_Inr(1) [OF hdr] pfo fill_chains_chained [OF chains] dir
  have "font_layout pfo (max_height font) (wildcard font) (compressed font) ?qs gd"
    unfolding font_layout_def by blast
  moreover note placed_cmap [OF place _ wf, simplified]
  ultimately show "\<exists>qs gd. font_layout pfo (max_height font) (wildcard font) (compressed font) qs gd \<and> holds_glyphs qs gd \<and>
      cmap font = (\<lambda>(c, k). (c, data_at gd k)) ` set qs"
    by (intro exI [of _ ?qs] exI [of _ gd]) (auto simp: holds_glyphs_def)
qed

lemmas read_written = written_font.read_back

section \<open>Writing succeeds\<close>

abbreviation all_codepoints :: "Font \<Rightarrow> int list" where
  "all_codepoints font \<equiv> concat (map (codepoints \<circ> snd) (glyphs font))"

abbreviation data_length :: "Font \<Rightarrow> nat" where
  "data_length font \<equiv> sum_list (map (length \<circ> gdata \<circ> snd) (glyphs font))"

text \<open>The limits of the format: field widths, bins and the extent of the chains.\<close>

definition font_fits :: "Font \<Rightarrow> bool" where
  "font_fits font \<longleftrightarrow>
     0 \<le> max_height font \<and> max_height font \<le> 255 \<and> 0 \<le> wildcard font \<and> wildcard font \<le> 65535 \<and>
     (\<forall>g \<in> set (glyphs font). codepoints (snd g) \<noteq> []) \<and> (\<forall>c \<in> set (all_codepoints font). 0 \<le> c \<and> c \<le> 65535) \<and>
     (\<forall>c \<in> set (all_codepoints font). length (filter (\<lambda>c'. c' mod 255 = c mod 255) (all_codepoints font)) < 128) \<and>
     length (all_codepoints font) * item_size (65535 \<le> data_length font) \<le> 65535 \<and> data_length font < 2 ^ 32"

lemma fill_chains_succeeds:
  assumes "\<forall>p \<in> set ps. item_fits wide p \<and> counts ! bin_no p + length (bin_pairs ps (bin_no p)) < OFFSET_TABLE_MAX_SIZE"
    "length counts = HASHTABLE_DIRECTORY_SIZE"
  shows "\<exists>r. fill_chains wide ps chs counts = Inr r"
  using assms
proof (induction ps arbitrary: chs counts)
  case (Cons p ps)
  from Cons.prems(1) have p: "pack_item wide p = Inr (item_bytes wide p)" "counts ! bin_no p + 1 < OFFSET_TABLE_MAX_SIZE"
    by (auto simp: pack_item_Inr)
  have "item_fits wide q \<and> counts[bin_no p := counts ! bin_no p + 1] ! bin_no q + length (bin_pairs ps (bin_no q)) < OFFSET_TABLE_MAX_SIZE"
    if "q \<in> set ps" for q
    using Cons.prems that bin_no_less [of p] by (cases "bin_no q = bin_no p") auto
  then have "\<forall>q \<in> set ps. item_fits wide q \<and> counts[bin_no p := counts ! bin_no p + 1] ! bin_no q + length (bin_pairs ps (bin_no q)) < OFFSET_TABLE_MAX_SIZE"
    by blast
  from Cons.IH [OF this] Cons.prems(2) p show ?case by (simp add: Let_def)
qed simp

lemma write_directory_succeeds:
  assumes "\<forall>x \<in> set xs. x \<le> 255 \<and> counts ! x \<le> 255" "0 \<le> off" "off + int (sum_list (map (\<lambda>x. length (chs ! x)) xs)) \<le> 65535"
  shows "\<exists>r. write_directory chs counts xs off = Inr r"
  using assms
proof (induction xs arbitrary: off)
  case (Cons x xs)
  from Cons.IH [of "off + int (length (chs ! x))"] Cons.prems obtain r where
    "write_directory chs counts xs (off + int (length (chs ! x))) = Inr r" by (auto simp: add.assoc)
  with Cons.prems show ?case by (simp add: struct_pack_B_def struct_pack_H_def)
qed simp

lemma place_glyphs_codepoints:
  "place_glyphs gs d0 = (ps, d) \<Longrightarrow> map fst ps = concat (map codepoints gs) \<and> length d = length d0 + sum_list (map (length \<circ> gdata) gs)"
proof (induction gs arbitrary: d0 ps)
  case (Cons g gs)
  obtain qs where run: "place_glyphs gs (d0 @ gdata g) = (qs, d)"
    and ps: "ps = map (\<lambda>c. (c, int (length d0))) (codepoints g) @ qs"
    using Cons.prems by (auto simp: Let_def split: prod.splits)
  from Cons.IH [OF run] show ?case by (simp add: ps comp_def)
qed simp

lemma stored_room: "stored d n x \<Longrightarrow> x \<noteq> [] \<Longrightarrow> n + length x \<le> length d"
proof -
  assume "stored d n x" "x \<noteq> []"
  then have "length (take (length x) (drop n d)) = length x" "0 < length x" by (auto simp: stored_def)
  then show ?thesis unfolding length_take length_drop by arith
qed

lemma wf_data_length: "wf_data d \<Longrightarrow> 5 \<le> length d"
  by (cases d rule: wf_data.cases) simp_all

text \<open>
  The narrow format is chosen on the length of the data alone.  Offsets count four bytes more, and still
  fit, since the last glyph takes at least five.
\<close>

lemma placed_fits:
  assumes place: "place_glyphs (sort_key k (map snd (glyphs font))) [0, 0, 0, 0] = (ps, gd)"
    and fits: "font_fits font" and wf: "readable font" and p: "p \<in> set ps"
  shows "item_fits (65535 \<le> data_length font) p"
proof -
  note pc = place_glyphs_codepoints [OF place]
  from pc have "length gd = 4 + data_length font" by (simp add: sum_list_sort_key comp_def)
  moreover from place_glyphs_stored [OF place, unfolded set_sort set_map] p obtain g where
    g: "g \<in> snd ` set (glyphs font)" "fst p \<in> set (codepoints g)" "stored gd (nat (snd p)) (gdata g)" "0 \<le> snd p" by blast
  moreover from g(1) wf have "5 \<le> length (gdata g)" by (auto simp: readable_def wf_data_length)
  ultimately have "nat (snd p) + 5 \<le> 4 + data_length font" using stored_room [OF g(3)] by fastforce
  moreover have "0 \<le> fst p \<and> fst p \<le> 65535" using fits g(1,2) by (auto simp: font_fits_def)
  ultimately show ?thesis using g(4) fits by (auto simp: item_fits_def font_fits_def)
qed

lemma mod_bin: "bin_no p = bin_no q \<longleftrightarrow> fst p mod 255 = fst q mod 255"
  by (simp add: bin_no_def HASHTABLE_DIRECTORY_SIZE_def eq_nat_nat_iff)

lemma placed_bin:
  assumes place: "place_glyphs (sort_key k (map snd (glyphs font))) [0, 0, 0, 0] = (ps, gd)"
    and fits: "font_fits font" and p: "p \<in> set ps"
  shows "length (bin_pairs ps (bin_no p)) < OFFSET_TABLE_MAX_SIZE"
proof -
  note pc = place_glyphs_codepoints [OF place]
  have "mset (concat (map codepoints (sort_key k (map snd (glyphs font))))) = mset (all_codepoints font)"
    by (simp add: mset_concat sum_list_sort_key comp_def)
  with pc have ms: "mset (map fst ps) = mset (all_codepoints font)" by simp
  have "length (bin_pairs ps (bin_no p)) = length (filter (\<lambda>c. c mod 255 = fst p mod 255) (map fst ps))"
    by (simp add: mod_bin filter_map comp_def)
  also have "\<dots> = size (filter_mset (\<lambda>c. c mod 255 = fst p mod 255) (mset (all_codepoints font)))"
    unfolding ms [symmetric] by (simp only: size_mset mset_filter [symmetric])
  also have "\<dots> = length (filter (\<lambda>c. c mod 255 = fst p mod 255) (all_codepoints font))" by (simp flip: mset_filter)
  also have "fst p \<in> set (all_codepoints font)" using p ms by (metis image_eqI list.set_map set_mset_mset)
  then have "length (filter (\<lambda>c. c mod 255 = fst p mod 255) (all_codepoints font)) < 128"
    using fits unfolding font_fits_def by blast
  finally show ?thesis by (simp add: OFFSET_TABLE_MAX_SIZE_def)
qed

lemma write_header_succeeds:
  assumes fits: "font_fits font"
  shows "\<exists>hdr. write_header font wide = Inr hdr"
proof -
  have n: "sum_list (map (\<lambda>g. length (codepoints (snd g))) (glyphs font)) = length (all_codepoints font)"
    by (simp add: length_concat comp_def)
  have "length (all_codepoints font) * 4 \<le> 65535"
    using fits by (auto simp: font_fits_def item_size_def split: if_splits)
  then show ?thesis using fits unfolding write_header_def n
    by (simp add: font_fits_def struct_pack_B_def struct_pack_H_def del: length_concat)
qed

lemma written:
  assumes fits: "font_fits font" and wf: "readable font"
  shows "\<exists>pfo. font_write font = Inr pfo"
proof -
  let ?wide = "65535 \<le> data_length font"
  obtain ps gd where place: "place_glyphs (sort_key (\<lambda>g. hd (codepoints g)) (map snd (glyphs font))) [0, 0, 0, 0] = (ps, gd)"
    by force
  obtain hdr where hdr: "write_header font ?wide = Inr hdr" using write_header_succeeds [OF fits] by blast
  have "\<forall>p \<in> set (sort_key fst ps). item_fits ?wide p \<and>
      replicate HASHTABLE_DIRECTORY_SIZE 0 ! bin_no p + length (bin_pairs (sort_key fst ps) (bin_no p)) < OFFSET_TABLE_MAX_SIZE"
    using placed_fits [OF place fits wf] placed_bin [OF place fits] bin_no_less
    by (simp add: filter_sort)
  from fill_chains_succeeds [OF this] obtain chs counts where chains: "fill_chains ?wide (sort_key fst ps)
      (replicate HASHTABLE_DIRECTORY_SIZE []) (replicate HASHTABLE_DIRECTORY_SIZE 0) = Inr (chs, counts)"
    by fastforce
  have "\<exists>dir. write_directory chs counts [0 ..< HASHTABLE_DIRECTORY_SIZE] 0 = Inr dir"
  proof (rule write_directory_succeeds)
    have "length ps = length (all_codepoints font)"
      using place_glyphs_stored [OF place] by (simp add: sum_list_sort_key length_concat comp_def)
    moreover from fits have "length (all_codepoints font) * item_size ?wide \<le> 65535" unfolding font_fits_def by blast
    ultimately have "length ps * item_size ?wide \<le> 65535" by (simp only:)
    then show "0 + int (sum_list (map (\<lambda>x. length (chs ! x)) [0 ..< HASHTABLE_DIRECTORY_SIZE])) \<le> 65535"
      unfolding chained_extent [OF fill_chains_chained [OF chains]] length_sort by linarith
  next
    show "\<forall>x \<in> set [0 ..< HASHTABLE_DIRECTORY_SIZE]. x \<le> 255 \<and> counts ! x \<le> 255"
      using fill_chains_Inr [OF chains] by (fastforce simp: HASHTABLE_DIRECTORY_SIZE_def OFFSET_TABLE_MAX_SIZE_def)
  qed simp
  then obtain dir where dir: "write_directory chs counts [0 ..< HASHTABLE_DIRECTORY_SIZE] 0 = Inr dir" ..
  have ne: "\<not> (\<exists>g \<in> set (map snd (glyphs font)). codepoints g = [])" using fits by (auto simp: font_fits_def)
  have wide: "(\<not> sum_list (map (length \<circ> gdata) (map snd (glyphs font))) < 65535) = ?wide" by (simp add: comp_def not_less)
  show ?thesis unfolding font_write_def Let_def wide
    by (simp only: hdr bindE_simps ne if_False place prod.case chains dir sum.inject ex_simps simp_thms)
qed

section \<open>The merged font\<close>

text \<open>What the store and the dictionary of code points stand for, and what a glyph list stands for.\<close>

definition drawn :: "Glyph list \<times> (int \<times> nat) list \<Rightarrow> (int \<times> u8 list) set" where
  "drawn S = {(c, gdata (fst S ! i)) | c i. (c, i) \<in> set (snd S)}"

definition wf_store :: "Glyph list \<times> (int \<times> nat) list \<Rightarrow> bool" where
  "wf_store S \<longleftrightarrow> distinct (map fst (snd S)) \<and> (\<forall>(c, i) \<in> set (snd S). i < length (fst S)) \<and>
     (\<forall>g \<in> set (fst S). codepoints g = [])"

definition glyph_map :: "Glyph list \<Rightarrow> (int \<times> u8 list) set" where
  "glyph_map gs = {(c, gdata g) | c g. g \<in> set gs \<and> c \<in> set (codepoints g)}"

text \<open>The second map over the first.\<close>

definition over :: "('a \<times> 'b) set \<Rightarrow> ('a \<times> 'b) set \<Rightarrow> ('a \<times> 'b) set" where
  "over A B = {p \<in> A. fst p \<notin> fst ` B} \<union> B"

lemma set_fold_update:
  assumes "distinct (map fst m)"
  shows "distinct (map fst (fold (\<lambda>c. AList.update c n) cs m))"
    and "set (fold (\<lambda>c. AList.update c n) cs m) = {p \<in> set m. fst p \<notin> set cs} \<union> (\<lambda>c. (c, n)) ` set cs"
  using assms
proof (induction cs arbitrary: m)
  case (Cons c cs)
  case 1
  with Cons(1) [of "AList.update c n m"] show ?case by (simp add: distinct_update)
next
  case (Cons c cs)
  case 2
  have "set (AList.update c n m) = {p \<in> set m. fst p \<noteq> c} \<union> {(c, n)}"
    using 2 by (induction m) force+
  with Cons(2) [of "AList.update c n m"] 2 show ?case by (auto simp: distinct_update)
qed simp_all

lemma glyph_map_Cons: "glyph_map (g # gs) = (\<lambda>c. (c, gdata g)) ` set (codepoints g) \<union> glyph_map gs"
  by (auto simp: glyph_map_def)

lemma glyph_map_Nil [simp]: "glyph_map [] = {}"
  by (simp add: glyph_map_def)

lemma in_over: "(c, d) \<in> over A B \<longleftrightarrow> (c, d) \<in> B \<or> (c, d) \<in> A \<and> c \<notin> Domain B"
  by (auto simp: over_def Domain_fst)

lemma over_over: "single_valued (B \<union> C) \<Longrightarrow> over (over A B) C = over A (B \<union> C)"
  by (rule set_eqI, case_tac x) (auto simp: in_over dest: single_valuedD)

lemma drawn_iff: "(c, d) \<in> drawn S \<longleftrightarrow> (\<exists>i. (c, i) \<in> set (snd S) \<and> d = gdata (fst S ! i))"
  by (auto simp: drawn_def)

lemma enter_glyph_step:
  assumes "wf_store S"
  shows "wf_store (enter_glyph g S)" "drawn (enter_glyph g S) = over (drawn S) (glyph_map [g])"
proof -
  note u = set_fold_update [of "snd S" "length (fst S)" "codepoints g"]
  show "wf_store (enter_glyph g S)"
    using assms u by (auto simp: wf_store_def enter_glyph_def)
  have n: "(fst S @ [x]) ! i = fst S ! i" if "(c, i) \<in> set (snd S)" for c i x
    using assms that by (auto simp: wf_store_def nth_append)
  have "Domain (glyph_map [g]) = set (codepoints g)" by (force simp: glyph_map_Cons)
  then have "(c, d) \<in> drawn (enter_glyph g S) \<longleftrightarrow> (c, d) \<in> over (drawn S) (glyph_map [g])" for c d
    using assms u by (cases "c \<in> set (codepoints g)")
      (auto simp: drawn_iff in_over wf_store_def enter_glyph_def glyph_map_Cons n cong: conj_cong)
  then show "drawn (enter_glyph g S) = over (drawn S) (glyph_map [g])" by auto
qed

lemma enter_glyphs:
  assumes "wf_store S" "single_valued (glyph_map gs)"
  shows "wf_store (fold enter_glyph gs S) \<and> drawn (fold enter_glyph gs S) = over (drawn S) (glyph_map gs)"
  using assms
proof (induction gs arbitrary: S)
  case Nil
  then show ?case by (simp add: over_def)
next
  case (Cons g gs)
  have gs: "glyph_map (g # gs) = glyph_map [g] \<union> glyph_map gs" by (simp add: glyph_map_Cons)
  with Cons.prems(2) have "single_valued (glyph_map gs)" by (auto intro: single_valued_subset)
  from Cons.IH [OF enter_glyph_step(1) [OF Cons.prems(1)] this] Cons.prems show ?case
    by (simp add: enter_glyph_step over_over gs)
qed

text \<open>
  The second loop hands each code point to its glyph, and keeps a glyph when it sees it first.  Two glyphs of
  the store are told apart by their contents, since a code point goes to one of them only.
\<close>

definition grouped :: "(int \<times> nat) list \<Rightarrow> Glyph list \<Rightarrow> Glyph list \<Rightarrow> (int \<times> nat) list \<Rightarrow> bool" where
  "grouped seen objs0 objs fg \<longleftrightarrow> length objs = length objs0 \<and>
     (\<forall>i < length objs. objs ! i = \<lparr>codepoints = map fst (filter (\<lambda>p. snd p = i) seen), gdata = gdata (objs0 ! i)\<rparr>) \<and>
     fst ` set fg \<subseteq> fst ` set seen \<and> snd ` set fg = snd ` set seen \<and> distinct (map snd fg)"

lemma update_new: "k \<notin> fst ` set al \<Longrightarrow> AList.update k v al = al @ [(k, v)]"
  by (induction al) auto

lemma grouped_step:
  assumes g: "grouped seen objs0 objs fg" and i: "i < length objs0" "\<forall>p \<in> set seen. snd p < length objs0"
    and cpt: "cpt \<notin> fst ` set seen"
    and objs': "objs' = objs[i := (objs ! i)\<lparr>codepoints := codepoints (objs ! i) @ [cpt]\<rparr>]"
  shows "grouped (seen @ [(cpt, i)]) objs0 objs'
     (if objs' ! i \<in> set (map (\<lambda>e. objs' ! snd e) fg) then fg else AList.update cpt i fg)"
proof -
  have len: "length objs = length objs0" and snds: "snd ` set fg = snd ` set seen" "distinct (map snd fg)"
    and fsts: "fst ` set fg \<subseteq> fst ` set seen"
    and obj: "\<And>j. j < length objs0 \<Longrightarrow> objs ! j = \<lparr>codepoints = map fst (filter (\<lambda>p. snd p = j) seen), gdata = gdata (objs0 ! j)\<rparr>"
    using g by (auto simp: grouped_def)
  have obj': "objs' ! j = \<lparr>codepoints = map fst (filter (\<lambda>p. snd p = j) (seen @ [(cpt, i)])), gdata = gdata (objs0 ! j)\<rparr>"
    if "j < length objs0" for j
    using that i(1) by (cases "j = i") (simp_all add: objs' len obj)
  have "objs' ! i \<in> set (map (\<lambda>e. objs' ! snd e) fg) \<longleftrightarrow> i \<in> snd ` set fg"
  proof
    assume "objs' ! i \<in> set (map (\<lambda>e. objs' ! snd e) fg)"
    then obtain e where e: "e \<in> set fg" "objs' ! i = objs' ! snd e" by auto
    then have "snd e < length objs0" using i(2) snds(1) by (metis (no_types, lifting) image_iff)
    then have "map fst (filter (\<lambda>p. snd p = snd e) (seen @ [(cpt, i)])) = map fst (filter (\<lambda>p. snd p = i) (seen @ [(cpt, i)]))"
      using e(2) obj' i(1) by (metis Glyph.ext_inject)
    then have "cpt \<in> set (map fst (filter (\<lambda>p. snd p = snd e) (seen @ [(cpt, i)])))" by simp
    with cpt have "snd e = i" by (auto split: if_splits simp: image_iff)
    with e(1) show "i \<in> snd ` set fg" by auto
  qed force
  moreover have "AList.update cpt i fg = fg @ [(cpt, i)]" using cpt fsts by (intro update_new) auto
  moreover have "length objs' = length objs0" by (simp add: objs' len)
  ultimately show ?thesis
    using snds fsts obj' unfolding grouped_def by auto
qed

lemma group_glyphs_grouped:
  assumes "grouped seen objs0 objs fg" "\<forall>p \<in> set (seen @ items). snd p < length objs0" "distinct (map fst (seen @ items))"
    "group_glyphs items objs fg = (objs', fg')"
  shows "grouped (seen @ items) objs0 objs' fg'"
  using assms
proof (induction items arbitrary: seen objs fg)
  case (Cons p items)
  obtain cpt i where p: "p = (cpt, i)" by force
  let ?objs = "objs[i := (objs ! i)\<lparr>codepoints := codepoints (objs ! i) @ [cpt]\<rparr>]"
  have "grouped (seen @ [(cpt, i)]) objs0 ?objs
      (if ?objs ! i \<in> set (map (\<lambda>e. ?objs ! snd e) fg) then fg else AList.update cpt i fg)"
    using Cons.prems by (intro grouped_step) (auto simp: p)
  from Cons.IH [OF this] Cons.prems(2-4) show ?case by (simp add: p Let_def)
qed simp

text \<open>No glyph without a code point, and no code point twice.\<close>

definition tidy :: "Font \<Rightarrow> bool" where
  "tidy font \<longleftrightarrow> (\<forall>g \<in> set (glyphs font). codepoints (snd g) \<noteq> []) \<and> distinct (all_codepoints font)"

lemma distinct_parts:
  "distinct ks \<Longrightarrow> distinct (map fst items) \<Longrightarrow> distinct (concat (map (\<lambda>i. map fst (filter (\<lambda>p. snd p = i) items)) ks))"
proof (induction ks)
  case (Cons k ks)
  have "x = y" if "x \<in> set items" "y \<in> set items" "fst x = fst y" for x y
    using Cons.prems(2) that by (auto simp: distinct_map inj_on_def)
  with Cons show ?case by (auto simp: distinct_map_filter)
qed simp

lemma grouped_cmap:
  assumes "grouped items objs0 objs fg" "\<forall>p \<in> set items. snd p < length objs0" "distinct (map fst items)"
    "glyphs font = map (\<lambda>(cpt, i). (cpt, objs ! i)) fg"
  shows "cmap font = drawn (objs0, items)" "tidy font"
proof -
  have obj: "\<And>j. j < length objs0 \<Longrightarrow> objs ! j = \<lparr>codepoints = map fst (filter (\<lambda>p. snd p = j) items), gdata = gdata (objs0 ! j)\<rparr>"
    and snds: "snd ` set fg = snd ` set items"
    using assms(1) by (auto simp: grouped_def)
  have lt: "i < length objs0" "\<exists>c. (c, i) \<in> set items" if "i \<in> snd ` set fg" for i
    using that assms(2) unfolding snds by force+
  have "(c, d) \<in> cmap font \<longleftrightarrow> (\<exists>i \<in> snd ` set fg. c \<in> set (codepoints (objs ! i)) \<and> d = gdata (objs ! i))" for c d
    by (force simp: cmap_def assms(4))
  also have "\<dots> c d \<longleftrightarrow> (c, d) \<in> drawn (objs0, items)" for c d
    using lt by (force simp: drawn_iff obj snds)
  finally show "cmap font = drawn (objs0, items)" by auto
  have "all_codepoints font = concat (map (\<lambda>i. codepoints (objs ! i)) (map snd fg))" by (simp add: assms(4) split_beta comp_def)
  also have "map (\<lambda>i. codepoints (objs ! i)) (map snd fg) = map (\<lambda>i. map fst (filter (\<lambda>p. snd p = i) items)) (map snd fg)"
    using lt(1) by (intro map_cong) (auto simp: obj)
  finally have "distinct (all_codepoints font)"
    using distinct_parts [of "map snd fg" items] assms(1,3) by (simp only: grouped_def)
  then show "tidy font"
    unfolding tidy_def using lt by (force simp: assms(4) obj filter_empty_conv)
qed

text \<open>Any two fonts of one kind merge; the second covers the first.\<close>

lemma cmap_glyph_map: "cmap font = glyph_map (map snd (glyphs font))"
  by (force simp: cmap_def glyph_map_def)

lemma merge_fonts_over:
  assumes items: "\<And>m. mset (py_items m) = mset m" and sv: "single_valued (cmap font_1)" "single_valued (cmap font_2)"
    and "compressed font_1 = compressed font_2"
  shows "\<exists>font. merge_fonts py_items font_1 font_2 = Inr font \<and> cmap font = over (cmap font_1) (cmap font_2) \<and>
     max_height font = max_height font_1 \<and> wildcard font = wildcard font_1 \<and> compressed font = compressed font_1 \<and> tidy font"
proof -
  define S where "S = fold enter_glyph (map snd (glyphs font_2)) (fold enter_glyph (map snd (glyphs font_1)) ([], []))"
  have e: "wf_store ([], [])" "over (drawn ([], [])) A = A" for A by (simp_all add: wf_store_def drawn_def over_def)
  note f1 = enter_glyphs [OF e(1) sv(1) [unfolded cmap_glyph_map], unfolded e(2)]
  from enter_glyphs [OF conjunct1 [OF f1] sv(2) [unfolded cmap_glyph_map]] f1
  have S: "wf_store S" "drawn S = over (cmap font_1) (cmap font_2)"
    unfolding S_def cmap_glyph_map by simp_all
  obtain objs m where m: "S = (objs, m)" by force
  obtain objs' fg where run: "group_glyphs (py_items m) objs [] = (objs', fg)" by force
  have "mset (map fst (py_items m)) = mset (map fst m)" using items [of m] by simp
  then have same: "set (py_items m) = set m" "distinct (map fst (py_items m))"
    using mset_eq_setD [OF items [of m]] S(1) by (auto simp: wf_store_def m dest: mset_eq_imp_distinct_iff simp del: mset_map)
  have "grouped [] objs objs []" using S(1) by (auto simp: grouped_def wf_store_def m)
  moreover have bound: "\<forall>p \<in> set (py_items m). snd p < length objs"
    using S(1) by (auto simp: same wf_store_def m)
  ultimately have grouped: "grouped (py_items m) objs objs' fg"
    using group_glyphs_grouped [OF _ _ _ run, of "[]" objs] same(2) by simp
  let ?font = "\<lparr>max_height = max_height font_1, wildcard = wildcard font_1, compressed = compressed font_1,
    glyphs = map (\<lambda>(cpt, i). (cpt, objs' ! i)) fg\<rparr>"
  have "merge_fonts py_items font_1 font_2 = Inr ?font"
    using assms(4) by (simp add: merge_fonts_def S_def [symmetric] m run)
  moreover have "cmap ?font = over (cmap font_1) (cmap font_2)" "tidy ?font"
    using grouped_cmap [OF grouped bound same(2), of ?font] S(2) by (simp_all add: same(1) drawn_def m)
  ultimately show ?thesis by (intro exI [of _ ?font]) simp
qed

lemma cmap_wf: "readable font \<Longrightarrow> (c, d) \<in> cmap font \<Longrightarrow> wf_data d"
  by (force simp: readable_def cmap_def)

lemma readable_cmap:
  assumes "\<forall>g \<in> set (glyphs font). codepoints (snd g) \<noteq> []" "\<And>c d. (c, d) \<in> cmap font \<Longrightarrow> wf_data d"
  shows "readable font"
  unfolding readable_def
proof
  fix g assume g: "g \<in> set (glyphs font)"
  with assms(1) have "(hd (codepoints (snd g)), gdata (snd g)) \<in> cmap font"
    by (cases g) (auto simp: cmap_def intro!: exI)
  then show "wf_data (gdata (snd g))" by (rule assms(2))
qed

lemma single_valued_over: "single_valued A \<Longrightarrow> single_valued B \<Longrightarrow> single_valued (over A B)"
  by (auto intro!: single_valuedI simp: in_over dest: single_valuedD)

definition sound_font :: "Font \<Rightarrow> bool" where
  "sound_font font \<longleftrightarrow> readable font \<and> single_valued (cmap font)"

lemma merge_all_over:
  assumes items: "\<And>m. mset (py_items m) = mset m"
    and "sound_font font" "\<forall>f \<in> set fonts. sound_font f \<and> compressed f = compressed font"
  shows "\<exists>r. merge_all py_items font fonts = Inr r \<and> sound_font r \<and>
     cmap r = fold (\<lambda>f A. over A (cmap f)) fonts (cmap font) \<and>
     max_height r = max_height font \<and> wildcard r = wildcard font \<and> compressed r = compressed font \<and> (fonts = [] \<or> tidy r)"
  using assms(2,3)
proof (induction fonts arbitrary: font)
  case (Cons f fonts)
  from Cons.prems merge_fonts_over [OF items, of font f] obtain m where
    m: "merge_fonts py_items font f = Inr m" "cmap m = over (cmap font) (cmap f)" "max_height m = max_height font"
      "wildcard m = wildcard font" "compressed m = compressed font" "tidy m"
    by (auto simp: sound_font_def)
  have "readable m" using readable_cmap [OF conjunct1 [OF m(6) [unfolded tidy_def]]] m(2) Cons.prems by (auto simp: in_over sound_font_def dest: cmap_wf)
  then have "sound_font m" using m(2) Cons.prems by (simp add: sound_font_def single_valued_over)
  from Cons.IH [OF this] Cons.prems(2) m show ?case by (cases fonts) simp_all
qed simp

lemma glyph_length: "wf_data d \<Longrightarrow> 5 \<le> length d \<and> length d \<le> 10000"
proof (cases d rule: wf_data.cases)
  case (1 h w r)
  assume "wf_data d"
  have "uint h * uint w \<le> 255 * 255" by (rule mult_mono) (use uint_lt2p [of h] uint_lt2p [of w] in simp_all)
  then have "((uint h * uint w + 7) div 8 + 3) div 4 * 4 \<le> 9000" by linarith
  with \<open>wf_data d\<close> 1 show ?thesis by (simp add: bitmap_data_sz_def)
qed auto

text \<open>When a merged font can be written: how many code points it has, and how many in a bin.\<close>

lemma Domain_cmap: "Domain (cmap font) = set (all_codepoints font)"
  by (force simp: cmap_def)

definition domain_fits :: "int set \<Rightarrow> bool" where
  "domain_fits S \<longleftrightarrow> S \<subseteq> {0..65535} \<and> card S * 6 \<le> 65535 \<and> (\<forall>c \<in> S. card {c' \<in> S. c' mod 255 = c mod 255} < 128)"

lemma tidy_fits:
  assumes t: "tidy font" and r: "readable font" and S: "domain_fits (Domain (cmap font))"
    and "0 \<le> max_height font" "max_height font \<le> 255" "0 \<le> wildcard font" "wildcard font \<le> 65535"
  shows "font_fits font"
proof -
  let ?cs = "all_codepoints font"
  have d: "distinct ?cs" and ne: "\<forall>g \<in> set (glyphs font). codepoints (snd g) \<noteq> []" using t by (auto simp: tidy_def)
  have n: "length ?cs * 6 \<le> 65535" using S distinct_card [OF d] by (simp add: domain_fits_def Domain_cmap)
  have bins: "length (filter (\<lambda>c'. c' mod 255 = c mod 255) ?cs) < 128" if "c \<in> set ?cs" for c
  proof -
    have "length (filter (\<lambda>c'. c' mod 255 = c mod 255) ?cs) = card {c' \<in> set ?cs. c' mod 255 = c mod 255}"
      using distinct_card [of "filter (\<lambda>c'. c' mod 255 = c mod 255) ?cs"] d by simp
    with S that show ?thesis unfolding domain_fits_def Domain_cmap by (simp only:)
  qed
  have "data_length font \<le> sum_list (map (\<lambda>g. 10000 * length (codepoints (snd g))) (glyphs font))"
  proof (rule sum_list_mono)
    fix g assume g: "g \<in> set (glyphs font)"
    then have "length (gdata (snd g)) \<le> 10000" using r glyph_length by (auto simp: readable_def)
    moreover have "0 < length (codepoints (snd g))" using g ne by auto
    ultimately show "(length \<circ> gdata \<circ> snd) g \<le> 10000 * length (codepoints (snd g))" by (cases "length (codepoints (snd g))") auto
  qed
  also have "\<dots> = 10000 * length ?cs" by (simp add: length_concat sum_list_const_mult comp_def)
  finally have len: "data_length font < 2 ^ 32" using n by simp
  have "length ?cs * item_size w \<le> 65535" for w using n by (cases w) (auto simp: item_size_def)
  with bins len ne S assms(4-) show ?thesis by (auto simp: font_fits_def domain_fits_def Domain_cmap)
qed

text \<open>The script: what it writes reads back as its inputs, one over the other.\<close>

lemma pfo_merge_read:
  assumes items: "\<And>m. mset (py_items m) = mset m" and run: "pfo_merge py_items pfos = Inr out"
    and fonts: "read_fonts pfos = Inr (font # fonts)" "sound_font font"
    "\<forall>f \<in> set fonts. sound_font f \<and> compressed f = compressed font"
  shows "\<exists>r. font_read out = Inr r \<and> cmap r = fold (\<lambda>f A. over A (cmap f)) fonts (cmap font) \<and>
     max_height r = max_height font \<and> wildcard r = wildcard font \<and> compressed r = compressed font"
proof -
  from merge_all_over [OF items fonts(2,3)] obtain m where m: "merge_all py_items font fonts = Inr m" "sound_font m"
    "cmap m = fold (\<lambda>f A. over A (cmap f)) fonts (cmap font)"
    "max_height m = max_height font" "wildcard m = wildcard font" "compressed m = compressed font" by blast
  from run fonts(1) m(1) have "font_write m = Inr out" by (simp add: pfo_merge_def)
  from read_written [OF this] m(2-) show ?thesis by (auto simp: sound_font_def)
qed

lemma uint16_range: "0 \<le> uint16 a b" "uint16 a b \<le> 65535"
  using uint_lt2p [of a] uint_lt2p [of b] by (simp_all add: uint16_def)

text \<open>A font that has been read has fields of the width of the format.\<close>

lemma byte_range: "0 \<le> uint (b :: u8) \<and> uint b \<le> 255"
  using uint_lt2p [of b] by simp

lemma read_header_range:
  assumes "read_header pfo = Inr (n, wide, cm, h, ct, w)"
  shows "\<exists>b a a'. h = uint (b :: u8) \<and> w = uint16 a a'"
  using assms unfolding read_header_def by (simp split: list.split_asm if_split_asm) blast+

lemma font_read_range:
  assumes "font_read pfo = Inr font"
  shows "0 \<le> max_height font" "max_height font \<le> 255" "0 \<le> wildcard font" "wildcard font \<le> 65535"
proof -
  from assms obtain n wide cm ct where "read_header pfo = Inr (n, wide, cm, max_height font, ct, wildcard font)"
    by (auto simp: font_read_def bindE_Inr_iff Let_def)
  from read_header_range [OF this] obtain b a a' where "max_height font = uint (b :: u8)" "wildcard font = uint16 a a'" by blast
  with byte_range uint16_range show "0 \<le> max_height font" "max_height font \<le> 255" "0 \<le> wildcard font" "wildcard font \<le> 65535"
    by simp_all
qed

lemma unpack_item_range: "unpack_item wide b = Inr (c, k) \<Longrightarrow> c \<in> {0..65535}"
  using uint16_range by (induction wide b rule: unpack_item.induct) auto

definition codes_in_range :: "(int \<times> Glyph) list \<Rightarrow> bool" where
  "codes_in_range gs \<longleftrightarrow> (\<forall>g \<in> set gs. set (codepoints (snd g)) \<subseteq> {0..65535})"

lemma add_glyph_range:
  "add_glyph pfo gb c k gs = Inr gs' \<Longrightarrow> codes_in_range gs \<Longrightarrow> c \<in> {0..65535} \<Longrightarrow> codes_in_range gs'"
  by (fastforce simp: add_glyph_def codes_in_range_def Let_def bindE_Inr_iff split: if_splits)

lemma read_chain_range:
  "read_chain wide pfo gb addr n gs = Inr gs' \<Longrightarrow> codes_in_range gs \<Longrightarrow> codes_in_range gs'"
proof (induction n arbitrary: addr gs)
  case (Suc n)
  from Suc.prems(1) obtain c k gs1 where "unpack_item wide (slice pfo addr (item_size wide)) = Inr (c, k)"
    "add_glyph pfo gb c k gs = Inr gs1" "read_chain wide pfo gb (addr + item_size wide) n gs1 = Inr gs'"
    by (auto simp: bindE_Inr_iff)
  with Suc.IH Suc.prems(2) add_glyph_range unpack_item_range show ?case by blast
qed simp

lemma read_directory_range:
  "read_directory wide pfo hs gb xs gs = Inr gs' \<Longrightarrow> codes_in_range gs \<Longrightarrow> codes_in_range gs'"
proof (induction xs arbitrary: gs)
  case (Cons x xs)
  from Cons.prems(1) obtain addr n gs1 where "read_chain wide pfo gb addr n gs = Inr gs1" "read_directory wide pfo hs gb xs gs1 = Inr gs'"
    by (auto simp: bindE_Inr_iff Let_def)
  with Cons.IH Cons.prems(2) read_chain_range show ?case by blast
qed simp

lemma font_read_codepoints:
  assumes "font_read pfo = Inr font"
  shows "Domain (cmap font) \<subseteq> {0..65535}"
proof -
  from assms obtain wide hs gb where "read_directory wide pfo hs gb [0 ..< HASHTABLE_DIRECTORY_SIZE] [] = Inr (glyphs font)"
    by (auto simp: font_read_def bindE_Inr_iff Let_def)
  from read_directory_range [OF this] show ?thesis by (auto simp: Domain_cmap codes_in_range_def)
qed

lemma Domain_over: "Domain (over A B) = Domain A \<union> Domain B"
  unfolding set_eq_iff Un_iff Domain_iff in_over by blast

lemma pfo_merge_succeeds:
  assumes items: "\<And>m. mset (py_items m) = mset m" and base: "font_read pfo = Inr font" "sound_font font"
    and fonts: "read_fonts pfos = Inr fonts" "fonts \<noteq> []" "\<forall>f \<in> set fonts. sound_font f \<and> compressed f = compressed font"
    and fits: "domain_fits (Domain (fold (\<lambda>f A. over A (cmap f)) fonts (cmap font)))"
  shows "\<exists>out. pfo_merge py_items (pfo # pfos) = Inr out"
proof -
  from merge_all_over [OF items base(2) fonts(3)] obtain m where m: "merge_all py_items font fonts = Inr m" "sound_font m"
    "cmap m = fold (\<lambda>f A. over A (cmap f)) fonts (cmap font)"
    "max_height m = max_height font" "wildcard m = wildcard font" "tidy m" using fonts(2) by blast
  have "font_fits m" using tidy_fits [of m] m font_read_range [OF base(1)] fits by (simp add: sound_font_def)
  from written [OF this] m(1,2) base fonts(1) show ?thesis by (auto simp: pfo_merge_def sound_font_def)
qed

text \<open>Fonts at which theorems are evaluated.\<close>

definition latin_font :: Font where
  "latin_font = \<lparr>max_height = 14, wildcard = 63, compressed = False,
     glyphs = [(4, \<lparr>codepoints = [63, 65], gdata = [2, 3, 0, 0, 4, 9, 0, 0, 0]\<rparr>),
               (13, \<lparr>codepoints = [66], gdata = [1, 1, 0, 0, 4, 1, 0, 0, 0]\<rparr>)]\<rparr>"

definition alef_font :: Font where
  "alef_font = \<lparr>max_height = 16, wildcard = 0, compressed = False,
     glyphs = [(4, \<lparr>codepoints = [0x627, 66], gdata = [8, 1, 0, 0, 4, 255, 0, 0, 0]\<rparr>)]\<rparr>"

lemma sample_fonts:
  "cmap latin_font = {(63, [2, 3, 0, 0, 4, 9, 0, 0, 0]), (65, [2, 3, 0, 0, 4, 9, 0, 0, 0]), (66, [1, 1, 0, 0, 4, 1, 0, 0, 0])}"
  "cmap alef_font = {(0x627, [8, 1, 0, 0, 4, 255, 0, 0, 0]), (66, [8, 1, 0, 0, 4, 255, 0, 0, 0])}"
  "readable latin_font" "readable alef_font" "font_fits latin_font"
  by (auto simp: cmap_glyph_map glyph_map_Cons latin_font_def alef_font_def readable_def bitmap_data_sz_def
      font_fits_def item_size_def)

lemma sample_fonts_sound: "sound_font latin_font" "sound_font alef_font"
  by (auto simp: sound_font_def sample_fonts single_valued_def)

end
