(* ===== verification/Rle4.thy ===== *)
theory Rle4
  imports Pfo
begin

text \<open>
  The glyph compressor of \<^verbatim>\<open>pebblesdk/fontgen.py\<close>: \<open>compress_glyph_RLE4\<close>, which packs runs of up to eight
  equal pixels into nibbles, and \<open>check_decompress_glyph_RLE4\<close>, which plays the decoder of the watch: it
  decodes inside one buffer, from its end to its start.  The theory shows that a glyph that passes the
  check decodes to its bitmap, and when it passes.
\<close>

section \<open>The code\<close>

definition RLE_LEN :: nat where
  "RLE_LEN = 2 ^ (4 - 1)"

definition GLYPH_BUFFER_SIZE_BYTES :: nat where
  "GLYPH_BUFFER_SIZE_BYTES = 256"

text \<open>\<^verbatim>\<open>struct.calcsize(self.glyph_header)\<close>\<close>

definition glyph_header_size :: nat where
  "glyph_header_size = 5"

text \<open>\<^verbatim>\<open>[(name, len(list(group))) for name, group in itertools.groupby(bitmap)]\<close>\<close>

fun groupby :: "bool list \<Rightarrow> (bool \<times> nat) list" where
  "groupby [] = []"
| "groupby (x # xs) =
     (case groupby xs of
        [] \<Rightarrow> [(x, 1)]
      | (y, n) # us \<Rightarrow> if x = y then (y, n + 1) # us else (x, 1) # (y, n) # us)"

function split_run :: "bool \<Rightarrow> nat \<Rightarrow> (bool \<times> nat) list" where
  "split_run name len =
     (if len > 0 then let unit_len = min len RLE_LEN in (name, unit_len) # split_run name (len - unit_len) else [])"
  by pat_completeness auto
termination
  by (relation "measure snd") (auto simp: RLE_LEN_def)

definition rle_unit_list :: "bool list \<Rightarrow> (bool \<times> nat) list" where
  "rle_unit_list bitmap = concat (map (\<lambda>(name, len). split_run name len) (groupby bitmap))"

fun pack_units :: "(bool \<times> nat) list \<Rightarrow> py_error + u8 list" where
  "pack_units [] = Inr []"
| "pack_units [u] = Inl StopIteration"
| "pack_units ((name, len) # (name2, len2) # us) =
     bindE (struct_pack_B (push_bit 3 (of_bool name) OR (int len - 1) OR push_bit 7 (of_bool name2) OR push_bit 4 (int len2 - 1)))
       (\<lambda>b. bindE (pack_units us) (\<lambda>bs. Inr (b @ bs)))"

function pad_words :: "u8 list \<Rightarrow> u8 list" where
  "pad_words glyph_packed = (if length glyph_packed mod 4 > 0 then pad_words (glyph_packed @ [0]) else glyph_packed)"
  by pat_completeness auto
termination
proof (relation "measure (\<lambda>bs. (4 - length bs mod 4) mod 4)")
  fix bs :: "u8 list" assume "length bs mod 4 > 0"
  then show "(bs @ [0], bs) \<in> measure (\<lambda>bs. (4 - length bs mod 4) mod 4)"
    using mod_less_divisor [of 4 "length bs"] by (auto simp: mod_Suc)
qed simp

definition compress_glyph_RLE4 :: "bool list \<Rightarrow> py_error + u8 list \<times> nat" where
  "compress_glyph_RLE4 bitmap =
     (let us = rle_unit_list bitmap; num_units = length us in
      bindE (pack_units (if num_units mod 2 = 1 then us @ [(False, 1)] else us)) (\<lambda>glyph_packed.
        Inr (pad_words glyph_packed, num_units)))"

declare split_run.simps [simp del] pad_words.simps [simp del]

text \<open>Indices count from the end when negative; \<^verbatim>\<open>buffer[-n:] = data\<close>.\<close>

definition py_get :: "int list \<Rightarrow> int \<Rightarrow> py_error + int" where
  "py_get xs i =
     (let k = (if i < 0 then i + int (length xs) else i) in
      if 0 \<le> k \<and> k < int (length xs) then Inr (xs ! nat k) else Inl IndexError)"

definition set_tail :: "int list \<Rightarrow> nat \<Rightarrow> int list \<Rightarrow> int list" where
  "set_tail xs n ys = take (if n = 0 then 0 else length xs - n) xs @ ys"

text \<open>The decoder; \<open>total_length\<close>, which nothing reads, is left out.\<close>

record rle_state =
  rs_src :: int
  rs_dst :: nat
  rs_buf :: "int list"
  rs_num :: int
  rs_out :: int

definition flush_byte :: "rle_state \<Rightarrow> rle_state" where
  "flush_byte s = s\<lparr>rs_buf := (rs_buf s)[rs_dst s := rs_out s AND 0xFF], rs_dst := rs_dst s + 1,
     rs_out := drop_bit 8 (rs_out s), rs_num := rs_num s - 8\<rparr>"

definition decode_unit :: "int \<Rightarrow> rle_state \<Rightarrow> py_error + rle_state" where
  "decode_unit unit_pair s =
     (let colour = drop_bit 3 unit_pair AND 1;
          len = nat ((unit_pair AND 0x07) + 1);
          out = (if colour \<noteq> 0 then rs_out s OR push_bit (nat (rs_num s)) (push_bit len 1 - 1) else rs_out s);
          s = s\<lparr>rs_out := out, rs_num := rs_num s + int len\<rparr> in
      if rs_num s \<ge> 8 then
        if int (rs_dst s) \<ge> rs_src s then Inl PyException
        else if rs_dst s \<ge> GLYPH_BUFFER_SIZE_BYTES then Inl PyException
        else Inr (flush_byte s)
      else Inr s)"

fun decode_pair :: "nat \<Rightarrow> int \<Rightarrow> rle_state \<Rightarrow> py_error + rle_state" where
  "decode_pair 0 unit_pair s = Inr s"
| "decode_pair (Suc i) unit_pair s = bindE (decode_unit unit_pair s) (decode_pair i (drop_bit 4 unit_pair))"

function decode_units :: "nat \<Rightarrow> rle_state \<Rightarrow> py_error + rle_state" where
  "decode_units rle_units s =
     (if rle_units > 0 then
        if rs_src s \<ge> int GLYPH_BUFFER_SIZE_BYTES then Inl PyException
        else bindE (py_get (rs_buf s) (rs_src s)) (\<lambda>unit_pair.
             bindE (decode_pair (min rle_units 2) unit_pair (s\<lparr>rs_src := rs_src s + 1\<rparr>)) (decode_units (rle_units - min rle_units 2)))
      else Inr s)"
  by pat_completeness auto
termination
  by (relation "measure fst") auto

function flush_rest :: "rle_state \<Rightarrow> py_error + rle_state" where
  "flush_rest s =
     (if rs_num s > 0 then
        if rs_dst s < length (rs_buf s) then flush_rest (flush_byte s) else Inl IndexError
      else Inr s)"
  by pat_completeness auto
termination
  by (relation "measure (\<lambda>s. nat (rs_num s))") (auto simp: flush_byte_def)

declare decode_units.simps [simp del] flush_rest.simps [simp del]

definition decode_in_place :: "u8 list \<Rightarrow> nat \<Rightarrow> py_error + rle_state" where
  "decode_in_place glyph_packed rle_units =
     bindE (decode_units rle_units
              \<lparr>rs_src = int GLYPH_BUFFER_SIZE_BYTES - int (length glyph_packed), rs_dst = glyph_header_size,
               rs_buf = set_tail (replicate GLYPH_BUFFER_SIZE_BYTES 0) (length glyph_packed) (map uint glyph_packed),
               rs_num = 0, rs_out = 0\<rparr>) flush_rest"

definition check_decompress_glyph_RLE4 :: "u8 list \<Rightarrow> nat \<Rightarrow> py_error + bool" where
  "check_decompress_glyph_RLE4 glyph_packed rle_units = bindE (decode_in_place glyph_packed rle_units) (\<lambda>s. Inr True)"

section \<open>Units\<close>

text \<open>What a list of units stands for.\<close>

abbreviation expand :: "(bool \<times> nat) list \<Rightarrow> bool list" where
  "expand us \<equiv> concat (map (\<lambda>(name, len). replicate len name) us)"

definition units_ok :: "(bool \<times> nat) list \<Rightarrow> bool" where
  "units_ok us \<longleftrightarrow> (\<forall>u \<in> set us. 1 \<le> snd u \<and> snd u \<le> 8)"

lemma expand_groupby: "expand (groupby xs) = xs"
  by (induction xs) (auto split: list.split)

lemma split_run_ok: "expand (split_run name len) = replicate len name \<and> units_ok (split_run name len)"
proof (induction name len rule: split_run.induct)
  case (1 name len)
  show ?case
  proof (cases "len > 0")
    case True
    with 1 [OF True refl] show ?thesis
      by (auto simp: split_run.simps [of name len] units_ok_def RLE_LEN_def Let_def min_def simp flip: replicate_add)
  qed (simp add: split_run.simps [of name 0] units_ok_def)
qed

lemma rle_unit_list_ok: "expand (rle_unit_list bitmap) = bitmap" "units_ok (rle_unit_list bitmap)"
proof -
  have "expand (concat (map (\<lambda>(name, len). split_run name len) us)) = expand us" for us
    by (induction us) (auto simp: split_run_ok)
  then show "expand (rle_unit_list bitmap) = bitmap" by (simp add: rle_unit_list_def expand_groupby)
  show "units_ok (rle_unit_list bitmap)" using split_run_ok by (fastforce simp: rle_unit_list_def units_ok_def)
qed

section \<open>Nibbles\<close>

definition nibble :: "bool \<times> nat \<Rightarrow> int" where
  "nibble u = 8 * of_bool (fst u) + (int (snd u) - 1)"

fun unit_bytes :: "(bool \<times> nat) list \<Rightarrow> int list" where
  "unit_bytes [] = []"
| "unit_bytes [u] = [nibble u]"
| "unit_bytes (u # v # us) = (nibble u + 16 * nibble v) # unit_bytes us"

lemma nibble_range: "units_ok [u] \<Longrightarrow> 0 \<le> nibble u \<and> nibble u < 16"
  by (auto simp: nibble_def units_ok_def)

lemma or_shifted: "0 \<le> x \<Longrightarrow> x < 2 ^ n \<Longrightarrow> x OR push_bit n y = x + 2 ^ n * (y :: int)"
  using concat_bit_eq [of n x y] concat_bit_def [of n x y] by (simp add: take_bit_int_eq_self push_bit_eq_mult mult.commute)

lemma pack_pair:
  assumes "units_ok [(name, len), (name2, len2)]"
  shows "struct_pack_B (push_bit 3 (of_bool name) OR (int len - 1) OR push_bit 7 (of_bool name2) OR push_bit 4 (int len2 - 1)) =
     Inr [word_of_int (nibble (name, len) + 16 * nibble (name2, len2))]"
proof -
  have n: "push_bit 3 (of_bool b) OR (int l - 1) = nibble (b, l)" if "1 \<le> l" "l \<le> 8" for b l
    using or_shifted [of "int l - 1" 3 "of_bool b"] that by (simp add: nibble_def or.commute)
  have p: "push_bit 7 y OR push_bit 4 z = push_bit 4 (push_bit 3 y OR z)" for y z :: int
    by (simp add: push_bit_or)
  have r: "0 \<le> nibble (name, len)" "nibble (name, len) < 16" "0 \<le> nibble (name2, len2)" "nibble (name2, len2) < 16"
    using assms nibble_range by (auto simp: units_ok_def)
  have "push_bit 3 (of_bool name) OR (int len - 1) OR push_bit 7 (of_bool name2) OR push_bit 4 (int len2 - 1) =
      nibble (name, len) + 2 ^ 4 * nibble (name2, len2)"
    using assms or_shifted [OF r(1), of 4] r(2) by (simp add: units_ok_def or.assoc p n flip: or.assoc)
  then show ?thesis using r by (simp add: struct_pack_B_def)
qed

lemma nibble_pad: "nibble (False, 1) = 0"
  by (simp add: nibble_def)

lemma pack_units_bytes:
  "units_ok us \<Longrightarrow> pack_units (if length us mod 2 = 1 then us @ [(False, 1)] else us) = Inr (map word_of_int (unit_bytes us))"
proof (induction us rule: unit_bytes.induct)
  case (2 u)
  obtain name len where u: "u = (name, len)" by force
  have "units_ok [(name, len), (False, 1)]" using 2 by (simp add: u units_ok_def)
  from pack_pair [OF this] show ?case by (simp add: u nibble_pad [unfolded One_nat_def])
next
  case (3 u v us)
  obtain name len name2 len2 where uv: "u = (name, len)" "v = (name2, len2)" by force
  have "units_ok [(name, len), (name2, len2)]" "units_ok us" using 3 by (simp_all add: uv units_ok_def)
  with 3 pack_pair [of name len name2 len2] show ?case by (simp add: uv split: if_splits)
qed simp

lemma unit_bytes_range: "units_ok us \<Longrightarrow> \<forall>b \<in> set (unit_bytes us). 0 \<le> b \<and> b \<le> 255"
proof (induction us rule: unit_bytes.induct)
  case (2 u)
  then show ?case using nibble_range [of u] by simp
next
  case (3 u v us)
  then show ?case using nibble_range [of u] nibble_range [of v] by (simp add: units_ok_def)
qed simp

lemma length_unit_bytes: "length (unit_bytes us) = (length us + 1) div 2"
  by (induction us rule: unit_bytes.induct) simp_all

lemma pad_words_eq: "\<exists>n. pad_words bs = bs @ replicate n 0 \<and> length (pad_words bs) = (length bs + 3) div 4 * 4"
proof (induction bs rule: pad_words.induct)
  case (1 bs)
  show ?case
  proof (cases "length bs mod 4 > 0")
    case True
    with 1 obtain n where n: "pad_words (bs @ [0]) = (bs @ [0]) @ replicate n 0"
      "length (pad_words (bs @ [0])) = (length (bs @ [0]) + 3) div 4 * 4" by blast
    have l: "(4 + length bs) div 4 = (length bs + 3) div 4" using True by presburger
    have p: "pad_words bs = pad_words (bs @ [0])" using True by (subst pad_words.simps) simp
    have "pad_words bs = bs @ replicate (Suc n) 0" using n(1) by (simp add: p)
    moreover have "length (pad_words bs) = (length bs + 3) div 4 * 4" unfolding p n(2) by (simp add: l)
    ultimately show ?thesis by blast
  next
    case False
    then have "(length bs + 3) div 4 * 4 = length bs" by presburger
    with False show ?thesis by (simp add: pad_words.simps [of bs])
  qed
qed

lemma compress_units:
  obtains n where "compress_glyph_RLE4 bitmap = Inr (map word_of_int (unit_bytes (rle_unit_list bitmap)) @ replicate n 0, length (rle_unit_list bitmap))"
    "length (unit_bytes (rle_unit_list bitmap)) + n = (length (rle_unit_list bitmap) + 7) div 8 * 4"
proof -
  let ?us = "rle_unit_list bitmap"
  from pad_words_eq [of "map word_of_int (unit_bytes ?us)"] obtain n where
    n: "pad_words (map word_of_int (unit_bytes ?us)) = map word_of_int (unit_bytes ?us) @ replicate n 0"
      "length (unit_bytes ?us) + n = (length (unit_bytes ?us) + 3) div 4 * 4"
    by auto
  have "((length ?us + 1) div 2 + 3) div 4 = (length ?us + 7) div 8" by presburger
  moreover have "compress_glyph_RLE4 bitmap = Inr (pad_words (map word_of_int (unit_bytes ?us)), length ?us)"
    unfolding compress_glyph_RLE4_def Let_def by (simp only: pack_units_bytes rle_unit_list_ok bindE_simps)
  ultimately show ?thesis using n that [of n] by (simp add: length_unit_bytes)
qed

section \<open>Bits and bytes\<close>

abbreviation bits_val :: "bool list \<Rightarrow> int" where
  "bits_val bs \<equiv> horner_sum of_bool 2 bs"

text \<open>A bitmap as the watch holds it: eight pixels to a byte, the first in bit zero.\<close>

function bits_bytes :: "bool list \<Rightarrow> int list" where
  "bits_bytes bs = (if bs = [] then [] else bits_val (take 8 bs) # bits_bytes (drop 8 bs))"
  by pat_completeness auto
termination
  by (relation "measure length") auto

declare bits_bytes.simps [simp del]

lemma bits_bytes_Nil [simp]: "bits_bytes [] = []"
  by (simp add: bits_bytes.simps)

lemma bits_bytes_full:
  "\<forall>f \<in> set F. length f = 8 \<Longrightarrow> length P < 8 \<Longrightarrow>
     bits_bytes (concat F @ P) = map bits_val F @ (if P = [] then [] else [bits_val P])"
proof (induction F)
  case Nil
  then show ?case by (simp add: bits_bytes.simps [of P])
next
  case (Cons f F)
  then have "f \<noteq> []" by auto
  with Cons show ?case by (simp add: bits_bytes.simps [of "f @ _"])
qed

lemma length_bits_bytes: "length (bits_bytes bs) = (length bs + 7) div 8"
proof (induction bs rule: bits_bytes.induct)
  case (1 bs)
  show ?case
  proof (cases "bs = []")
    case False
    then have "(length bs + 7) div 8 = Suc ((length bs - 8 + 7) div 8)" by (cases bs) (simp_all, presburger)
    with 1 [OF False] False show ?thesis by (simp add: bits_bytes.simps [of bs])
  qed simp
qed

lemma bits_val_split: "bits_val bs AND 0xFF = bits_val (take 8 bs)" "drop_bit 8 (bits_val bs) = bits_val (drop 8 bs)"
proof -
  have "bits_val bs AND 0xFF = take_bit 8 (bits_val bs)"
    by (simp add: take_bit_eq_mask mask_eq_exp_minus_1)
  then show "bits_val bs AND 0xFF = bits_val (take 8 bs)" by (simp add: take_bit_horner_sum_bit_eq)
  show "drop_bit 8 (bits_val bs) = bits_val (drop 8 bs)" 
    by (rule bit_eqI) (auto simp: bit_simps)
qed

lemma bits_val_range: "0 \<le> bits_val bs" "bits_val bs < 2 ^ length bs"
  by (simp_all add: horner_sum_of_bool_2_less horner_sum_nonnegative)

lemma bits_val_replicate: "bits_val (bs @ replicate n c) = (if c then bits_val bs OR push_bit (length bs) (push_bit n 1 - 1) else bits_val bs)"
proof -
  have "bits_val (replicate n c) = (if c then 2 ^ n - 1 else 0)"
    by (induction n) (simp_all add: algebra_simps)
  then show ?thesis
    using or_shifted [OF bits_val_range] by (auto simp: horner_sum_append push_bit_eq_mult)
qed

section \<open>The decoder\<close>

text \<open>Bytes written so far, each for eight pixels, and pixels still in the register.\<close>

definition decoded :: "rle_state \<Rightarrow> bool list list \<Rightarrow> bool list \<Rightarrow> bool" where
  "decoded s F P \<longleftrightarrow> (\<forall>f \<in> set F. length f = 8) \<and> length P < 8 \<and> rs_num s = int (length P) \<and> rs_out s = bits_val P \<and>
     rs_dst s = glyph_header_size + length F \<and> length (rs_buf s) = GLYPH_BUFFER_SIZE_BYTES \<and>
     take (length F) (drop glyph_header_size (rs_buf s)) = map bits_val F"

lemma take_drop_update: "a + n < length xs \<Longrightarrow> take (Suc n) (drop a (xs[a + n := x])) = take n (drop a xs) @ [x]"
  by (simp add: take_Suc_conv_app_nth drop_update_swap)

lemma flush_byte_decoded:
  assumes "\<forall>f \<in> set F. length f = 8" "8 \<le> length Q" "length Q < 16" "rs_num s = int (length Q)" "rs_out s = bits_val Q"
    "rs_dst s = glyph_header_size + length F" "length (rs_buf s) = GLYPH_BUFFER_SIZE_BYTES"
    "take (length F) (drop glyph_header_size (rs_buf s)) = map bits_val F" "rs_dst s < GLYPH_BUFFER_SIZE_BYTES"
  shows "decoded (flush_byte s) (F @ [take 8 Q]) (drop 8 Q)"
  using assms take_drop_update [of glyph_header_size "length F" "rs_buf s" "rs_out s AND 0xFF"]
  by (auto simp: decoded_def flush_byte_def bits_val_split)

lemma nibble_fields:
  assumes "units_ok [u]" "unit_pair mod 16 = nibble u"
  shows "drop_bit 3 unit_pair AND 1 = of_bool (fst u)" "nat ((unit_pair AND 0x07) + 1) = snd u"
proof -
  have r: "1 \<le> snd u" "snd u \<le> 8" using assms(1) by (auto simp: units_ok_def)
  have "unit_pair AND 0x07 = unit_pair mod 8"
    using take_bit_eq_mask [of 3 unit_pair] by (simp add: mask_eq_exp_minus_1 take_bit_eq_mod)
  also have "\<dots> = unit_pair mod 16 mod 8" by (simp add: mod_mod_cancel)
  also have "\<dots> = int (snd u) - 1" unfolding assms(2) using r by (simp add: nibble_def)
  finally show "nat ((unit_pair AND 0x07) + 1) = snd u" by simp
  have "drop_bit 3 unit_pair AND 1 = unit_pair div 8 mod 2" by (simp add: drop_bit_eq_div and_one_eq)
  also have "\<dots> = unit_pair mod 16 div 8" using zmod_zmult2_eq [of 2 unit_pair 8] by simp
  also have "\<dots> = of_bool (fst u)" unfolding assms(2) using r by (simp add: nibble_def)
  finally show "drop_bit 3 unit_pair AND 1 = of_bool (fst u)" .
qed

text \<open>One unit: whether it goes through, and what it adds.\<close>

definition room :: "rle_state \<Rightarrow> bool" where
  "room s \<longleftrightarrow> int (rs_dst s) < rs_src s \<and> rs_dst s < GLYPH_BUFFER_SIZE_BYTES"

lemma decode_unit_step:
  assumes s: "decoded s F P" and u: "units_ok [u]" "unit_pair mod 16 = nibble u"
  shows "(8 \<le> length P + snd u \<Longrightarrow> room s) \<Longrightarrow> \<exists>s'. decode_unit unit_pair s = Inr s'"
    and "decode_unit unit_pair s = Inr s' \<Longrightarrow>
      rs_src s' = rs_src s \<and> (\<forall>n. rs_src s \<le> int n \<longrightarrow> drop n (rs_buf s') = drop n (rs_buf s)) \<and>
      (\<exists>F' P'. decoded s' F' P' \<and> concat F' @ P' = concat F @ P @ replicate (snd u) (fst u))"
proof -
  let ?Q = "P @ replicate (snd u) (fst u)"
  define s1 where "s1 = s\<lparr>rs_out := bits_val ?Q, rs_num := int (length ?Q)\<rparr>"
  have run: "decode_unit unit_pair s =
      (if rs_num s1 \<ge> 8 then
         if int (rs_dst s1) \<ge> rs_src s1 then Inl PyException
         else if rs_dst s1 \<ge> GLYPH_BUFFER_SIZE_BYTES then Inl PyException else Inr (flush_byte s1)
       else Inr s1)"
    using s unfolding decode_unit_def Let_def nibble_fields [OF u] s1_def bits_val_replicate
    by (cases "fst u") (simp_all add: decoded_def)
  then show "(8 \<le> length P + snd u \<Longrightarrow> room s) \<Longrightarrow> \<exists>s'. decode_unit unit_pair s = Inr s'"
    by (auto simp: room_def s1_def)
  assume r: "decode_unit unit_pair s = Inr s'"
  have q: "length ?Q < 16" using s u(1) by (simp add: decoded_def units_ok_def)
  show "rs_src s' = rs_src s \<and> (\<forall>n. rs_src s \<le> int n \<longrightarrow> drop n (rs_buf s') = drop n (rs_buf s)) \<and>
      (\<exists>F' P'. decoded s' F' P' \<and> concat F' @ P' = concat F @ P @ replicate (snd u) (fst u))"
  proof (cases "8 \<le> length ?Q")
    case True
    then have s': "s' = flush_byte s1" "int (rs_dst s) < rs_src s" "rs_dst s < GLYPH_BUFFER_SIZE_BYTES"
      using r run by (auto simp: s1_def split: if_splits)
    have "decoded s' (F @ [take 8 ?Q]) (drop 8 ?Q)"
      unfolding s'(1) using True q s s'(3) by (intro flush_byte_decoded) (simp_all add: decoded_def s1_def)
    moreover have "concat (F @ [take 8 ?Q]) @ drop 8 ?Q = concat F @ P @ replicate (snd u) (fst u)"
      using append_take_drop_id [of 8 ?Q] by (simp del: take_append drop_append take_replicate drop_replicate append_take_drop_id)
    moreover have "rs_src s' = rs_src s \<and> (\<forall>n. rs_src s \<le> int n \<longrightarrow> drop n (rs_buf s') = drop n (rs_buf s))"
      using s'(2) by (simp add: s'(1) flush_byte_def s1_def)
    ultimately show ?thesis by blast
  next
    case False
    then have "s' = s1" using r run by (simp add: s1_def)
    moreover have "decoded s1 F ?Q" using s False by (simp add: decoded_def s1_def)
    ultimately show ?thesis by (auto simp: s1_def)
  qed
qed

lemma decoded_src [simp]: "decoded (s\<lparr>rs_src := n\<rparr>) F P = decoded s F P"
  by (simp add: decoded_def)

lemma decode_units_next:
  assumes "rs_src s = int n" "drop n (rs_buf s) = b # bs" "length (rs_buf s) = GLYPH_BUFFER_SIZE_BYTES" "0 < k"
  shows "decode_units k s = bindE (decode_pair (min k 2) b (s\<lparr>rs_src := int (Suc n)\<rparr>)) (decode_units (k - min k 2))"
proof -
  have n: "n < length (rs_buf s)" using assms(2) by (metis drop_all linorder_not_less list.distinct(1))
  then have "rs_buf s ! n = b" using assms(2) by (metis Cons_nth_drop_Suc list.inject)
  with n assms show ?thesis by (subst decode_units.simps) (simp add: py_get_def add.commute)
qed

text \<open>The units of one byte, then all units.\<close>

fun nibbles :: "(bool \<times> nat) list \<Rightarrow> int \<Rightarrow> bool" where
  "nibbles [] b \<longleftrightarrow> True"
| "nibbles (u # us) b \<longleftrightarrow> b mod 16 = nibble u \<and> nibbles us (b div 16)"

definition advances :: "rle_state \<Rightarrow> rle_state \<Rightarrow> bool list \<Rightarrow> bool" where
  "advances s s' D \<longleftrightarrow> rs_src s' = rs_src s \<and> (\<forall>n. rs_src s \<le> int n \<longrightarrow> drop n (rs_buf s') = drop n (rs_buf s)) \<and>
     (\<exists>F P. decoded s' F P \<and> concat F @ P = D)"

lemma length_full: "\<forall>f \<in> set F. length f = 8 \<Longrightarrow> length (concat F) = 8 * length F"
  by (induction F) auto

lemma decoded_room:
  assumes "decoded s F P" "rs_src s = int n" "n \<le> GLYPH_BUFFER_SIZE_BYTES" "8 \<le> length P + m"
    "length (concat F @ P) + m + 8 * glyph_header_size \<le> 8 * n"
  shows "room s"
  using assms length_full [of F] by (auto simp: room_def decoded_def)

lemma expand_Cons: "expand (u # us) = replicate (snd u) (fst u) @ expand us"
  by (simp add: split_beta)

lemma decode_pair_units:
  assumes "decoded s F P" "units_ok us" "nibbles us b"
  shows "decode_pair (length us) b s = Inr s' \<Longrightarrow> advances s s' (concat F @ P @ expand us)"
    and "rs_src s = int n \<Longrightarrow> n \<le> GLYPH_BUFFER_SIZE_BYTES \<Longrightarrow>
      length (concat F @ P @ expand us) + 8 * glyph_header_size \<le> 8 * n \<Longrightarrow> \<exists>s'. decode_pair (length us) b s = Inr s'"
  using assms
proof (induction us arbitrary: s F P b)
  case (Cons u us)
  case 1
  then obtain s1 where s1: "decode_unit b s = Inr s1" "decode_pair (length us) (b div 16) s1 = Inr s'"
    by (auto simp: bindE_Inr_iff drop_bit_eq_div)
  have u: "units_ok [u]" "units_ok us" using 1 by (auto simp: units_ok_def)
  from decode_unit_step(2) [OF 1(2) u(1) _ s1(1)] 1(4) obtain F1 P1 where d: "decoded s1 F1 P1"
    "concat F1 @ P1 = concat F @ P @ replicate (snd u) (fst u)" "rs_src s1 = rs_src s"
    "\<forall>n. rs_src s \<le> int n \<longrightarrow> drop n (rs_buf s1) = drop n (rs_buf s)" by auto
  from Cons(1) [OF s1(2) d(1) u(2)] 1(4) have "advances s1 s' (concat F1 @ P1 @ expand us)" by simp
  then show ?case using d unfolding advances_def expand_Cons by (simp flip: append_assoc)
next
  case (Cons u us)
  case 2
  have u: "units_ok [u]" "units_ok us" using 2 by (auto simp: units_ok_def)
  have "\<exists>s1. decode_unit b s = Inr s1"
  proof (rule decode_unit_step(1) [OF 2(4) u(1)])
    show "b mod 16 = nibble u" using 2(6) by simp
    assume "8 \<le> length P + snd u"
    with decoded_room [OF 2(4,1,2) this] 2(3) show "room s" by (simp add: split_beta)
  qed
  then obtain s1 where s1: "decode_unit b s = Inr s1" ..
  from decode_unit_step(2) [OF 2(4) u(1) _ s1] 2(6) obtain F1 P1 where d: "decoded s1 F1 P1"
    "concat F1 @ P1 = concat F @ P @ replicate (snd u) (fst u)" "rs_src s1 = rs_src s" by auto
  have "length (concat F1 @ P1 @ expand us) + 8 * glyph_header_size \<le> 8 * n"
    using 2(3) arg_cong [OF d(2), of length] unfolding expand_Cons by simp
  from Cons(2) [OF _ 2(2) this d(1) u(2)] 2(1,6) d(3) s1 show ?case by (auto simp: drop_bit_eq_div)
qed (auto simp: advances_def)

text \<open>The first byte of a list of units holds one or two of them.\<close>

lemma unit_bytes_Cons:
  assumes "units_ok us" "us \<noteq> []"
  shows "\<exists>b. unit_bytes us = b # unit_bytes (drop 2 us) \<and> nibbles (take 2 us) b"
proof -
  obtain u vs where us: "us = u # vs" using assms(2) by (cases us) auto
  show ?thesis
  proof (cases vs)
    case Nil
    with us assms nibble_range [of u] show ?thesis by simp
  next
    case (Cons v ws)
    have "0 \<le> nibble u" "nibble u < 16" "0 \<le> nibble v" "nibble v < 16"
      using assms(1) nibble_range [of u] nibble_range [of v] by (auto simp: us Cons units_ok_def)
    then show ?thesis by (simp add: us Cons)
  qed
qed

lemma decode_units_step:
  assumes "length (rs_buf s) = GLYPH_BUFFER_SIZE_BYTES" "units_ok us" "us \<noteq> []"
    "rs_src s = int n" "drop n (rs_buf s) = unit_bytes us @ rest"
  obtains b where "nibbles (take 2 us) b" "n < GLYPH_BUFFER_SIZE_BYTES" "drop (Suc n) (rs_buf s) = unit_bytes (drop 2 us) @ rest"
    "decode_units (length us) s =
       bindE (decode_pair (length (take 2 us)) b (s\<lparr>rs_src := int (Suc n)\<rparr>)) (decode_units (length (drop 2 us)))"
proof -
  from unit_bytes_Cons [OF assms(2,3)] obtain b where
    b: "unit_bytes us = b # unit_bytes (drop 2 us)" "nibbles (take 2 us) b" by blast
  have "drop (Suc n) (rs_buf s) = unit_bytes (drop 2 us) @ rest"
    using assms(5) b(1) by (metis append_Cons drop_Suc list.sel(3) tl_drop)
  moreover have "n < GLYPH_BUFFER_SIZE_BYTES"
    using assms(1,5) b(1) by (metis append_Cons drop_all linorder_not_less list.distinct(1))
  moreover have "decode_units (length us) s =
       bindE (decode_pair (length (take 2 us)) b (s\<lparr>rs_src := int (Suc n)\<rparr>)) (decode_units (length (drop 2 us)))"
    using decode_units_next [OF assms(4) _ assms(1), of b "unit_bytes (drop 2 us) @ rest" "length us"] assms(3,5) b(1)
    by (auto simp: min_def)
  ultimately show ?thesis using that b(2) by blast
qed

lemma expand_split: "expand us = expand (take 2 us) @ expand (drop 2 us)"
  by (metis append_take_drop_id concat_append map_append)

lemma units_ok_split: "units_ok us \<Longrightarrow> units_ok (take 2 us) \<and> units_ok (drop 2 us)"
  by (auto simp: units_ok_def dest: in_set_takeD in_set_dropD)

lemma decode_units_run:
  assumes "decoded s F P" "units_ok us" "rs_src s = int n" "drop n (rs_buf s) = unit_bytes us @ rest"
    "decode_units (length us) s = Inr s'"
  shows "\<exists>F' P'. decoded s' F' P' \<and> concat F' @ P' = concat F @ P @ expand us"
  using assms
proof (induction us arbitrary: s F P n rule: length_induct)
  case (1 us)
  show ?case
  proof (cases "us = []")
    case True
    then show ?thesis using 1(2,6) by (auto simp: decode_units.simps [of 0])
  next
    case False
    have len: "length (rs_buf s) = GLYPH_BUFFER_SIZE_BYTES" using 1(2) by (simp add: decoded_def)
    let ?s = "s\<lparr>rs_src := int (Suc n)\<rparr>"
    from decode_units_step [OF len 1(3) False 1(4,5)] obtain b where b: "nibbles (take 2 us) b"
      "drop (Suc n) (rs_buf s) = unit_bytes (drop 2 us) @ rest"
      "decode_units (length us) s = bindE (decode_pair (length (take 2 us)) b ?s) (decode_units (length (drop 2 us)))" .
    from 1(6) b(3) obtain t where t: "decode_pair (length (take 2 us)) b ?s = Inr t" "decode_units (length (drop 2 us)) t = Inr s'"
      by (auto simp: bindE_Inr_iff simp del: length_take length_drop)
    from decode_pair_units(1) [OF _ _ b(1) t(1), of F P] 1(2,3) b(2) obtain F1 P1 where f: "decoded t F1 P1"
      "concat F1 @ P1 = concat F @ P @ expand (take 2 us)" "rs_src t = int (Suc n)"
      "drop (Suc n) (rs_buf t) = unit_bytes (drop 2 us) @ rest"
      by (auto simp: advances_def units_ok_split)
    have "length (drop 2 us) < length us" using False by (cases us) auto
    with 1(1) f t(2) units_ok_split [OF 1(3)] have "\<exists>F' P'. decoded s' F' P' \<and> concat F' @ P' = concat F1 @ P1 @ expand (drop 2 us)"
      by blast
    then show ?thesis using f(2) expand_split [of us] by (metis append_assoc)
  qed
qed

text \<open>If the encoded and the decoded glyph fit beside one another, decoding goes through.\<close>

lemma decode_units_fits:
  assumes "decoded s F P" "units_ok us" "rs_src s = int n" "drop n (rs_buf s) = unit_bytes us @ rest"
    "length (concat F @ P @ expand us) + 8 * glyph_header_size \<le> 8 * n"
  shows "\<exists>s'. decode_units (length us) s = Inr s'"
  using assms
proof (induction us arbitrary: s F P n rule: length_induct)
  case (1 us)
  show ?case
  proof (cases "us = []")
    case True
    then show ?thesis by (simp add: decode_units.simps [of 0])
  next
    case False
    have len: "length (rs_buf s) = GLYPH_BUFFER_SIZE_BYTES" using 1(2) by (simp add: decoded_def)
    let ?s = "s\<lparr>rs_src := int (Suc n)\<rparr>"
    from decode_units_step [OF len 1(3) False 1(4,5)] obtain b where b: "nibbles (take 2 us) b" "n < GLYPH_BUFFER_SIZE_BYTES"
      "drop (Suc n) (rs_buf s) = unit_bytes (drop 2 us) @ rest"
      "decode_units (length us) s = bindE (decode_pair (length (take 2 us)) b ?s) (decode_units (length (drop 2 us)))" .
    have "length (concat F @ P @ expand (take 2 us)) \<le> length (concat F @ P @ expand us)"
      unfolding expand_split [of us] by (simp del: length_concat)
    from le_trans [OF add_le_mono1 [OF this] 1(6)]
    have "length (concat F @ P @ expand (take 2 us)) + 8 * glyph_header_size \<le> 8 * Suc n"
      by (rule le_trans) simp
    with decode_pair_units(2) [OF _ _ b(1), of ?s F P "Suc n"] 1(2,3) b(2) obtain t where
      t: "decode_pair (length (take 2 us)) b ?s = Inr t" by (auto simp: units_ok_split)
    from decode_pair_units(1) [OF _ _ b(1) t, of F P] 1(2,3) b(3) obtain F1 P1 where f: "decoded t F1 P1"
      "concat F1 @ P1 = concat F @ P @ expand (take 2 us)" "rs_src t = int (Suc n)"
      "drop (Suc n) (rs_buf t) = unit_bytes (drop 2 us) @ rest"
      by (auto simp: advances_def units_ok_split)
    have "concat F1 @ P1 @ expand (drop 2 us) = concat F @ P @ expand us"
      using f(2) expand_split [of us] by (metis append_assoc)
    with 1(6) have "length (concat F1 @ P1 @ expand (drop 2 us)) + 8 * glyph_header_size \<le> 8 * Suc n" by simp
    moreover have "length (drop 2 us) < length us" using False by (cases us) auto
    ultimately have "\<exists>s'. decode_units (length (drop 2 us)) t = Inr s'" using 1(1) f units_ok_split [OF 1(3)] by blast
    then show ?thesis unfolding b(4) t bindE_simps .
  qed
qed

lemma flush_rest_decoded:
  assumes "decoded s F P"
  shows "flush_rest s = Inr s' \<Longrightarrow>
      take (length (bits_bytes (concat F @ P))) (drop glyph_header_size (rs_buf s')) = bits_bytes (concat F @ P)"
    and "P = [] \<or> rs_dst s < GLYPH_BUFFER_SIZE_BYTES \<Longrightarrow> \<exists>s'. flush_rest s = Inr s'"
proof -
  have F: "\<forall>f \<in> set F. length f = 8" "length P < 8" using assms by (auto simp: decoded_def)
  have run: "flush_rest s = (if P = [] then Inr s else if rs_dst s < GLYPH_BUFFER_SIZE_BYTES then Inr (flush_byte s) else Inl IndexError)"
  proof (cases "P = []")
    case True
    then show ?thesis using assms by (subst flush_rest.simps) (simp add: decoded_def)
  next
    case False
    have "flush_rest (flush_byte s) = Inr (flush_byte s)"
      using assms by (subst flush_rest.simps) (simp add: decoded_def flush_byte_def)
    then show ?thesis using False assms by (subst flush_rest.simps) (simp add: decoded_def)
  qed
  then show "P = [] \<or> rs_dst s < GLYPH_BUFFER_SIZE_BYTES \<Longrightarrow> \<exists>s'. flush_rest s = Inr s'" by auto
  assume "flush_rest s = Inr s'"
  then show "take (length (bits_bytes (concat F @ P))) (drop glyph_header_size (rs_buf s')) = bits_bytes (concat F @ P)"
    using assms run take_drop_update [of glyph_header_size "length F" "rs_buf s" "rs_out s AND 0xFF"]
    by (auto simp: bits_bytes_full [OF F] decoded_def flush_byte_def bits_val_split split: if_splits)
qed

section \<open>Round trip\<close>

lemma compress_Inr:
  assumes "compress_glyph_RLE4 bitmap = Inr (enc, n)"
  shows "\<exists>k. enc = map word_of_int (unit_bytes (rle_unit_list bitmap)) @ replicate k 0 \<and>
     n = length (rle_unit_list bitmap) \<and> length enc = (n + 7) div 8 * 4"
proof -
  obtain k where "compress_glyph_RLE4 bitmap = Inr (map word_of_int (unit_bytes (rle_unit_list bitmap)) @ replicate k 0, length (rle_unit_list bitmap))"
    "length (unit_bytes (rle_unit_list bitmap)) + k = (length (rle_unit_list bitmap) + 7) div 8 * 4"
    by (rule compress_units)
  with assms show ?thesis by auto
qed

text \<open>The start of decoding, for the output of the compressor.\<close>

lemma decode_start:
  assumes c: "compress_glyph_RLE4 bitmap = Inr (enc, n)" and len: "length enc \<le> GLYPH_BUFFER_SIZE_BYTES"
    and p: "enc \<noteq> []"
  obtains rest where "n = length (rle_unit_list bitmap)"
    "decoded \<lparr>rs_src = int GLYPH_BUFFER_SIZE_BYTES - int (length enc), rs_dst = glyph_header_size,
       rs_buf = set_tail (replicate GLYPH_BUFFER_SIZE_BYTES 0) (length enc) (map uint enc), rs_num = 0, rs_out = 0\<rparr> [] []"
    "drop (GLYPH_BUFFER_SIZE_BYTES - length enc)
       (set_tail (replicate GLYPH_BUFFER_SIZE_BYTES 0) (length enc) (map uint enc)) = unit_bytes (rle_unit_list bitmap) @ rest"
proof -
  from compress_Inr [OF c] obtain k where enc: "enc = map word_of_int (unit_bytes (rle_unit_list bitmap)) @ replicate k 0"
    and n: "n = length (rle_unit_list bitmap)" by blast
  have "map (uint \<circ> (word_of_int :: int \<Rightarrow> u8)) (unit_bytes (rle_unit_list bitmap)) = unit_bytes (rle_unit_list bitmap)"
    using unit_bytes_range [OF rle_unit_list_ok(2)] by (intro map_idI) (simp add: uint_byte)
  then have m: "map uint enc = unit_bytes (rle_unit_list bitmap) @ replicate k 0" by (simp add: enc)
  have "length (unit_bytes (rle_unit_list bitmap)) + k = length enc" by (simp add: enc)
  with n len p m that [of "replicate k 0"] show ?thesis
    by (simp add: decoded_def set_tail_def)
qed

lemma compress_length:
  assumes c: "compress_glyph_RLE4 bitmap = Inr (enc, n)" and "n \<le> 255" "bitmap \<noteq> []"
  shows "length enc = (n + 7) div 8 * 4" "length enc \<le> GLYPH_BUFFER_SIZE_BYTES" "enc \<noteq> []"
proof -
  note e = compress_Inr [OF c]
  then show l: "length enc = (n + 7) div 8 * 4" by blast
  then show "length enc \<le> GLYPH_BUFFER_SIZE_BYTES" using assms(2) by (simp add: GLYPH_BUFFER_SIZE_BYTES_def)
  have "n \<noteq> 0" using e assms(3) rle_unit_list_ok(1) [of bitmap] by auto
  with l show "enc \<noteq> []" by auto
qed

text \<open>A glyph that passes the check has been decoded to its bitmap, in place.\<close>

lemma decode_in_place_correct:
  assumes c: "compress_glyph_RLE4 bitmap = Inr (enc, n)" and "n \<le> 255" "bitmap \<noteq> []"
    and run: "decode_in_place enc n = Inr s"
  shows "take (length (bits_bytes bitmap)) (drop glyph_header_size (rs_buf s)) = bits_bytes bitmap"
proof -
  note l = compress_length [OF assms(1-3)]
  let ?n = "GLYPH_BUFFER_SIZE_BYTES - length enc"
  let ?s = "\<lparr>rs_src = int GLYPH_BUFFER_SIZE_BYTES - int (length enc), rs_dst = glyph_header_size,
       rs_buf = set_tail (replicate GLYPH_BUFFER_SIZE_BYTES 0) (length enc) (map uint enc), rs_num = 0, rs_out = 0\<rparr>"
  obtain rest where st: "n = length (rle_unit_list bitmap)" "decoded ?s [] []"
    "drop ?n (rs_buf ?s) = unit_bytes (rle_unit_list bitmap) @ rest"
    using decode_start [OF c l(2,3)] by auto
  from run obtain t where t: "decode_units n ?s = Inr t" "flush_rest t = Inr s"
    by (auto simp: decode_in_place_def bindE_Inr_iff)
  have "rs_src ?s = int ?n" using l(2) by simp
  from decode_units_run [OF st(2) rle_unit_list_ok(2) this st(3)] t(1) obtain F P where
    d: "decoded t F P" "concat F @ P = bitmap" by (auto simp: st(1) rle_unit_list_ok(1))
  from flush_rest_decoded(1) [OF d(1) t(2)] show ?thesis by (simp only: d(2))
qed

text \<open>It passes when the two forms of it fit the buffer together.\<close>

lemma decode_in_place_fits:
  assumes c: "compress_glyph_RLE4 bitmap = Inr (enc, n)" and "n \<le> 255" "bitmap \<noteq> []"
    and fits: "glyph_header_size + (length bitmap + 7) div 8 + length enc \<le> GLYPH_BUFFER_SIZE_BYTES"
  shows "check_decompress_glyph_RLE4 enc n = Inr True"
proof -
  note l = compress_length [OF assms(1-3)]
  let ?n = "GLYPH_BUFFER_SIZE_BYTES - length enc"
  let ?s = "\<lparr>rs_src = int GLYPH_BUFFER_SIZE_BYTES - int (length enc), rs_dst = glyph_header_size,
       rs_buf = set_tail (replicate GLYPH_BUFFER_SIZE_BYTES 0) (length enc) (map uint enc), rs_num = 0, rs_out = 0\<rparr>"
  obtain rest where st: "n = length (rle_unit_list bitmap)" "decoded ?s [] []"
    "drop ?n (rs_buf ?s) = unit_bytes (rle_unit_list bitmap) @ rest"
    using decode_start [OF c l(2,3)] by auto
  have src: "rs_src ?s = int ?n" using l(2) by simp
  have m: "length bitmap + 8 * glyph_header_size \<le> 8 * ?n"
  proof -
    have "length bitmap \<le> 8 * ((length bitmap + 7) div 8)" by presburger
    with fits show ?thesis by linarith
  qed
  then have "\<exists>t. decode_units n ?s = Inr t"
    unfolding st(1) by (intro decode_units_fits [OF st(2) rle_unit_list_ok(2) src st(3)]) (simp add: rle_unit_list_ok(1))
  then obtain t where t: "decode_units n ?s = Inr t" ..
  from decode_units_run [OF st(2) rle_unit_list_ok(2) src st(3)] t obtain F P where
    d: "decoded t F P" "concat F @ P = bitmap" by (auto simp: st(1) rle_unit_list_ok(1))
  have "P = [] \<or> rs_dst t < GLYPH_BUFFER_SIZE_BYTES"
  proof (cases P)
    case (Cons x xs)
    have "8 * length F + length P = length bitmap"
      using arg_cong [OF d(2), of length] length_full [of F] d(1) by (simp add: decoded_def)
    with m Cons have "glyph_header_size + length F < ?n" by simp
    then have "glyph_header_size + length F < GLYPH_BUFFER_SIZE_BYTES" by linarith
    then show ?thesis using d(1) by (simp add: decoded_def)
  qed simp
  from flush_rest_decoded(2) [OF d(1) this] t show ?thesis
    by (auto simp: check_decompress_glyph_RLE4_def decode_in_place_def)
qed

end
