(* ===== verification/Fontgen.thy ===== *)
theory Fontgen
  imports Rle4
begin

text \<open>
  The font generator \<^verbatim>\<open>pebblesdk/fontgen.py\<close>: glyphs as bytes and the tables of a font file.  The
  FreeType library is a parameter: the glyph slots it renders and the character map it lists.  So are
  the edited bitmaps that replace rendered ones.  The theory shows that what the generator writes is what
  \<open>font_read\<close> of \<^verbatim>\<open>pfo_merge.py\<close> reads.
\<close>

section \<open>Glyphs\<close>

definition WILDCARD_CODEPOINT :: int where
  "WILDCARD_CODEPOINT = 0x25AF"

definition ELLIPSIS_CODEPOINT :: int where
  "ELLIPSIS_CODEPOINT = 0x2026"

definition MAX_2_BYTES_CODEPOINT :: int where
  "MAX_2_BYTES_CODEPOINT = 0xffff"

definition FEATURE_OFFSET_16 :: int where
  "FEATURE_OFFSET_16 = 1"

definition FEATURE_RLE4 :: int where
  "FEATURE_RLE4 = 2"

text \<open>A glyph slot of FreeType, and an edited bitmap with its first line.\<close>

record ft_glyph =
  ft_width :: nat
  ft_rows :: nat
  ft_pitch :: nat
  ft_buffer :: "u8 list"
  ft_left :: int
  ft_top :: int
  ft_advance_x :: int
  ft_pixel_mode :: int

record glyph_file =
  gf_width :: int
  gf_height :: int
  gf_left :: int
  gf_bottom :: int
  gf_advance :: int
  gf_rows :: string

text \<open>\<^verbatim>\<open>"zwg"\<close> stands for the glyph of width zero.\<close>

datatype glyph_index = ZERO_WIDTH_GLYPH_INDEX | Glyph_Index int

record fontgen =
  fg_version :: int
  fg_max_height :: int
  tracking_adjust :: int
  fg_regex :: "(int \<Rightarrow> bool) option"
  fg_codepoints :: "int \<Rightarrow> bool"
  max_glyphs :: nat
  fg_features :: int
  codepoints_map :: "(int \<times> int) list"
  zero_width_codepts :: "int list"
  fg_shift :: "int \<times> int"
  fg_threshold :: int

definition set_compression :: "string \<Rightarrow> fontgen \<Rightarrow> py_error + fontgen" where
  "set_compression engine f =
     (if fg_version f \<noteq> 3 then Inl PyException
      else if engine = ''RLE4'' then Inr (f\<lparr>fg_features := fg_features f OR FEATURE_RLE4\<rparr>)
      else Inl PyException)"

definition bits :: "u8 \<Rightarrow> bool list" where
  "bits x = map (bit x) (rev [0 ..< 8])"

text \<open>One bit per pixel, rows padded to bytes, or one byte per pixel.\<close>

definition glyph_bitmap :: "int \<Rightarrow> ft_glyph \<Rightarrow> py_error + bool list" where
  "glyph_bitmap threshold g =
     (if ft_pixel_mode g = 1 then
        if ft_rows g * ft_pitch g \<le> length (ft_buffer g) then
          Inr (concat (map (\<lambda>i. take (ft_width g) (concat (map (\<lambda>j. bits (ft_buffer g ! (i * ft_pitch g + j))) [0 ..< ft_pitch g])))
                 [0 ..< ft_rows g]))
        else Inl IndexError
      else if ft_pixel_mode g = 2 then Inr (map (\<lambda>val. uint val > threshold) (ft_buffer g))
      else Inl PyException)"

text \<open>\<^verbatim>\<open>w |= bit << index\<close> over a group of 32 pixels, and the groups.\<close>

fun or_bits :: "nat \<Rightarrow> bool list \<Rightarrow> int \<Rightarrow> int" where
  "or_bits i [] w = w"
| "or_bits i (b # bs) w = or_bits (Suc i) bs (w OR push_bit i (of_bool b))"

function pack_words :: "bool list \<Rightarrow> py_error + u8 list" where
  "pack_words bs =
     (if bs = [] then Inr []
      else bindE (struct_pack_I (or_bits 0 (take 32 bs) 0)) (\<lambda>w. bindE (pack_words (drop 32 bs)) (\<lambda>ws. Inr (w @ ws))))"
  by pat_completeness auto
termination
  by (relation "measure length") auto

declare pack_words.simps [simp del]

definition struct_pack_header :: "int \<Rightarrow> int \<Rightarrow> int \<Rightarrow> int \<Rightarrow> int \<Rightarrow> py_error + u8 list" where
  "struct_pack_header w h l b a =
     bindE (struct_pack_B w) (\<lambda>w. bindE (struct_pack_B h) (\<lambda>h. bindE (struct_pack_b l) (\<lambda>l.
     bindE (struct_pack_b b) (\<lambda>b. bindE (struct_pack_b a) (\<lambda>a. Inr (w @ h @ l @ b @ a))))))"

text \<open>The glyph as rendered, or as an edited file has it.\<close>

definition collect_glyph :: "fontgen \<Rightarrow> glyph_file option \<Rightarrow> ft_glyph \<Rightarrow> py_error + (int \<times> int \<times> int \<times> int \<times> int \<times> bool list)" where
  "collect_glyph f file g =
     bindE (glyph_bitmap (fg_threshold f) g) (\<lambda>bitmap.
       case file of
         None \<Rightarrow> Inr (int (ft_width g), int (ft_rows g), ft_left g, fg_max_height f - ft_top g,
                   ft_advance_x g div 64 + tracking_adjust f, bitmap)
       | Some d \<Rightarrow>
           let bitmap_str = filter (\<lambda>c. c \<noteq> CHR 0x0A) (gf_rows d) in
           if int (length bitmap_str) = gf_width d * gf_height d
           then Inr (gf_width d, gf_height d, gf_left d, gf_bottom d, gf_advance d, map (\<lambda>c. c = CHR ''#'') bitmap_str)
           else Inl AssertionError)"

definition pack_glyph :: "int \<Rightarrow> int \<Rightarrow> bool list \<Rightarrow> py_error + int \<times> u8 list" where
  "pack_glyph features height bitmap =
     (if features AND FEATURE_RLE4 \<noteq> 0 then
        bindE (compress_glyph_RLE4 bitmap) (\<lambda>(glyph_packed, num_units).
          if num_units > 255 then Inl PyException
          else bindE (check_decompress_glyph_RLE4 glyph_packed num_units) (\<lambda>_. Inr (int num_units, glyph_packed)))
      else bindE (pack_words bitmap) (\<lambda>ws. Inr (height, ws)))"

definition glyph_bits :: "fontgen \<Rightarrow> (int \<Rightarrow> ft_glyph) \<Rightarrow> (int \<Rightarrow> int \<Rightarrow> glyph_file option) \<Rightarrow> int \<Rightarrow> glyph_index \<Rightarrow> py_error + u8 list" where
  "glyph_bits f load_glyph files codepoint gindex =
     (case gindex of
        ZERO_WIDTH_GLYPH_INDEX \<Rightarrow> struct_pack_header 0 0 0 0 0
      | Glyph_Index gi \<Rightarrow>
          let g = load_glyph gi in
          bindE (if ft_rows g \<noteq> 0 \<and> ft_width g \<noteq> 0 then
                   bindE (collect_glyph f (files codepoint gi) g) (\<lambda>(width, height, left, bottom, advance, bitmap).
                   bindE (pack_glyph (fg_features f) height bitmap) (\<lambda>(height, glyph_packed).
                     Inr (width, height, left, bottom, advance, glyph_packed)))
                 else Inr (int (ft_width g), int (ft_rows g), ft_left g, fg_max_height f - ft_top g,
                        ft_advance_x g div 64 + tracking_adjust f, []))
            (\<lambda>(width, height, left, bottom, advance, glyph_packed).
               bindE (struct_pack_header width height (left + fst (fg_shift f)) (bottom + snd (fg_shift f)) advance)
                 (\<lambda>header. Inr (header @ glyph_packed))))"

section \<open>Tables\<close>

record build =
  bt_table :: "u8 list"
  bt_next :: nat
  bt_lookup :: "glyph_index \<rightharpoonup> nat"
  bt_bytes :: nat
  bt_count :: nat
  bt_entries :: "(int \<times> int) list"

text \<open>\<open>add_glyph\<close> and the entry its callers append.\<close>

definition add_entry ::
  "(int \<Rightarrow> glyph_index \<Rightarrow> py_error + u8 list) \<Rightarrow> int \<Rightarrow> glyph_index \<Rightarrow> build \<Rightarrow> py_error + build" where
  "add_entry render codepoint gindex s =
     bindE (case bt_lookup s gindex of
              None \<Rightarrow> bindE (render codepoint gindex) (\<lambda>b.
                Inr (bt_next s, s\<lparr>bt_lookup := (bt_lookup s)(gindex \<mapsto> bt_next s), bt_table := bt_table s @ b, bt_next := bt_next s + length b\<rparr>))
            | Some offset \<Rightarrow> Inr (offset, s))
       (\<lambda>(offset, s).
          Inr (s\<lparr>bt_bytes := (if codepoint > MAX_2_BYTES_CODEPOINT then 4 else bt_bytes s), bt_count := bt_count s + 1,
                 bt_entries := bt_entries s @ [(codepoint, int offset)]\<rparr>))"

definition codepoint_is_in_subset :: "fontgen \<Rightarrow> int \<Rightarrow> bool" where
  "codepoint_is_in_subset f codepoint \<longleftrightarrow>
     codepoint \<in> {WILDCARD_CODEPOINT, ELLIPSIS_CODEPOINT} \<or>
     (case fg_regex f of None \<Rightarrow> True | Some r \<Rightarrow> r codepoint) \<and> fg_codepoints f codepoint"

fun add_entries ::
  "(int \<Rightarrow> glyph_index \<Rightarrow> py_error + u8 list) \<Rightarrow> (int \<times> glyph_index) list \<Rightarrow> build \<Rightarrow> py_error + build" where
  "add_entries render [] s = Inr s"
| "add_entries render ((codepoint, gindex) # es) s =
     bindE (add_entry render codepoint gindex s) (add_entries render es)"

text \<open>
  The loop over the character map.  \<^verbatim>\<open>codepoint is WILDCARD_CODEPOINT\<close> compares objects, not numbers, and
  does not hold of a code point the library has just returned; the other test repeats the loop condition.
\<close>

fun add_chars ::
  "fontgen \<Rightarrow> (int \<Rightarrow> glyph_index \<Rightarrow> py_error + u8 list) \<Rightarrow> (int \<times> int) list \<Rightarrow> build \<Rightarrow> py_error + build" where
  "add_chars f render [] s = Inr s"
| "add_chars f render ((codepoint, gindex) # cs) s =
     (if bt_count s > max_glyphs f then Inr s
      else if codepoint_is_in_subset f codepoint
      then bindE (add_entry render codepoint (Glyph_Index gindex) s) (add_chars f render cs)
      else add_chars f render cs s)"

definition gather :: "fontgen \<Rightarrow> (int \<Rightarrow> glyph_index \<Rightarrow> py_error + u8 list) \<Rightarrow> (int \<times> int) list \<Rightarrow> py_error + build" where
  "gather f render charmap =
     bindE (add_entry render WILDCARD_CODEPOINT (Glyph_Index 0)
              \<lparr>bt_table = [0, 0, 0, 0], bt_next = 4, bt_lookup = Map.empty, bt_bytes = 2, bt_count = 0, bt_entries = []\<rparr>) (\<lambda>s.
     bindE (add_entries render (map (\<lambda>c. (c, ZERO_WIDTH_GLYPH_INDEX)) (zero_width_codepts f)) s) (\<lambda>s.
       if codepoints_map f = [] then add_chars f render charmap s
       else add_entries render (map (\<lambda>(c, g). (c, Glyph_Index g)) (sort_key fst (codepoints_map f))) s))"

definition pack_entry :: "nat \<Rightarrow> bool \<Rightarrow> int \<times> int \<Rightarrow> py_error + u8 list" where
  "pack_entry codepoint_bytes wide p =
     bindE (if codepoint_bytes = 4 then struct_pack_I (fst p) else struct_pack_H (fst p)) (\<lambda>a.
     bindE (if wide then struct_pack_I (snd p) else struct_pack_H (snd p)) (\<lambda>b. Inr (a @ b)))"

definition hasher :: "int \<Rightarrow> nat" where
  "hasher codepoint = nat (codepoint mod 255)"

fun build_offset_tables :: "nat \<Rightarrow> bool \<Rightarrow> (int \<times> int) list \<Rightarrow> u8 list list \<Rightarrow> nat list \<Rightarrow> py_error + u8 list list \<times> nat list" where
  "build_offset_tables codepoint_bytes wide [] tables bucket_sizes = Inr (tables, bucket_sizes)"
| "build_offset_tables codepoint_bytes wide (p # ps) tables bucket_sizes =
     bindE (pack_entry codepoint_bytes wide p) (\<lambda>b.
       let h = hasher (fst p) in
       build_offset_tables codepoint_bytes wide ps (tables[h := tables ! h @ b]) (bucket_sizes[h := bucket_sizes ! h + 1]))"

fun build_hash_table :: "nat \<Rightarrow> nat list \<Rightarrow> nat list \<Rightarrow> int \<Rightarrow> py_error + u8 list" where
  "build_hash_table entry_size bucket_sizes [] acc = Inr []"
| "build_hash_table entry_size bucket_sizes (i # js) acc =
     bindE (struct_pack_B (int i)) (\<lambda>a. bindE (struct_pack_B (int (bucket_sizes ! i))) (\<lambda>b. bindE (struct_pack_H acc) (\<lambda>c.
     bindE (build_hash_table entry_size bucket_sizes js (acc + int (bucket_sizes ! i * entry_size))) (\<lambda>bs. Inr (a @ b @ c @ bs)))))"

definition fontinfo_bits :: "fontgen \<Rightarrow> int \<Rightarrow> build \<Rightarrow> py_error + u8 list" where
  "fontinfo_bits f features s =
     bindE (struct_pack_B (fg_version f)) (\<lambda>v. bindE (struct_pack_B (fg_max_height f)) (\<lambda>h.
     bindE (struct_pack_H (int (bt_count s))) (\<lambda>n. bindE (struct_pack_H WILDCARD_CODEPOINT) (\<lambda>w.
     bindE (if fg_version f = 2 then Inr [] else bindE (struct_pack_B features) (\<lambda>x. Inr (10 # x))) (\<lambda>x.
       Inr (v @ h @ n @ w @ [255, word_of_nat (bt_bytes s)] @ x))))))"

text \<open>\<open>build_tables\<close> and \<open>bitstring\<close>: the font file.\<close>

definition convert_to_pfo :: "fontgen \<Rightarrow> (int \<Rightarrow> ft_glyph) \<Rightarrow> (int \<Rightarrow> int \<Rightarrow> glyph_file option) \<Rightarrow> (int \<times> int) list \<Rightarrow> py_error + u8 list" where
  "convert_to_pfo f load_glyph files charmap =
     bindE (gather f (glyph_bits f load_glyph files) charmap) (\<lambda>s.
       let short = (fg_version f = 3 \<and> length (bt_table s) < 65536);
           features = (if short then fg_features f OR FEATURE_OFFSET_16 else fg_features f) in
       bindE (build_offset_tables (bt_bytes s) (\<not> short) (sort_key fst (bt_entries s)) (replicate 255 []) (replicate 255 0)) (\<lambda>(tables, bucket_sizes).
       bindE (build_hash_table ((if short then 2 else 4) + bt_bytes s) bucket_sizes [0 ..< 255] 0) (\<lambda>hash_table.
       bindE (fontinfo_bits f features s) (\<lambda>info.
         Inr (info @ hash_table @ concat tables @ bt_table s)))))"

section \<open>Glyph data\<close>

lemma or_bits_val: "0 \<le> w \<Longrightarrow> w < 2 ^ i \<Longrightarrow> or_bits i bs w = w + 2 ^ i * bits_val bs"
proof (induction bs arbitrary: i w)
  case (Cons b bs)
  have "w OR push_bit i (of_bool b) = w + 2 ^ i * of_bool b" by (rule or_shifted [OF Cons.prems])
  moreover have "w + 2 ^ i * of_bool b < 2 ^ Suc i" "0 \<le> w + 2 ^ i * of_bool b" using Cons.prems by (cases b; simp)+
  ultimately show ?case using Cons.IH [of "w + 2 ^ i * of_bool b" "Suc i"] by (simp add: algebra_simps)
qed simp

lemma words_step: "n > 0 \<Longrightarrow> (n + 31) div 32 = Suc ((n - 32 + 31) div 32)"
proof -
  assume "n > 0"
  show ?thesis
  proof (cases "n \<le> 32")
    case True
    with \<open>n > 0\<close> obtain k where "n = Suc k" "k < 32" by (cases n) auto
    then show ?thesis by simp
  next
    case False
    then obtain k where "n = k + 32" by (metis add.commute le_Suc_ex nat_le_linear)
    moreover have "(k + 31 + 32) div 32 = Suc ((k + 31) div 32)" by simp
    ultimately show ?thesis by (simp add: add.commute add.left_commute)
  qed
qed

lemma pack_words_Inr: "\<exists>ws. pack_words bs = Inr ws \<and> length ws = (length bs + 31) div 32 * 4"
proof (induction bs rule: pack_words.induct)
  case (1 bs)
  show ?case
  proof (cases "bs = []")
    case False
    have "bits_val (take 32 bs) < 2 ^ 32"
      using power_increasing [of "min (length bs) 32" 32 "2 :: int"] by (intro less_le_trans [OF bits_val_range(2)]) simp
    then have w: "struct_pack_I (or_bits 0 (take 32 bs) 0) = Inr (le32 (bits_val (take 32 bs)))"
      using bits_val_range(1) [of "take 32 bs"] by (simp add: or_bits_val struct_pack_I_Inr)
    have "(length bs + 31) div 32 = Suc ((length bs - 32 + 31) div 32)" using False by (intro words_step) simp
    with 1 [OF False] False w show ?thesis by (auto simp: pack_words.simps [of bs])
  qed (simp add: pack_words.simps)
qed

lemma struct_pack_header_Inr:
  assumes "struct_pack_header w h l b a = Inr hdr"
  shows "0 \<le> w" "w \<le> 255" "0 \<le> h" "h \<le> 255" "\<exists>r. hdr = word_of_int w # word_of_int h # r \<and> length r = 3"
  using assms by (auto simp: struct_pack_header_def bindE_Inr_iff struct_pack_B_Inr struct_pack_b_Inr)

lemma header_wf_data:
  assumes "struct_pack_header w h l b a = Inr hdr" "length data = bitmap_data_sz w h"
  shows "wf_data (hdr @ data)"
proof -
  from struct_pack_header_Inr [OF assms(1)] obtain r where r: "hdr = word_of_int w # word_of_int h # r" "length r = 3"
    "uint (word_of_int w :: u8) = w" "uint (word_of_int h :: u8) = h" by (auto simp: uint_byte)
  with assms(2) show ?thesis by simp
qed

lemma bitmap_words: "int n = w * h \<Longrightarrow> bitmap_data_sz w h = (n + 31) div 32 * 4"
proof -
  assume n: "int n = w * h"
  have "(int n + 7) div 8 = int ((n + 7) div 8)" by simp
  moreover have "(int m + 3) div 4 = int ((m + 3) div 4)" for m by simp
  ultimately have "bitmap_data_sz w h = ((n + 7) div 8 + 3) div 4 * 4"
    unfolding bitmap_data_sz_def n [symmetric] by (simp add: nat_mult_distrib)
  also have "((n + 7) div 8 + 3) div 4 = (n + 31) div 32"
    using div_mult2_eq [of "n + 31" 8 4] div_mult_self1 [of 8 "n + 7" 3] by simp
  finally show ?thesis .
qed

text \<open>What FreeType documents of a rendered slot: rows of whole bytes, or a byte for each pixel.\<close>

definition slot_ok :: "ft_glyph \<Rightarrow> bool" where
  "slot_ok g \<longleftrightarrow> (ft_pixel_mode g = 1 \<longrightarrow> ft_width g \<le> 8 * ft_pitch g) \<and>
     (ft_pixel_mode g = 2 \<longrightarrow> length (ft_buffer g) = ft_width g * ft_rows g)"

lemma length_bits [simp]: "length (bits x) = 8"
  by (simp add: bits_def)

lemma glyph_bitmap_length:
  assumes "glyph_bitmap th g = Inr bm" "slot_ok g"
  shows "length bm = ft_width g * ft_rows g"
proof -
  have row: "length (concat (map (\<lambda>j. bits (b ! (i * ft_pitch g + j))) [0 ..< ft_pitch g])) = 8 * ft_pitch g" for b i
    by (simp add: length_concat comp_def sum_list_triv)
  show ?thesis
  proof (cases "ft_pixel_mode g = 1")
    case True
    with assms have "length bm = sum_list (map (\<lambda>i. ft_width g) [0 ..< ft_rows g])"
      by (auto simp: glyph_bitmap_def slot_ok_def length_concat [of "map _ [0 ..< ft_rows g]"] comp_def row min_def split: if_splits)
    then show ?thesis by (simp add: sum_list_triv)
  next
    case False
    with assms show ?thesis by (auto simp: glyph_bitmap_def slot_ok_def split: if_splits)
  qed
qed

lemma collect_glyph_length:
  "collect_glyph f file g = Inr (w, h, l, b, a, bm) \<Longrightarrow> slot_ok g \<Longrightarrow> int (length bm) = w * h"
  by (auto simp: collect_glyph_def bindE_Inr_iff Let_def glyph_bitmap_length split: option.splits if_splits)

lemma glyph_bits_wf:
  assumes run: "glyph_bits f load files c gi = Inr d" and "fg_features f AND FEATURE_RLE4 = 0" "\<And>i. slot_ok (load i)"
  shows "wf_data d"
proof (cases gi)
  case ZERO_WIDTH_GLYPH_INDEX
  with run header_wf_data [of 0 0 0 0 0 d "[]"] show ?thesis by (simp add: glyph_bits_def bitmap_data_sz_def)
next
  case (Glyph_Index i)
  let ?g = "load i"
  show ?thesis
  proof (cases "ft_rows ?g \<noteq> 0 \<and> ft_width ?g \<noteq> 0")
    case True
    with run Glyph_Index obtain w h l b a bm ws hdr where
      col: "collect_glyph f (files c i) ?g = Inr (w, h, l, b, a, bm)" and ws: "pack_words bm = Inr ws"
      and hdr: "struct_pack_header w h (l + fst (fg_shift f)) (b + snd (fg_shift f)) a = Inr hdr" and d: "d = hdr @ ws"
      by (auto simp: glyph_bits_def Let_def bindE_Inr_iff pack_glyph_def assms(2))
    have "length ws = bitmap_data_sz w h"
      using pack_words_Inr [of bm] ws bitmap_words [OF collect_glyph_length [OF col assms(3)]] by auto
    with hdr show ?thesis unfolding d by (rule header_wf_data)
  next
    case False
    with run Glyph_Index obtain l b a where "struct_pack_header (int (ft_width ?g)) (int (ft_rows ?g)) l b a = Inr d"
      by (auto simp: glyph_bits_def Let_def bindE_Inr_iff)
    from header_wf_data [OF this, of "[]"] False show ?thesis by (auto simp: bitmap_data_sz_def)
  qed
qed

section \<open>The entries of a font\<close>

text \<open>The code points a font is asked for, with their glyphs.\<close>

fun chosen :: "fontgen \<Rightarrow> nat \<Rightarrow> (int \<times> int) list \<Rightarrow> (int \<times> glyph_index) list" where
  "chosen f n [] = []"
| "chosen f n ((c, g) # cs) =
     (if n > max_glyphs f then []
      else if codepoint_is_in_subset f c then (c, Glyph_Index g) # chosen f (Suc n) cs else chosen f n cs)"

definition requested :: "fontgen \<Rightarrow> (int \<times> int) list \<Rightarrow> (int \<times> glyph_index) list" where
  "requested f charmap =
     (WILDCARD_CODEPOINT, Glyph_Index 0) # map (\<lambda>c. (c, ZERO_WIDTH_GLYPH_INDEX)) (zero_width_codepts f) @
     (if codepoints_map f = [] then chosen f (Suc (length (zero_width_codepts f))) charmap
      else map (\<lambda>(c, g). (c, Glyph_Index g)) (sort_key fst (codepoints_map f)))"

abbreviation build_start :: build where
  "build_start \<equiv> \<lparr>bt_table = [0, 0, 0, 0], bt_next = 4, bt_lookup = Map.empty, bt_bytes = 2, bt_count = 0, bt_entries = []\<rparr>"

lemma add_entry_count: "add_entry render c g s = Inr s' \<Longrightarrow> bt_count s' = Suc (bt_count s)"
  by (auto simp: add_entry_def bindE_Inr_iff split: option.splits)

lemma bindE_cong: "x = y \<Longrightarrow> (\<And>a. y = Inr a \<Longrightarrow> f a = g a) \<Longrightarrow> bindE x f = bindE y g"
  by (cases y) simp_all

lemma add_chars_entries: "add_chars f render cs s = add_entries render (chosen f (bt_count s) cs) s"
proof (induction cs arbitrary: s)
  case (Cons cg cs)
  obtain c g where cg: "cg = (c, g)" by force
  have "bindE (add_entry render c (Glyph_Index g) s) (add_chars f render cs) =
      bindE (add_entry render c (Glyph_Index g) s) (add_entries render (chosen f (Suc (bt_count s)) cs))"
    by (rule bindE_cong [OF refl]) (simp add: Cons.IH add_entry_count)
  with Cons.IH show ?case by (simp add: cg)
qed simp

lemma add_entries_append: "add_entries render (xs @ ys) s = bindE (add_entries render xs s) (add_entries render ys)"
proof (induction xs arbitrary: s)
  case (Cons x xs)
  obtain c g where x: "x = (c, g)" by force
  have "add_entries render (xs @ ys) = (\<lambda>s. bindE (add_entries render xs s) (add_entries render ys))" using Cons by (intro ext)
  then show ?case by (simp add: x bindE_assoc)
qed simp

lemma add_entries_count: "add_entries render es s = Inr s' \<Longrightarrow> bt_count s' = bt_count s + length es"
proof (induction es arbitrary: s)
  case (Cons e es)
  obtain c g where e: "e = (c, g)" by force
  from Cons.prems obtain s1 where "add_entry render c g s = Inr s1" "add_entries render es s1 = Inr s'"
    by (auto simp: e bindE_Inr_iff)
  with Cons.IH [of s1] show ?case by (simp add: add_entry_count)
qed simp

lemma gather_requested: "gather f render charmap = add_entries render (requested f charmap) build_start"
proof -
  have "(if codepoints_map f = [] then add_chars f render charmap s
       else add_entries render (map (\<lambda>(c, g). (c, Glyph_Index g)) (sort_key fst (codepoints_map f))) s) =
      add_entries render (if codepoints_map f = [] then chosen f (bt_count s) charmap
       else map (\<lambda>(c, g). (c, Glyph_Index g)) (sort_key fst (codepoints_map f))) s" for s
    by (simp add: add_chars_entries)
  note tail = this
  show ?thesis
    unfolding gather_def requested_def add_entries.simps add_entries_append tail
    by (intro bindE_cong refl) (simp add: add_entry_count add_entries_count)
qed

text \<open>What has been built: each glyph once in the table, and an entry for each code point.\<close>

definition built_as :: "(int \<Rightarrow> glyph_index \<Rightarrow> py_error + u8 list) \<Rightarrow> (int \<times> glyph_index) list \<Rightarrow> build \<Rightarrow> bool" where
  "built_as render es s \<longleftrightarrow> bt_next s = length (bt_table s) \<and> bt_count s = length es \<and>
     dom (bt_lookup s) = snd ` set es \<and> bt_bytes s = (if \<exists>e \<in> set es. fst e > MAX_2_BYTES_CODEPOINT then 4 else 2) \<and>
     bt_entries s = map (\<lambda>(c, g). (c, int (the (bt_lookup s g)))) es \<and>
     (\<forall>e \<in> set es. \<exists>offset d. bt_lookup s (snd e) = Some offset \<and> render (fst e) (snd e) = Inr d \<and> stored (bt_table s) offset d)"

text \<open>Entries that share a glyph agree on it.\<close>

definition by_glyph :: "(int \<times> glyph_index) list \<Rightarrow> (int \<Rightarrow> glyph_index \<Rightarrow> 'a) \<Rightarrow> bool" where
  "by_glyph es h \<longleftrightarrow> (\<forall>e \<in> set es. \<forall>e' \<in> set es. snd e = snd e' \<longrightarrow> h (fst e) (snd e) = h (fst e') (snd e'))"

lemma by_glyph_mono: "by_glyph es h \<Longrightarrow> set es' \<subseteq> set es \<Longrightarrow> by_glyph es' h"
  unfolding by_glyph_def by blast

lemma add_entry_built:
  assumes b: "built_as render es s" and run: "add_entry render c g s = Inr s'" and same: "by_glyph (es @ [(c, g)]) render"
  shows "built_as render (es @ [(c, g)]) s'"
proof (cases "bt_lookup s g")
  case None
  then obtain d where d: "render c g = Inr d" and s': "s' = s\<lparr>bt_lookup := (bt_lookup s)(g \<mapsto> bt_next s), bt_table := bt_table s @ d,
      bt_next := bt_next s + length d, bt_bytes := (if c > MAX_2_BYTES_CODEPOINT then 4 else bt_bytes s),
      bt_count := bt_count s + 1, bt_entries := bt_entries s @ [(c, int (bt_next s))]\<rparr>"
    using run by (auto simp: add_entry_def bindE_Inr_iff)
  have new: "\<forall>e \<in> set es. snd e \<noteq> g" using None b by (force simp: built_as_def)
  then have old: "map (\<lambda>(c, i). (c, int (the (bt_lookup s' i)))) es = bt_entries s"
    using b by (auto simp: built_as_def s')
  have kept: "\<exists>offset d. bt_lookup s' (snd e) = Some offset \<and> render (fst e) (snd e) = Inr d \<and> stored (bt_table s') offset d"
    if "e \<in> set es" for e
    using b that new by (force simp: built_as_def s' intro: stored_append)
  have last: "bt_lookup s' g = Some (bt_next s)" "stored (bt_table s') (bt_next s) d"
    using b by (simp_all add: built_as_def s' stored_last)
  show ?thesis unfolding built_as_def
  proof (intro conjI)
    show "bt_entries s' = map (\<lambda>(c, g). (c, int (the (bt_lookup s' g)))) (es @ [(c, g)])"
      by (simp only: map_append old list.map prod.case last(1) option.sel) (simp add: s')
    show "\<forall>e \<in> set (es @ [(c, g)]). \<exists>offset d. bt_lookup s' (snd e) = Some offset \<and> render (fst e) (snd e) = Inr d \<and> stored (bt_table s') offset d"
      using kept last d by auto
  qed (use b in \<open>auto simp: built_as_def s'\<close>)
next
  case (Some offset)
  then have s': "s' = s\<lparr>bt_bytes := (if c > MAX_2_BYTES_CODEPOINT then 4 else bt_bytes s), bt_count := bt_count s + 1,
      bt_entries := bt_entries s @ [(c, int offset)]\<rparr>"
    using run by (auto simp: add_entry_def)
  from Some b obtain e where e: "e \<in> set es" "snd e = g" by (force simp: built_as_def)
  then have "render c g = render (fst e) g"
    using same [unfolded by_glyph_def, rule_format, of "(c, g)" e] by simp
  with e have "\<exists>d. render c g = Inr d \<and> stored (bt_table s) offset d"
    using b Some by (fastforce simp: built_as_def)
  moreover have "insert g (snd ` set es) = snd ` set es" using e by auto
  ultimately show ?thesis using b Some by (auto simp: built_as_def s')
qed

lemma add_entries_built:
  assumes "built_as render es0 s" "add_entries render es s = Inr s'" "by_glyph (es0 @ es) render"
  shows "built_as render (es0 @ es) s'"
  using assms
proof (induction es arbitrary: es0 s)
  case (Cons e es)
  obtain c g where e: "e = (c, g)" by force
  from Cons.prems obtain s1 where s1: "add_entry render c g s = Inr s1" "add_entries render es s1 = Inr s'"
    by (auto simp: e bindE_Inr_iff)
  have "by_glyph (es0 @ [(c, g)]) render" by (rule by_glyph_mono [OF Cons.prems(3)]) (auto simp: e)
  from Cons.IH [OF add_entry_built [OF Cons.prems(1) s1(1) this] s1(2)] Cons.prems(3) show ?case by (simp add: e)
qed simp

lemma gather_built:
  assumes "gather f render charmap = Inr s" "by_glyph (requested f charmap) render"
  shows "built_as render (requested f charmap) s"
  using add_entries_built [of render "[]" build_start] assms by (simp add: gather_requested built_as_def)

section \<open>Reading the file\<close>

lemma pack_entry_item: "pack_entry 2 wide p = pack_item wide p"
  by (simp add: pack_entry_def pack_item_def)

lemma hasher_bin: "hasher (fst p) = bin_no p"
  by (simp add: hasher_def bin_no_def HASHTABLE_DIRECTORY_SIZE_def)

lemma build_offset_tables_Inr:
  assumes "build_offset_tables 2 wide ps tables sizes = Inr (chs, counts)"
    "length tables = HASHTABLE_DIRECTORY_SIZE" "length sizes = HASHTABLE_DIRECTORY_SIZE"
  shows "length chs = HASHTABLE_DIRECTORY_SIZE \<and> (\<forall>p \<in> set ps. item_fits wide p) \<and>
     (\<forall>x < HASHTABLE_DIRECTORY_SIZE. chs ! x = tables ! x @ concat (map (item_bytes wide) (bin_pairs ps x)) \<and>
        counts ! x = sizes ! x + length (bin_pairs ps x))"
  using assms
proof (induction ps arbitrary: tables sizes)
  case (Cons p ps)
  let ?b = "bin_no p"
  from Cons.prems(1) have fits: "item_fits wide p"
    and run: "build_offset_tables 2 wide ps (tables[?b := tables ! ?b @ item_bytes wide p]) (sizes[?b := sizes ! ?b + 1]) = Inr (chs, counts)"
    by (auto simp: bindE_Inr_iff pack_entry_item pack_item_Inr hasher_bin Let_def)
  from Cons.IH [OF run] Cons.prems(2,3) fits bin_no_less [of p] show ?case
    by (auto simp: nth_list_update)
qed auto

lemma build_hash_table_directory:
  "\<forall>x \<in> set xs. length (chs ! x) = counts ! x * n \<Longrightarrow> build_hash_table n counts xs acc = write_directory chs counts xs acc"
  by (induction xs arbitrary: acc) simp_all

lemma fontinfo_bits_Inr:
  assumes "fontinfo_bits f features s = Inr info" "fg_version f = 3" "bt_bytes s = 2" "features \<in> {0, 1}"
  shows "length info = 10"
    "read_header (info @ rest) = Inr (10, features = 0, False, fg_max_height f, int (bt_count s), WILDCARD_CODEPOINT)"
proof -
  define n where "n = int (bt_count s)"
  from assms have info: "info = [3, word_of_int (fg_max_height f)] @ h16 n @ h16 WILDCARD_CODEPOINT @ [255, 2, 10, word_of_int features]"
    and r: "0 \<le> fg_max_height f" "fg_max_height f \<le> 255" "0 \<le> n" "n \<le> 65535"
    by (auto simp: fontinfo_bits_def n_def bindE_Inr_iff struct_pack_B_Inr struct_pack_H_Inr)
  show "length info = 10" by (simp add: info)
  have "bit (word_of_int features :: u8) 0 = (features \<noteq> 0)" "\<not> bit (word_of_int features :: u8) 1"
    using assms(4) by (auto simp: bit_1_iff)
  with r show "read_header (info @ rest) = Inr (10, features = 0, False, fg_max_height f, int (bt_count s), WILDCARD_CODEPOINT)"
    unfolding n_def [symmetric] by (simp add: info read_header_def h16_def uint16_h16 uint_byte WILDCARD_CODEPOINT_def) (simp add: uint16_def)
qed

type_synonym font_job = "fontgen \<times> (int \<Rightarrow> ft_glyph) \<times> (int \<Rightarrow> int \<Rightarrow> glyph_file option) \<times> (int \<times> int) list"

text \<open>
  An uncompressed font of version three with two-byte code points; code points that share a glyph share the edited bitmap.
\<close>

fun glyph_file_of :: "(int \<Rightarrow> int \<Rightarrow> glyph_file option) \<Rightarrow> int \<Rightarrow> glyph_index \<Rightarrow> glyph_file option" where
  "glyph_file_of files c ZERO_WIDTH_GLYPH_INDEX = None"
| "glyph_file_of files c (Glyph_Index i) = files c i"

fun job_ok :: "font_job \<Rightarrow> bool" where
  "job_ok (f, load_glyph, files, charmap) \<longleftrightarrow> fg_version f = 3 \<and> fg_features f = 0 \<and> (\<forall>i. slot_ok (load_glyph i)) \<and>
     by_glyph (requested f charmap) (glyph_file_of files) \<and> (\<forall>e \<in> set (requested f charmap). fst e \<le> MAX_2_BYTES_CODEPOINT)"

fun job_chars :: "font_job \<Rightarrow> (int \<times> u8 list) set" where
  "job_chars (f, load_glyph, files, charmap) =
     {(c, d). \<exists>g. (c, g) \<in> set (requested f charmap) \<and> glyph_bits f load_glyph files c g = Inr d}"

lemma glyph_bits_file:
  "glyph_file_of files c g = glyph_file_of files c' g \<Longrightarrow> glyph_bits f load_glyph files c g = glyph_bits f load_glyph files c' g"
  by (cases g) (simp_all add: glyph_bits_def Let_def)

lemma job_render:
  assumes "job_ok (f, load_glyph, files, charmap)"
  shows "by_glyph (requested f charmap) (glyph_bits f load_glyph files)"
    and "glyph_bits f load_glyph files c i = Inr d \<Longrightarrow> wf_data d"
proof -
  show "by_glyph (requested f charmap) (glyph_bits f load_glyph files)"
    unfolding by_glyph_def
  proof (intro ballI impI)
    fix e e' assume e: "e \<in> set (requested f charmap)" "e' \<in> set (requested f charmap)" "snd e = snd e'"
    then have "glyph_file_of files (fst e) (snd e) = glyph_file_of files (fst e') (snd e')"
      using assms unfolding job_ok.simps by_glyph_def by blast
    then show "glyph_bits f load_glyph files (fst e) (snd e) = glyph_bits f load_glyph files (fst e') (snd e')"
      unfolding e(3) by (rule glyph_bits_file)
  qed
  assume "glyph_bits f load_glyph files c i = Inr d"
  from glyph_bits_wf [OF this] assms show "wf_data d" by simp
qed

lemma tables_directory:
  assumes "build_offset_tables 2 wide qs (replicate 255 []) (replicate 255 0) = Inr (tables, sizes)"
  shows "chained wide qs tables sizes"
    "build_hash_table (item_size wide) sizes [0 ..< 255] 0 = write_directory tables sizes [0 ..< HASHTABLE_DIRECTORY_SIZE] 0"
proof -
  show c: "chained wide qs tables sizes"
    using build_offset_tables_Inr [OF assms] by (simp add: chained_def HASHTABLE_DIRECTORY_SIZE_def)
  have "length (tables ! x) = sizes ! x * item_size wide" if "x < 255" for x
    using c that by (simp add: chained_def HASHTABLE_DIRECTORY_SIZE_def length_concat comp_def sum_list_triv)
  then show "build_hash_table (item_size wide) sizes [0 ..< 255] 0 = write_directory tables sizes [0 ..< HASHTABLE_DIRECTORY_SIZE] 0"
    unfolding HASHTABLE_DIRECTORY_SIZE_def by (intro build_hash_table_directory) simp
qed

lemma built_glyphs:
  assumes b: "built_as render es s" and wf: "\<And>c g d. render c g = Inr d \<Longrightarrow> wf_data d"
  shows "holds_glyphs (bt_entries s) (bt_table s)"
    "{(c, d). \<exists>g. (c, g) \<in> set es \<and> render c g = Inr d} = (\<lambda>(c, k). (c, data_at (bt_table s) k)) ` set (bt_entries s)"
proof -
  have e: "\<exists>d. render c g = Inr d \<and> wf_data d \<and> stored (bt_table s) (the (bt_lookup s g)) d \<and> data_at (bt_table s) (int (the (bt_lookup s g))) = d"
    if "(c, g) \<in> set es" for c g
  proof -
    from b that obtain offset d where d: "bt_lookup s g = Some offset" "render c g = Inr d" "stored (bt_table s) offset d"
      by (fastforce simp: built_as_def)
    with data_at [of "bt_table s" "int offset" d] wf show ?thesis by auto
  qed
  have en: "set (bt_entries s) = (\<lambda>(c, g). (c, int (the (bt_lookup s g)))) ` set es" using b by (simp add: built_as_def)
  show "holds_glyphs (bt_entries s) (bt_table s)" unfolding holds_glyphs_def en using e by fastforce
  show "{(c, d). \<exists>g. (c, g) \<in> set es \<and> render c g = Inr d} = (\<lambda>(c, k). (c, data_at (bt_table s) k)) ` set (bt_entries s)"
    unfolding en image_image using e by (force simp: image_iff)
qed

lemma convert_to_pfo_Inr:
  assumes "convert_to_pfo f load_glyph files charmap = Inr pfo"
  obtains s short tables sizes hash info where "gather f (glyph_bits f load_glyph files) charmap = Inr s"
    "short \<longleftrightarrow> fg_version f = 3 \<and> length (bt_table s) < 65536"
    "build_offset_tables (bt_bytes s) (\<not> short) (sort_key fst (bt_entries s)) (replicate 255 []) (replicate 255 0) = Inr (tables, sizes)"
    "build_hash_table ((if short then 2 else 4) + bt_bytes s) sizes [0 ..< 255] 0 = Inr hash"
    "fontinfo_bits f (if short then fg_features f OR FEATURE_OFFSET_16 else fg_features f) s = Inr info"
    "pfo = info @ hash @ concat tables @ bt_table s"
  using assms unfolding convert_to_pfo_def Let_def by (auto simp: bindE_Inr_iff simp del: upt.simps replicate.simps)

interpretation generated_font: pfo_writer "\<lambda>(f, load_glyph, files, charmap). convert_to_pfo f load_glyph files charmap"
  job_ok "\<lambda>(f, _). fg_max_height f" "\<lambda>_. WILDCARD_CODEPOINT" "\<lambda>_. False" job_chars
proof
  fix job :: font_job and pfo
  obtain f load_glyph files charmap where job: "job = (f, load_glyph, files, charmap)" by (cases job)
  assume "(case job of (f, load_glyph, files, charmap) \<Rightarrow> convert_to_pfo f load_glyph files charmap) = Inr pfo" "job_ok job"
  then have w: "convert_to_pfo f load_glyph files charmap = Inr pfo" and ok: "job_ok (f, load_glyph, files, charmap)"
    by (simp_all add: job)
  let ?render = "glyph_bits f load_glyph files"
  from convert_to_pfo_Inr [OF w] obtain s short tables sizes hash info where g: "gather f ?render charmap = Inr s"
    and short: "short \<longleftrightarrow> fg_version f = 3 \<and> length (bt_table s) < 65536"
    and tables: "build_offset_tables (bt_bytes s) (\<not> short) (sort_key fst (bt_entries s)) (replicate 255 []) (replicate 255 0) = Inr (tables, sizes)"
    and hash: "build_hash_table ((if short then 2 else 4) + bt_bytes s) sizes [0 ..< 255] 0 = Inr hash"
    and info: "fontinfo_bits f (if short then fg_features f OR FEATURE_OFFSET_16 else fg_features f) s = Inr info"
    and pfo: "pfo = info @ hash @ concat tables @ bt_table s" .
  note b = gather_built [OF g job_render(1) [OF ok]]
  have bytes: "bt_bytes s = 2" using b ok by (force simp: built_as_def)
  let ?qs = "sort_key fst (bt_entries s)"
  note t = tables_directory [OF tables [unfolded bytes]]
  have "(if short then 2 else 4) + bt_bytes s = item_size (\<not> short)" by (simp add: bytes item_size_def)
  with hash have dir: "write_directory tables sizes [0 ..< HASHTABLE_DIRECTORY_SIZE] 0 = Inr hash" by (simp only: t(2))
  have i: "length info = 10" "read_header pfo = Inr (10, \<not> short, False, fg_max_height f, int (length ?qs), WILDCARD_CODEPOINT)"
    using fontinfo_bits_Inr [OF info _ bytes] ok b by (auto simp: pfo FEATURE_OFFSET_16_def built_as_def)
  have "font_layout pfo (fg_max_height f) WILDCARD_CODEPOINT False ?qs (bt_table s)"
    unfolding font_layout_def using pfo i t(1) dir by blast
  moreover note built_glyphs [OF b job_render(2) [OF ok]]
  ultimately show "\<exists>qs gd. font_layout pfo (case job of (f, _) \<Rightarrow> fg_max_height f) WILDCARD_CODEPOINT False qs gd \<and> holds_glyphs qs gd \<and>
      job_chars job = (\<lambda>(c, k). (c, data_at gd k)) ` set qs"
    by (intro exI [of _ ?qs] exI [of _ "bt_table s"]) (simp add: job holds_glyphs_def)
qed

section \<open>Writing succeeds\<close>

text \<open>The limits of the format: every glyph can be rendered, and the fields and bins hold the entries.\<close>

fun job_fits :: "font_job \<Rightarrow> bool" where
  "job_fits (f, load_glyph, files, charmap) \<longleftrightarrow> 0 \<le> fg_max_height f \<and> fg_max_height f \<le> 255 \<and>
     (\<forall>e \<in> set (requested f charmap). 0 \<le> fst e \<and> \<not> isl (glyph_bits f load_glyph files (fst e) (snd e)) \<and>
        length (filter (\<lambda>e'. fst e' mod 255 = fst e mod 255) (requested f charmap)) \<le> 255) \<and>
     length (requested f charmap) * 6 \<le> 65535"

lemma add_entries_succeeds:
  assumes "\<forall>e \<in> set es. \<not> isl (render (fst e) (snd e))"
  shows "\<exists>s'. add_entries render es s = Inr s'"
  using assms
proof (induction es arbitrary: s)
  case (Cons e es)
  obtain c g d where e: "e = (c, g)" "render c g = Inr d" using Cons.prems by (cases e, cases "render (fst e) (snd e)") auto
  have "\<exists>s1. add_entry render c g s = Inr s1" by (cases "bt_lookup s g") (simp_all add: add_entry_def e)
  with Cons show ?case by (auto simp: e)
qed simp

lemma add_entries_length:
  assumes "add_entries render es s = Inr s'" "\<And>c g d. render c g = Inr d \<Longrightarrow> length d \<le> n"
  shows "length (bt_table s') \<le> length (bt_table s) + n * length es"
  using assms(1)
proof (induction es arbitrary: s)
  case (Cons e es)
  obtain c g where e: "e = (c, g)" by force
  from Cons.prems obtain s1 where s1: "add_entry render c g s = Inr s1" "add_entries render es s1 = Inr s'"
    by (auto simp: e bindE_Inr_iff)
  have "length (bt_table s1) \<le> length (bt_table s) + n"
    using s1(1) assms(2) by (auto simp: add_entry_def bindE_Inr_iff split: option.splits)
  with Cons.IH [OF s1(2)] show ?case by simp
qed simp

lemma build_offset_tables_succeeds:
  "\<forall>p \<in> set ps. item_fits wide p \<Longrightarrow> \<exists>r. build_offset_tables 2 wide ps tables sizes = Inr r"
proof (induction ps arbitrary: tables sizes)
  case (Cons p ps)
  then have "pack_entry 2 wide p = Inr (item_bytes wide p)" by (simp add: pack_entry_item pack_item_Inr)
  with Cons show ?case by (simp add: Let_def)
qed simp

lemma built_bins:
  assumes b: "built_as render es s"
    and n: "\<forall>e \<in> set es. length (filter (\<lambda>e'. fst e' mod 255 = fst e mod 255) es) \<le> 255"
  shows "length (bin_pairs (sort_key fst (bt_entries s)) x) \<le> 255"
proof (cases "\<exists>p \<in> set (bt_entries s). bin_no p = x")
  case True
  then obtain e k where e: "e \<in> set es" "x = bin_no (fst e, k)" using b by (force simp: built_as_def)
  have "length (bin_pairs (sort_key fst (bt_entries s)) x) = length (bin_pairs (bt_entries s) x)" by (simp add: filter_sort)
  also have "\<dots> = length (filter (\<lambda>e'. fst e' mod 255 = fst e mod 255) es)"
    using b unfolding e(2) mod_bin by (simp add: built_as_def filter_map comp_def split_beta)
  finally show ?thesis using n e(1) by simp
next
  case False
  then have "bin_pairs (sort_key fst (bt_entries s)) x = []" by (simp add: filter_empty_conv)
  then show ?thesis by simp
qed

lemma built_fits:
  assumes b: "built_as render es s" and "\<forall>e \<in> set es. 0 \<le> fst e \<and> fst e \<le> MAX_2_BYTES_CODEPOINT"
    and wf: "\<And>c g d. render c g = Inr d \<Longrightarrow> wf_data d" and len: "length (bt_table s) < (if wide then 2 ^ 32 else 65536)"
    and p: "p \<in> set (bt_entries s)"
  shows "item_fits wide p"
proof -
  from p b obtain c g where cg: "(c, g) \<in> set es" "p = (c, int (the (bt_lookup s g)))" by (auto simp: built_as_def)
  with b obtain offset d where d: "bt_lookup s g = Some offset" "render c g = Inr d" "stored (bt_table s) offset d"
    by (fastforce simp: built_as_def)
  have "d \<noteq> []" using glyph_length [OF wf [OF d(2)]] by auto
  from stored_room [OF d(3) this] len have "offset < (if wide then 2 ^ 32 else 65536)"
    using glyph_length [OF wf [OF d(2)]] by auto
  with assms(2) cg d(1) show ?thesis by (auto simp: item_fits_def MAX_2_BYTES_CODEPOINT_def split: if_splits)
qed

lemma generated:
  assumes ok: "job_ok (f, load_glyph, files, charmap)" and fits: "job_fits (f, load_glyph, files, charmap)"
  shows "\<exists>pfo. convert_to_pfo f load_glyph files charmap = Inr pfo"
proof -
  let ?render = "glyph_bits f load_glyph files" and ?es = "requested f charmap"
  note wf = job_render(2) [OF ok]
  have "\<forall>e \<in> set ?es. \<not> isl (?render (fst e) (snd e))" using fits by auto
  from add_entries_succeeds [OF this] obtain s where s: "gather f ?render charmap = Inr s"
    unfolding gather_requested by blast
  note b = gather_built [OF s job_render(1) [OF ok]]
  have bytes: "bt_bytes s = 2" and cnt: "bt_count s = length ?es" "length (bt_entries s) = length ?es"
    using b ok by (force simp: built_as_def)+
  define short where "short \<longleftrightarrow> length (bt_table s) < 65536"
  have "length (bt_table s) \<le> 4 + 10000 * length ?es"
    using add_entries_length [of ?render ?es build_start s 10000] s glyph_length [OF wf] unfolding gather_requested by simp
  then have len: "length (bt_table s) < (if \<not> short then 2 ^ 32 else 65536)" using fits by (auto simp: short_def)
  let ?qs = "sort_key fst (bt_entries s)"
  have "\<forall>p \<in> set ?qs. item_fits (\<not> short) p"
    using built_fits [OF b _ wf len] ok fits by auto
  from build_offset_tables_succeeds [OF this] obtain tables sizes where
    tab: "build_offset_tables 2 (\<not> short) ?qs (replicate 255 []) (replicate 255 0) = Inr (tables, sizes)" by force
  note t = tables_directory [OF tab]
  have "\<exists>dir. write_directory tables sizes [0 ..< HASHTABLE_DIRECTORY_SIZE] 0 = Inr dir"
  proof (rule write_directory_succeeds)
    have "length ?qs * item_size (\<not> short) \<le> 65535" using fits by (auto simp: cnt item_size_def)
    then show "0 + int (sum_list (map (\<lambda>x. length (tables ! x)) [0 ..< HASHTABLE_DIRECTORY_SIZE])) \<le> 65535"
      unfolding chained_extent [OF t(1)] by linarith
    show "\<forall>x \<in> set [0 ..< HASHTABLE_DIRECTORY_SIZE]. x \<le> 255 \<and> sizes ! x \<le> 255"
      using t(1) built_bins [OF b] fits by (auto simp: chained_def HASHTABLE_DIRECTORY_SIZE_def)
  qed simp
  then obtain hash where hash: "build_hash_table (item_size (\<not> short)) sizes [0 ..< 255] 0 = Inr hash" by (auto simp: t(2))
  have size: "(if short then 2 else 4) + (2 :: nat) = item_size (\<not> short)" by (simp add: item_size_def)
  have "\<exists>info. fontinfo_bits f features s = Inr info" if "features \<in> {0, 1}" for features
    using fits ok that by (auto simp: fontinfo_bits_def struct_pack_B_def struct_pack_H_def cnt WILDCARD_CODEPOINT_def)
  moreover have "(if short then fg_features f OR FEATURE_OFFSET_16 else fg_features f) \<in> {0, 1}"
    using ok by (simp add: FEATURE_OFFSET_16_def)
  ultimately obtain info where
    info: "fontinfo_bits f (if short then fg_features f OR FEATURE_OFFSET_16 else fg_features f) s = Inr info" by blast
  have "(fg_version f = 3 \<and> length (bt_table s) < 65536) = short" using ok by (simp add: short_def)
  then show ?thesis unfolding convert_to_pfo_def Let_def
    by (simp only: s bindE_simps bytes tab prod.case size hash info sum.inject ex_simps simp_thms)
qed

text \<open>What has been written has been rendered.\<close>

fun renders :: "font_job \<Rightarrow> bool" where
  "renders (f, load_glyph, files, charmap) \<longleftrightarrow>
     (\<forall>e \<in> set (requested f charmap). \<not> isl (glyph_bits f load_glyph files (fst e) (snd e)))"

lemma generated_renders:
  assumes run: "convert_to_pfo f load_glyph files charmap = Inr pfo" and ok: "job_ok (f, load_glyph, files, charmap)"
  shows "renders (f, load_glyph, files, charmap)"
proof (rule convert_to_pfo_Inr [OF run])
  fix s assume "gather f (glyph_bits f load_glyph files) charmap = Inr s"
  from gather_built [OF this job_render(1) [OF ok]] show ?thesis
    by (fastforce simp: built_as_def)
qed

section \<open>Compressed glyphs\<close>

text \<open>
  In a compressed glyph the field of the height holds the number of units, of half a byte each, while
  \<open>font_read\<close> counts width times height bits.  A narrow glyph is cut.
\<close>

lemma pack_glyph_rle4:
  assumes "pack_glyph features h bitmap = Inr (n, enc)" "features AND FEATURE_RLE4 \<noteq> 0"
  shows "n = int (length (rle_unit_list bitmap))" "length enc = (nat n + 7) div 8 * 4"
  using assms compress_Inr by (auto simp: pack_glyph_def bindE_Inr_iff split: if_splits)

lemma read_compressed:
  assumes d: "glyph_bits f load_glyph files c (Glyph_Index i) = Inr d" and rle: "fg_features f AND FEATURE_RLE4 \<noteq> 0"
    and g: "files c i = None" "ft_rows (load_glyph i) \<noteq> 0" "ft_width (load_glyph i) = 2"
      "glyph_bitmap (fg_threshold f) (load_glyph i) = Inr bitmap" "9 \<le> length (rle_unit_list bitmap)" "length (rle_unit_list bitmap) \<le> 16"
    and st: "stored (drop gb pfo) (nat k) d"
  shows "length d = 13 \<and> add_glyph pfo gb c k [] = Inr [(k, \<lparr>codepoints = [c], gdata = take 9 d\<rparr>)]"
proof -
  let ?n = "length (rle_unit_list bitmap)"
  from d g(1-4) obtain n enc l b a hdr where enc: "pack_glyph (fg_features f) (int (ft_rows (load_glyph i))) bitmap = Inr (n, enc)"
    and hdr: "struct_pack_header 2 n l b a = Inr hdr" and d: "d = hdr @ enc"
    by (auto simp: glyph_bits_def Let_def bindE_Inr_iff collect_glyph_def)
  note p = pack_glyph_rle4 [OF enc rle]
  have "(?n + 7) div 8 = 2" using g(5,6) by auto
  then have len: "length enc = 8" using p by simp
  from struct_pack_header_Inr [OF hdr] obtain r where r: "hdr = 2 # word_of_int n # r" "length r = 3" "uint (word_of_int n :: u8) = n"
    by (auto simp: uint_byte)
  have sz: "bitmap_data_sz 2 n = 4"
    using bitmap_words [of "2 * ?n" 2 n] p(1) g(5,6) by auto
  have l: "length d = 13" by (simp add: d r len)
  have sl: "slice pfo (gb + nat k) m = take m d" if "m \<le> 13" for m
  proof -
    let ?X = "drop (nat k) (drop gb pfo)"
    have X: "take 13 ?X = d" using st l by (simp add: stored_def)
    have "slice pfo (gb + nat k) m = take m ?X" by (simp add: slice_def add.commute)
    also have "\<dots> = take m (take 13 ?X)" unfolding take_take using that by simp
    finally show ?thesis by (simp only: X)
  qed
  have "take 2 d = [2, word_of_int n]" by (simp add: d r eval_nat_numeral)
  with sl l r(3) sz show ?thesis by (simp add: add_glyph_def Let_def)
qed

text \<open>Glyphs and fonts at which theorems are evaluated.\<close>

definition block_glyph :: ft_glyph where
  "block_glyph = \<lparr>ft_width = 8, ft_rows = 2, ft_pitch = 1, ft_buffer = [0xF0, 0x0F], ft_left = 0, ft_top = 2, ft_advance_x = 576, ft_pixel_mode = 1\<rparr>"

definition comb_glyph :: ft_glyph where
  "comb_glyph = \<lparr>ft_width = 2, ft_rows = 6, ft_pitch = 1, ft_buffer = replicate 6 0x80, ft_left = 0, ft_top = 6, ft_advance_x = 192, ft_pixel_mode = 1\<rparr>"

definition hebrew_job :: fontgen where
  "hebrew_job = \<lparr>fg_version = 3, fg_max_height = 14, tracking_adjust = 0, fg_regex = None, fg_codepoints = (\<lambda>_. True), max_glyphs = 256,
     fg_features = 0, codepoints_map = [(0x5D0, 3), (0x41, 3)], zero_width_codepts = [0x591], fg_shift = (0, 1), fg_threshold = 127\<rparr>"

lemma hebrew_job_ok:
  "job_ok (hebrew_job, \<lambda>_. block_glyph, \<lambda>_ _. None, [])" "job_fits (hebrew_job, \<lambda>_. block_glyph, \<lambda>_ _. None, [])"
proof -
  have r: "requested hebrew_job [] = [(0x25AF, Glyph_Index 0), (0x591, ZERO_WIDTH_GLYPH_INDEX), (0x41, Glyph_Index 3), (0x5D0, Glyph_Index 3)]"
    by (simp add: requested_def hebrew_job_def WILDCARD_CODEPOINT_def)
  show "job_ok (hebrew_job, \<lambda>_. block_glyph, \<lambda>_ _. None, [])"
    by (simp add: r slot_ok_def block_glyph_def MAX_2_BYTES_CODEPOINT_def by_glyph_def) (simp add: hebrew_job_def)
  have "glyph_bits hebrew_job (\<lambda>_. block_glyph) (\<lambda>_ _. None) c ZERO_WIDTH_GLYPH_INDEX = Inr [0, 0, 0, 0, 0]" for c by code_simp
  moreover have "glyph_bits hebrew_job (\<lambda>_. block_glyph) (\<lambda>_ _. None) c (Glyph_Index i) = Inr [8, 2, 0, 13, 9, 15, 240, 0, 0]" for c i
    by code_simp
  ultimately show "job_fits (hebrew_job, \<lambda>_. block_glyph, \<lambda>_ _. None, [])"
    by (simp add: r) (simp add: hebrew_job_def)
qed

lemma comb_glyph_bits:
  "glyph_bits (hebrew_job\<lparr>fg_features := 2\<rparr>) (\<lambda>_. comb_glyph) (\<lambda>_ _. None) c (Glyph_Index i) =
     Inr [2, 12, 0, 9, 3, 8, 8, 8, 8, 8, 8, 0, 0]"
  "glyph_bitmap 127 comb_glyph = Inr (concat (replicate 6 [True, False]))"
  "length (rle_unit_list (concat (replicate 6 [True, False]))) = 12"
  by code_simp+

end
