(* ===== verification/Fix_Ijam.thy ===== *)
theory Fix_Ijam
  imports Fontgen Complex_Main
begin

text \<open>
  \<^verbatim>\<open>fonts/fix_ijam.py\<close>: makes the dots of Arabic letters bolder in a bitmap dumped by the font generator.  Isolated
  points grow to squares of two by two, away from the rest of the glyph, and the bitmap grows with them.  The theory
  shows that no ink is lost, that every isolated point becomes a square, and that the result is a rectangle again, which is
  what the font generator and this script ask of a dumped bitmap.
\<close>

section \<open>The code\<close>

type_synonym point = "int \<times> int"

definition read_bitmap :: "glyph_file \<Rightarrow> py_error + point list" where
  "read_bitmap d =
     (let bmp_str = filter (\<lambda>c. c \<noteq> CHR 0x0A) (gf_rows d) in
      if int (length bmp_str) = gf_width d * gf_height d
      then Inr (filter (\<lambda>(x, y). bmp_str ! nat (y * gf_width d + x) = CHR ''#'')
                  (concat (map (\<lambda>y. map (\<lambda>x. (x, y)) (map int [0 ..< nat (gf_width d)])) (map int [0 ..< nat (gf_height d)]))))
      else Inl AssertionError)"

definition adj_cells :: "point \<Rightarrow> point list" where
  "adj_cells p = (case p of (x, y) \<Rightarrow>
     [(x - 1, y), (x + 1, y), (x - 1, y - 1), (x, y - 1), (x + 1, y - 1), (x - 1, y + 1), (x, y + 1), (x + 1, y + 1)])"

definition check_isolated :: "point list \<Rightarrow> point \<Rightarrow> point list \<Rightarrow> bool" where
  "check_isolated bmp_data p excepting \<longleftrightarrow> (\<forall>adj \<in> set (adj_cells p). adj \<in> set excepting \<or> adj \<notin> set bmp_data)"

text \<open>An isolated point with the direction it has to grow in, if that is known.\<close>

type_synonym dot = "point \<times> int option"

definition scan_point :: "point list \<Rightarrow> point \<Rightarrow> point list \<times> dot list \<Rightarrow> point list \<times> dot list" where
  "scan_point bmp_data p S =
     (case (p, S) of ((x, y), (other_points, isolated_points)) \<Rightarrow>
        if p \<notin> set bmp_data then S
        else if check_isolated bmp_data p [] then (other_points, isolated_points @ [(p, None)])
        else if (x - 1, y) \<in> set other_points \<and> check_isolated bmp_data p [(x - 1, y)] \<and> check_isolated bmp_data (x - 1, y) [p]
        then (remove1 (x - 1, y) other_points, isolated_points @ [(p, Some (- 1))])
        else (other_points @ [p], isolated_points))"

definition find_points :: "int \<Rightarrow> int \<Rightarrow> point list \<Rightarrow> point list \<times> dot list" where
  "find_points width height bmp_data =
     fold (scan_point bmp_data)
       (concat (map (\<lambda>x. map (\<lambda>y. (x, y)) (map int [0 ..< nat height])) (map int [0 ..< nat width]))) ([], [])"

definition centroid :: "(point \<Rightarrow> int) \<Rightarrow> point list \<Rightarrow> py_error + rat" where
  "centroid coord ps = (if ps = [] then Inl ZeroDivisionError else Inr (of_int (sum_list (map coord ps)) / of_nat (length ps)))"

definition grow_dir :: "int \<Rightarrow> rat \<Rightarrow> rat \<Rightarrow> int" where
  "grow_dir x ic oc = (if of_int x = ic then if of_int x < oc then - 1 else 1 else if of_int x < ic then - 1 else 1)"

text \<open>The squares, and \<open>hit_left\<close>, which the test for the right edge assigns too.\<close>

definition grow_dot :: "int \<Rightarrow> rat \<times> rat \<Rightarrow> rat \<times> rat \<Rightarrow> dot \<Rightarrow> point list \<times> int \<Rightarrow> point list \<times> int" where
  "grow_dot width ic oc p S =
     (case (p, S) of (((x, y), d), (ijam_bmp_data, hit_left)) \<Rightarrow>
        let sx = (case d of Some s \<Rightarrow> s | None \<Rightarrow> grow_dir x (fst ic) (fst oc)); sy = grow_dir y (snd ic) (snd oc);
            hit_left = (if x \<le> 0 \<or> x + sx \<le> 0 then max (0 - x + 1) (0 - (x + sx) + 1) else hit_left);
            hit_left = (if x \<ge> width - 1 \<or> x + sx \<ge> width - 1 then max (x - width + 1) (x + sx - width + 1) else hit_left) in
        (ijam_bmp_data @ [(x, y), (x, y + sy), (x + sx, y + sy), (x + sx, y)], hit_left))"

text \<open>\<^verbatim>\<open>int(round(q))\<close> of Python 2: halves go away from zero.\<close>

definition py_round :: "rat \<Rightarrow> int" where
  "py_round q = (if q \<ge> 0 then \<lfloor>q + 1 / 2\<rfloor> else - \<lfloor>- q + 1 / 2\<rfloor>)"

text \<open>
  Centring above the rest of the glyph.  \<open>order\<close> is the order in which Python lists the dictionary of the squares: the
  last key on or beyond the left edge decides \<open>hit_left\<close>.
\<close>

definition recentre :: "(point list \<Rightarrow> point list) \<Rightarrow> point list \<Rightarrow> point list \<Rightarrow> point list \<times> int" where
  "recentre order other_points ijam =
     (let xs = map fst ijam; os = map fst other_points;
          off_x = py_round (of_int (Max (set os) - Min (set os)) / 2 - of_int (Max (set xs) - Min (set xs)) / 2) in
      (map (\<lambda>(x, y). (x - off_x, y)) ijam,
       fold (\<lambda>(x, y) hit. if x - off_x \<le> 0 then 0 - (x - off_x) + 1 else hit) (order (remdups ijam)) 0))"

record extent =
  ex_sx :: int
  ex_sy :: int
  ex_hdx :: int
  ex_hdy :: int

definition grow_extent :: "int \<Rightarrow> int \<Rightarrow> point \<Rightarrow> extent \<Rightarrow> extent" where
  "grow_extent width height p e = (case p of (x, y) \<Rightarrow>
     \<lparr>ex_sx = (if x < 0 then max (- x) (ex_sx e) else ex_sx e),
      ex_sy = (if y < 0 then max (- y) (ex_sy e) else ex_sy e),
      ex_hdx = (if x \<ge> width then max (x - width + 1) (ex_hdx e) else ex_hdx e),
      ex_hdy = (if y \<ge> height then max (y - height + 1) (ex_hdy e) else ex_hdy e)\<rparr>)"

definition expand_bitmap :: "int \<Rightarrow> int \<Rightarrow> point list \<Rightarrow> extent" where
  "expand_bitmap width height ijam = fold (grow_extent width height) ijam \<lparr>ex_sx = 0, ex_sy = 0, ex_hdx = 0, ex_hdy = 0\<rparr>"

definition rebuild :: "extent \<Rightarrow> point list \<Rightarrow> point list \<Rightarrow> point list" where
  "rebuild e ijam other_points =
     ijam @ concat (map (\<lambda>(x, y). (x + ex_hdx e, y) #
        (if x = 0 then map (\<lambda>xoff. (x + int xoff - ex_sx e, y)) [0 ..< nat (ex_hdx e + ex_sx e)] else [])) other_points)"

definition write_bitmap :: "int \<Rightarrow> int \<Rightarrow> int \<Rightarrow> int \<Rightarrow> point list \<Rightarrow> string" where
  "write_bitmap width height sx sy bmp =
     concat (map (\<lambda>y. map (\<lambda>x. if (int x - sx, int y - sy) \<in> set bmp then CHR ''#'' else CHR '' '') [0 ..< nat width] @ [CHR 0x0A])
       [0 ..< nat height])"

text \<open>\<open>None\<close>: there is no dot, and no file is written.\<close>

definition process_glyph :: "(point list \<Rightarrow> point list) \<Rightarrow> glyph_file \<Rightarrow> py_error + glyph_file option" where
  "process_glyph order d =
     bindE (read_bitmap d) (\<lambda>bmp_data.
       let (other_points, isolated_points) = find_points (gf_width d) (gf_height d) bmp_data; pts = map fst isolated_points in
       if isolated_points = [] then Inr None
       else
         bindE (centroid fst pts) (\<lambda>ix. bindE (centroid snd pts) (\<lambda>iy.
         bindE (centroid fst other_points) (\<lambda>ox. bindE (centroid snd other_points) (\<lambda>oy.
           let (ijam, hit) = fold (grow_dot (gf_width d) (ix, iy) (ox, oy)) isolated_points ([], 0);
               (ijam, hit_left) = (if hit \<noteq> 0 then recentre order other_points ijam else (ijam, 0));
               e = expand_bitmap (gf_width d) (gf_height d) ijam;
               width = gf_width d + ex_sx e + ex_hdx e; height = gf_height d + ex_sy e + ex_hdy e in
           Inr (Some \<lparr>gf_width = width, gf_height = height, gf_left = gf_left d + ex_sx e - hit_left,
                  gf_bottom = gf_bottom d - ex_sy e, gf_advance = gf_advance d + ex_sx e + ex_hdx e,
                  gf_rows = write_bitmap width height (ex_sx e) (ex_sy e) (rebuild e ijam other_points)\<rparr>))))))"

text \<open>All dumped bitmaps of Arabic letters: the files written, by what names them.\<close>

fun fix_ijam_all :: "(point list \<Rightarrow> point list) \<Rightarrow> ('k \<times> glyph_file) list \<Rightarrow> py_error + ('k \<times> glyph_file) list" where
  "fix_ijam_all order [] = Inr []"
| "fix_ijam_all order ((k, d) # files) =
     bindE (process_glyph order d) (\<lambda>out. bindE (fix_ijam_all order files) (\<lambda>outs.
       Inr (case out of None \<Rightarrow> outs | Some d' \<Rightarrow> (k, d') # outs)))"

section \<open>Bitmaps\<close>

lemma int_upt: "int ` set [0 ..< nat n] = {0 ..< n}"
  by (auto simp: image_int_atLeastLessThan)

lemma read_bitmap_set:
  assumes "read_bitmap d = Inr bmp"
  shows "set bmp = {(x, y). 0 \<le> x \<and> x < gf_width d \<and> 0 \<le> y \<and> y < gf_height d \<and>
     filter (\<lambda>c. c \<noteq> CHR 0x0A) (gf_rows d) ! nat (y * gf_width d + x) = CHR ''#''}"
proof -
  from assms have "bmp = filter (\<lambda>(x, y). filter (\<lambda>c. c \<noteq> CHR 0x0A) (gf_rows d) ! nat (y * gf_width d + x) = CHR ''#'')
      (concat (map (\<lambda>y. map (\<lambda>x. (x, y)) (map int [0 ..< nat (gf_width d)])) (map int [0 ..< nat (gf_height d)])))"
    by (simp add: read_bitmap_def Let_def split: if_splits)
  moreover have "set (concat (map (\<lambda>y. map (\<lambda>x. (x, y)) X) Y)) = set X \<times> set Y" for X Y :: "int list" by auto
  ultimately show ?thesis by (simp only: set_filter set_map int_upt) auto
qed

lemma write_bitmap_rows:
  "filter (\<lambda>c. c \<noteq> CHR 0x0A) (write_bitmap width height sx sy bmp) =
     concat (map (\<lambda>y. map (\<lambda>x. if (int x - sx, int y - sy) \<in> set bmp then CHR ''#'' else CHR '' '') [0 ..< nat width]) [0 ..< nat height])"
  by (auto simp: write_bitmap_def filter_concat comp_def intro!: arg_cong [of _ _ concat] filter_True)

lemma write_read_bitmap:
  assumes "0 \<le> gf_width d" "0 \<le> gf_height d" "gf_rows d = write_bitmap (gf_width d) (gf_height d) sx sy bmp"
  obtains bmp' where "read_bitmap d = Inr bmp'"
    "set bmp' = {(x, y). 0 \<le> x \<and> x < gf_width d \<and> 0 \<le> y \<and> y < gf_height d \<and> (x - sx, y - sy) \<in> set bmp}"
proof -
  let ?w = "nat (gf_width d)" and ?h = "nat (gf_height d)"
  let ?row = "\<lambda>y. map (\<lambda>x. if (int x - sx, int y - sy) \<in> set bmp then CHR ''#'' else CHR '' '') [0 ..< ?w]"
  let ?str = "filter (\<lambda>c. c \<noteq> CHR 0x0A) (gf_rows d)"
  have str: "?str = concat (map ?row [0 ..< ?h])" unfolding assms(3) by (rule write_bitmap_rows)
  have len: "\<forall>r \<in> set (map ?row [0 ..< ?h]). length r = ?w" by simp
  have "length ?str = ?w * ?h" unfolding str using length_concat_blocks [OF len] by simp
  then have "int (length ?str) = gf_width d * gf_height d" using assms(1,2) by simp
  then obtain bmp' where r: "read_bitmap d = Inr bmp'" by (auto simp: read_bitmap_def Let_def)
  have "?str ! nat (y * gf_width d + x) = CHR ''#'' \<longleftrightarrow> (x - sx, y - sy) \<in> set bmp"
    if "0 \<le> x" "x < gf_width d" "0 \<le> y" "y < gf_height d" for x y
  proof -
    have "nat (y * gf_width d + x) = ?w * nat y + nat x" using that by (simp add: nat_add_distrib nat_mult_distrib mult.commute)
    moreover have "concat (map ?row [0 ..< ?h]) ! (?w * nat y + nat x) = map ?row [0 ..< ?h] ! nat y ! nat x"
      by (rule nth_concat_blocks [OF len]) (use that in auto)
    ultimately show ?thesis unfolding str using that by (simp add: nat_less_iff)
  qed
  then have "set bmp' = {(x, y). 0 \<le> x \<and> x < gf_width d \<and> 0 \<le> y \<and> y < gf_height d \<and> (x - sx, y - sy) \<in> set bmp}"
    unfolding read_bitmap_set [OF r] by blast
  with r that show thesis by blast
qed

section \<open>Points\<close>

text \<open>What the points found so far stand for: the rest of the glyph, single dots, and dots of two pixels.\<close>

definition covers :: "point list \<times> dot list \<Rightarrow> point set" where
  "covers S = set (fst S) \<union> fst ` set (snd S) \<union> {(x - 1, y) | x y. \<exists>s. ((x, y), Some s) \<in> set (snd S)}"

lemma scan_point_covers:
  assumes "distinct (fst S)" "p \<notin> set (fst S)" "\<forall>q \<in> set (snd S). snd q \<in> {None, Some (- 1)}"
  shows "covers (scan_point bmp p S) = covers S \<union> (if p \<in> set bmp then {p} else {})" "distinct (fst (scan_point bmp p S))"
    "\<forall>q \<in> set (snd (scan_point bmp p S)). snd q \<in> {None, Some (- 1)}" "set (fst (scan_point bmp p S)) \<subseteq> insert p (set (fst S))"
    "set (snd S) \<subseteq> set (snd (scan_point bmp p S))" "p \<in> set bmp \<Longrightarrow> check_isolated bmp p [] \<Longrightarrow> (p, None) \<in> set (snd (scan_point bmp p S))"
proof -
  obtain x y other dots where p: "p = (x, y)" and S: "S = (other, dots)" by (cases p, cases S)
  show "covers (scan_point bmp p S) = covers S \<union> (if p \<in> set bmp then {p} else {})"
    using assms(1) by (auto simp: scan_point_def p S covers_def)
  show "distinct (fst (scan_point bmp p S))" using assms(1,2) by (auto simp: scan_point_def p S)
  show "\<forall>q \<in> set (snd (scan_point bmp p S)). snd q \<in> {None, Some (- 1)}" using assms(3) by (auto simp: scan_point_def p S)
  show "set (fst (scan_point bmp p S)) \<subseteq> insert p (set (fst S))" using set_remove1_subset by (auto simp: scan_point_def p S dest: notin_set_remove1)
  show "set (snd S) \<subseteq> set (snd (scan_point bmp p S))" by (auto simp: scan_point_def p S)
  show "p \<in> set bmp \<Longrightarrow> check_isolated bmp p [] \<Longrightarrow> (p, None) \<in> set (snd (scan_point bmp p S))" by (auto simp: scan_point_def p S)
qed

lemma scan_covers:
  assumes "distinct (fst S)" "distinct ps" "set ps \<inter> set (fst S) = {}" "\<forall>q \<in> set (snd S). snd q \<in> {None, Some (- 1)}"
  shows "covers (fold (scan_point bmp) ps S) = covers S \<union> set ps \<inter> set bmp \<and>
     (\<forall>q \<in> set (snd (fold (scan_point bmp) ps S)). snd q \<in> {None, Some (- 1)}) \<and>
     set (snd S) \<subseteq> set (snd (fold (scan_point bmp) ps S)) \<and>
     (\<forall>p \<in> set ps \<inter> set bmp. check_isolated bmp p [] \<longrightarrow> (p, None) \<in> set (snd (fold (scan_point bmp) ps S)))"
  using assms
proof (induction ps arbitrary: S)
  case (Cons p ps)
  have "p \<notin> set (fst S)" using Cons.prems(3) by simp
  note s = scan_point_covers [OF Cons.prems(1) this Cons.prems(4), of bmp]
  have "set ps \<inter> set (fst (scan_point bmp p S)) = {}" using s(4) Cons.prems(2,3) by auto
  from Cons.IH [OF s(2) _ this s(3)] Cons.prems(2) s(1,5,6) show ?case by (auto split: if_splits)
qed simp

lemma find_points_covers:
  assumes "set bmp \<subseteq> {0 ..< width} \<times> {0 ..< height}" "find_points width height bmp = (other, dots)"
  shows "covers (other, dots) = set bmp" "\<forall>q \<in> set dots. snd q \<in> {None, Some (- 1)}"
    "p \<in> set bmp \<Longrightarrow> check_isolated bmp p [] \<Longrightarrow> (p, None) \<in> set dots"
proof -
  let ?ps = "concat (map (\<lambda>x. map (\<lambda>y. (x, y)) (map int [0 ..< nat height])) (map int [0 ..< nat width]))"
  have "?ps = List.product (map int [0 ..< nat width]) (map int [0 ..< nat height])" by (simp add: product_concat_map)
  then have d: "distinct ?ps" and s: "set ?ps = {0 ..< width} \<times> {0 ..< height}"
    by (simp_all only: set_product set_map int_upt) (simp add: distinct_product distinct_map)
  note c = scan_covers [of "([], [])" ?ps bmp, simplified fst_conv snd_conv, OF _ d]
  show "covers (other, dots) = set bmp" "\<forall>q \<in> set dots. snd q \<in> {None, Some (- 1)}"
    using c assms s by (auto simp: find_points_def covers_def)
  show "p \<in> set bmp \<Longrightarrow> check_isolated bmp p [] \<Longrightarrow> (p, None) \<in> set dots"
    using c assms s unfolding find_points_def by auto
qed

section \<open>Squares\<close>

text \<open>The square a dot grows to, in the directions \<open>h\<close> and \<open>v\<close>.\<close>

definition square :: "point \<Rightarrow> int \<Rightarrow> int \<Rightarrow> point set" where
  "square p h v = (case p of (x, y) \<Rightarrow> {(x, y), (x + h, y), (x, y + v), (x + h, y + v)})"

lemma grow_dir_cases: "grow_dir x a b = - 1 \<or> grow_dir x a b = 1"
  unfolding grow_dir_def by (split if_split)+ simp

lemma grow_dots:
  assumes "fold (grow_dot width ic oc) dots (ij, hit) = (ij', hit')" "\<forall>q \<in> set dots. snd q \<in> {None, Some (- 1)}"
  shows "set ij \<subseteq> set ij' \<and> (\<forall>q \<in> set dots. \<exists>h \<in> {- 1, 1}. \<exists>v \<in> {- 1, 1}. (snd q \<noteq> None \<longrightarrow> h = - 1) \<and> square (fst q) h v \<subseteq> set ij')"
  using assms
proof (induction dots arbitrary: ij hit)
  case (Cons q dots)
  obtain x y s where q: "q = ((x, y), s)" by (metis surj_pair)
  define h where "h = (case s of Some s \<Rightarrow> s | None \<Rightarrow> grow_dir x (fst ic) (fst oc))"
  define v where "v = grow_dir y (snd ic) (snd oc)"
  have hv: "h \<in> {- 1, 1}" "v \<in> {- 1, 1}" "s \<noteq> None \<longrightarrow> h = - 1"
    using Cons.prems(2) grow_dir_cases by (auto simp: h_def v_def q split: option.splits)
  obtain ij1 hit1 where g: "grow_dot width ic oc q (ij, hit) = (ij1, hit1)" by force
  then have ij1: "ij1 = ij @ [(x, y), (x, y + v), (x + h, y + v), (x + h, y)]"
    by (simp add: grow_dot_def q Let_def h_def v_def)
  from Cons.IH [of ij1 hit1] Cons.prems g have ih: "set ij1 \<subseteq> set ij'"
    "\<forall>q \<in> set dots. \<exists>h \<in> {- 1, 1}. \<exists>v \<in> {- 1, 1}. (snd q \<noteq> None \<longrightarrow> h = - 1) \<and> square (fst q) h v \<subseteq> set ij'" by auto
  have "square (fst q) h v \<subseteq> set ij'" using ih(1) by (auto simp: square_def q ij1)
  with hv have "\<exists>h \<in> {- 1, 1}. \<exists>v \<in> {- 1, 1}. (snd q \<noteq> None \<longrightarrow> h = - 1) \<and> square (fst q) h v \<subseteq> set ij'" by (auto simp: q)
  with ih show ?case by (auto simp: ij1)
qed simp

definition ext_le :: "extent \<Rightarrow> extent \<Rightarrow> bool" where
  "ext_le a b \<longleftrightarrow> ex_sx a \<le> ex_sx b \<and> ex_sy a \<le> ex_sy b \<and> ex_hdx a \<le> ex_hdx b \<and> ex_hdy a \<le> ex_hdy b"

definition ext_has :: "int \<Rightarrow> int \<Rightarrow> extent \<Rightarrow> point \<Rightarrow> bool" where
  "ext_has width height e p = (case p of (x, y) \<Rightarrow>
     0 \<le> x + ex_sx e \<and> x < width + ex_hdx e \<and> 0 \<le> y + ex_sy e \<and> y < height + ex_hdy e)"

abbreviation no_extent :: extent where
  "no_extent \<equiv> \<lparr>ex_sx = 0, ex_sy = 0, ex_hdx = 0, ex_hdy = 0\<rparr>"

lemma grow_extent_step:
  "ext_le e (grow_extent width height p e)" "ext_le no_extent e \<Longrightarrow> ext_has width height (grow_extent width height p e) p"
  by (cases p; auto simp: grow_extent_def ext_le_def ext_has_def)+

lemma ext_trans: "ext_le a b \<Longrightarrow> ext_le b c \<Longrightarrow> ext_le a c" "ext_le a b \<Longrightarrow> ext_has w h a p \<Longrightarrow> ext_has w h b p"
  by (auto simp: ext_le_def ext_has_def split: prod.splits)

lemma expand_bitmap_bounds: "ext_le no_extent (expand_bitmap width height ij)" "p \<in> set ij \<Longrightarrow> ext_has width height (expand_bitmap width height ij) p"
proof -
  have "ext_le e (fold (grow_extent width height) ij e) \<and> (\<forall>p \<in> set ij. ext_has width height (fold (grow_extent width height) ij e) p)"
    if "ext_le no_extent e" for e
    using that
  proof (induction ij arbitrary: e)
    case (Cons p ij)
    note s = grow_extent_step [of e width height p]
    let ?F = "fold (grow_extent width height) ij (grow_extent width height p e)"
    have ih: "ext_le (grow_extent width height p e) ?F" "\<forall>p \<in> set ij. ext_has width height ?F p"
      using Cons.IH [OF ext_trans(1) [OF Cons.prems s(1)]] by simp_all
    from ext_trans(1) [OF s(1) ih(1)] ext_trans(2) [OF ih(1) s(2) [OF Cons.prems]] ih(2) show ?case by simp
  qed (simp add: ext_le_def)
  from this [of no_extent] show "ext_le no_extent (expand_bitmap width height ij)" "p \<in> set ij \<Longrightarrow> ext_has width height (expand_bitmap width height ij) p"
    by (auto simp: expand_bitmap_def ext_le_def)
qed

section \<open>The result\<close>

lemma process_glyph_Inr:
  assumes "process_glyph order d = Inr (Some d')"
  obtains bmp main dots ic oc ij hit off e where "read_bitmap d = Inr bmp" "find_points (gf_width d) (gf_height d) bmp = (main, dots)"
    "dots \<noteq> []" "fold (grow_dot (gf_width d) ic oc) dots ([], 0) = (ij, hit)"
    "e = expand_bitmap (gf_width d) (gf_height d) (map (\<lambda>(x, y). (x - off, y)) ij)"
    "gf_width d' = gf_width d + ex_sx e + ex_hdx e" "gf_height d' = gf_height d + ex_sy e + ex_hdy e"
    "gf_rows d' = write_bitmap (gf_width d') (gf_height d') (ex_sx e) (ex_sy e) (rebuild e (map (\<lambda>(x, y). (x - off, y)) ij) main)"
proof -
  from assms obtain bmp where bmp: "read_bitmap d = Inr bmp" by (auto simp: process_glyph_def bindE_Inr_iff)
  obtain main dots where f: "find_points (gf_width d) (gf_height d) bmp = (main, dots)" by force
  from assms have dots: "dots \<noteq> []" by (auto simp: process_glyph_def bmp f)
  have "main \<noteq> []"
  proof
    assume "main = []"
    with assms show False by (simp add: process_glyph_def bmp f dots centroid_def)
  qed
  with dots obtain ix iy ox oy where c: "centroid fst (map fst dots) = Inr ix" "centroid snd (map fst dots) = Inr iy"
    "centroid fst main = Inr ox" "centroid snd main = Inr oy" by (simp add: centroid_def)
  obtain ij hit where g: "fold (grow_dot (gf_width d) (ix, iy) (ox, oy)) dots ([], 0) = (ij, hit)" by force
  have "\<exists>off hl. (if hit \<noteq> 0 then recentre order main ij else (ij, 0)) = (map (\<lambda>(x, y). (x - off, y)) ij, hl)"
    by (cases "hit = 0") (auto simp: recentre_def Let_def intro: exI [of _ 0])
  then obtain off hl where r: "(if hit \<noteq> 0 then recentre order main ij else (ij, 0)) = (map (\<lambda>(x, y). (x - off, y)) ij, hl)" by blast
  define e where "e = expand_bitmap (gf_width d) (gf_height d) (map (\<lambda>(x, y). (x - off, y)) ij)"
  have d': "d' = \<lparr>gf_width = gf_width d + ex_sx e + ex_hdx e, gf_height = gf_height d + ex_sy e + ex_hdy e,
      gf_left = gf_left d + ex_sx e - hl, gf_bottom = gf_bottom d - ex_sy e, gf_advance = gf_advance d + ex_sx e + ex_hdx e,
      gf_rows = write_bitmap (gf_width d + ex_sx e + ex_hdx e) (gf_height d + ex_sy e + ex_hdy e) (ex_sx e) (ex_sy e)
        (rebuild e (map (\<lambda>(x, y). (x - off, y)) ij) main)\<rparr>"
    using assms unfolding process_glyph_def bmp bindE_simps f Let_def prod.case c g r e_def [symmetric] if_not_P [OF dots]
    by (simp only: sum.inject option.inject)
  show thesis by (rule that [OF bmp f dots g e_def]) (simp_all add: d')
qed

lemma shifted_square:
  assumes "square p h v \<subseteq> set ij"
  shows "square (fst p - off, snd p) h v \<subseteq> set (map (\<lambda>(x, y). (x - off, y)) ij)"
  using assms by (cases p) (force simp: square_def image_iff)

lemma rebuilt_ink:
  assumes "read_bitmap d' = Inr bmp'" "set bmp' = {(x, y). 0 \<le> x \<and> x < gf_width d' \<and> 0 \<le> y \<and> y < gf_height d' \<and> (x - ex_sx e, y - ex_sy e) \<in> set (rebuild e ij main)}"
    "gf_width d' = width + ex_sx e + ex_hdx e" "gf_height d' = height + ex_sy e + ex_hdy e"
    "e = expand_bitmap width height ij" "set main \<subseteq> {0 ..< width} \<times> {0 ..< height}"
  shows "p \<in> set main \<Longrightarrow> (fst p + ex_sx e + ex_hdx e, snd p + ex_sy e) \<in> set bmp'"
    "p \<in> set ij \<Longrightarrow> (fst p + ex_sx e, snd p + ex_sy e) \<in> set bmp'"
proof -
  have n: "ext_le no_extent e" unfolding assms(5) by (rule expand_bitmap_bounds)
  assume p: "p \<in> set main"
  then have "(fst p + ex_hdx e, snd p) \<in> set (rebuild e ij main)" by (force simp: rebuild_def)
  moreover from p assms(6) have "p \<in> {0 ..< width} \<times> {0 ..< height}" by blast
  ultimately show "(fst p + ex_sx e + ex_hdx e, snd p + ex_sy e) \<in> set bmp'"
    using n by (cases p) (auto simp: assms(2-4) ext_le_def algebra_simps)
next
  assume p: "p \<in> set ij"
  then have "p \<in> set (rebuild e ij main)" by (simp add: rebuild_def)
  moreover from p have "ext_has width height e p" unfolding assms(5) by (rule expand_bitmap_bounds)
  ultimately show "(fst p + ex_sx e, snd p + ex_sy e) \<in> set bmp'" by (cases p) (auto simp: assms(2-4) ext_has_def)
qed

lemma square_shift: "square p h v \<subseteq> A \<Longrightarrow> (\<And>q. q \<in> A \<Longrightarrow> (fst q + a, snd q + b) \<in> B) \<Longrightarrow> square (fst p + a, snd p + b) h v \<subseteq> B"
  by (cases p) (force simp: square_def algebra_simps)

lemma covered_cases:
  assumes "p \<in> covers (main, dots)" "\<forall>q \<in> set dots. \<exists>h \<in> {- 1, 1}. \<exists>v \<in> {- 1, 1}. (snd q \<noteq> None \<longrightarrow> h = - 1) \<and> square (fst q) h v \<subseteq> A"
  shows "p \<in> set main \<or> (\<exists>h \<in> {- 1, 1}. \<exists>v \<in> {- 1, 1}. square p h v \<subseteq> A)"
proof -
  consider "p \<in> set main" | s where "(p, s) \<in> set dots" | x y s where "p = (x - 1, y)" "((x, y), Some s) \<in> set dots"
    using assms(1) by (force simp: covers_def)
  then show ?thesis
  proof cases
    case 3
    with assms(2) obtain v where v: "v \<in> {- 1, 1}" "square (x, y) (- 1) v \<subseteq> A" by fastforce
    moreover have "square p 1 v = square (x, y) (- 1) v" by (auto simp: square_def 3)
    ultimately show ?thesis by auto
  qed (use assms(2) in fastforce)+
qed

lemma process_glyph_keeps:
  assumes "process_glyph order d = Inr (Some d')"
  shows "\<exists>bmp bmp' dx dy ox. read_bitmap d = Inr bmp \<and> read_bitmap d' = Inr bmp' \<and> gf_width d \<le> gf_width d' \<and> gf_height d \<le> gf_height d' \<and>
     (\<forall>p \<in> set bmp. (fst p + dx, snd p + dy) \<in> set bmp' \<and> \<not> check_isolated bmp p [] \<or>
        (\<exists>h \<in> {- 1, 1}. \<exists>v \<in> {- 1, 1}. square (fst p + ox, snd p + dy) h v \<subseteq> set bmp'))"
proof -
  obtain bmp main dots ic oc ij hit off e where bmp: "read_bitmap d = Inr bmp" and f: "find_points (gf_width d) (gf_height d) bmp = (main, dots)"
    and dots: "dots \<noteq> []" and g: "fold (grow_dot (gf_width d) ic oc) dots ([], 0) = (ij, hit)"
    and e: "e = expand_bitmap (gf_width d) (gf_height d) (map (\<lambda>(x, y). (x - off, y)) ij)"
    and d': "gf_width d' = gf_width d + ex_sx e + ex_hdx e" "gf_height d' = gf_height d + ex_sy e + ex_hdy e"
      "gf_rows d' = write_bitmap (gf_width d') (gf_height d') (ex_sx e) (ex_sy e) (rebuild e (map (\<lambda>(x, y). (x - off, y)) ij) main)"
    by (rule process_glyph_Inr [OF assms])
  have area: "set bmp \<subseteq> {0 ..< gf_width d} \<times> {0 ..< gf_height d}" unfolding read_bitmap_set [OF bmp] by auto
  note fp = find_points_covers [OF area f]
  have n: "ext_le no_extent e" unfolding e by (rule expand_bitmap_bounds)
  have "set main \<subseteq> set bmp" using fp(1) by (auto simp: covers_def)
  with area have main: "set main \<subseteq> {0 ..< gf_width d} \<times> {0 ..< gf_height d}" by blast
  have "fst (hd dots) \<in> set bmp" unfolding fp(1) [symmetric] using dots by (cases dots) (auto simp: covers_def)
  with area have "0 \<le> gf_width d'" "0 \<le> gf_height d'" using n d'(1,2) by (auto simp: ext_le_def)
  then obtain bmp' where r: "read_bitmap d' = Inr bmp'" and s: "set bmp' = {(x, y). 0 \<le> x \<and> x < gf_width d' \<and> 0 \<le> y \<and> y < gf_height d' \<and>
      (x - ex_sx e, y - ex_sy e) \<in> set (rebuild e (map (\<lambda>(x, y). (x - off, y)) ij) main)}"
    by (rule write_read_bitmap [OF _ _ d'(3)])
  note ink = rebuilt_ink [OF r s d'(1,2) e main]
  note sq = conjunct2 [OF grow_dots [OF g fp(2)]]
  have grown: "\<exists>h \<in> {- 1, 1}. \<exists>v \<in> {- 1, 1}. square (fst p + (ex_sx e - off), snd p + ex_sy e) h v \<subseteq> set bmp'"
    if "\<exists>h \<in> {- 1, 1}. \<exists>v \<in> {- 1, 1}. square p h v \<subseteq> set ij" for p
  proof -
    from that obtain h v where hv: "h \<in> {- 1, 1}" "v \<in> {- 1, 1}" "square p h v \<subseteq> set ij" by blast
    have "(fst q + (ex_sx e - off), snd q + ex_sy e) \<in> set bmp'" if "q \<in> set ij" for q
      using ink(2) [of "(fst q - off, snd q)"] that by (force simp: algebra_simps)
    from square_shift [OF hv(3) this] hv(1,2) show ?thesis by blast
  qed
  have keep: "(fst p + (ex_sx e + ex_hdx e), snd p + ex_sy e) \<in> set bmp' \<and> \<not> check_isolated bmp p [] \<or>
      (\<exists>h \<in> {- 1, 1}. \<exists>v \<in> {- 1, 1}. square (fst p + (ex_sx e - off), snd p + ex_sy e) h v \<subseteq> set bmp')" if "p \<in> set bmp" for p
  proof (cases "check_isolated bmp p []")
    case True
    from fp(3) [OF that this] sq have "\<exists>h \<in> {- 1, 1}. \<exists>v \<in> {- 1, 1}. square p h v \<subseteq> set ij" by fastforce
    then show ?thesis using grown by blast
  next
    case False
    from covered_cases [OF _ sq] that fp(1) grown False ink(1) show ?thesis by (simp add: add.assoc) blast
  qed
  have "gf_width d \<le> gf_width d'" "gf_height d \<le> gf_height d'" using n d'(1,2) by (auto simp: ext_le_def)
  with bmp r keep show ?thesis by blast
qed

section \<open>Sample glyphs\<close>

text \<open>A letter of one stroke with a dot above it, and one of the dot alone.\<close>

definition beh_file :: glyph_file where
  "beh_file = \<lparr>gf_width = 3, gf_height = 3, gf_left = 0, gf_bottom = 3, gf_advance = 4, gf_rows = '' # '' @ [CHR 0x0A] @ ''   '' @ [CHR 0x0A] @ ''###'' @ [CHR 0x0A]\<rparr>"

definition dot_file :: glyph_file where
  "dot_file = \<lparr>gf_width = 1, gf_height = 1, gf_left = 0, gf_bottom = 1, gf_advance = 2, gf_rows = ''#'' @ [CHR 0x0A]\<rparr>"

definition bold_beh_file :: glyph_file where
  "bold_beh_file = \<lparr>gf_width = 3, gf_height = 4, gf_left = 0, gf_bottom = 2, gf_advance = 4,
     gf_rows = '' ##'' @ [CHR 0x0A] @ '' ##'' @ [CHR 0x0A] @ ''   '' @ [CHR 0x0A] @ ''###'' @ [CHR 0x0A]\<rparr>"

lemma beh_processed: "process_glyph id beh_file = Inr (Some bold_beh_file)"
  by code_simp

lemma dot_fails: "process_glyph id dot_file = Inl ZeroDivisionError"
  by code_simp

end
