(* ===== verification/Lut_Map.thy ===== *)
theory Lut_Map
  imports Lut_Refine
begin

text \<open>
  The second output of \<^verbatim>\<open>fonts/text_shaper.py\<close>: the map from code points to glyphs that the font generator works
  from.  It has every form of the tables but those whose glyph a supplementary character has too.
\<close>

lemma set_update_distinct:
  "distinct (map fst m) \<Longrightarrow> set (AList.update k v m) = {p \<in> set m. fst p \<noteq> k} \<union> {(k, v)}"
  by (induction m) force+

lemma distinct_update_values: "distinct (map snd m) \<Longrightarrow> v \<notin> snd ` set m \<Longrightarrow> distinct (map snd (AList.update k v m))"
proof (induction m)
  case (Cons p m)
  have "snd ` set (AList.update k v m) \<subseteq> insert v (snd ` set m)" by (induction m) auto
  with Cons show ?case by (cases p) auto
qed simp

text \<open>Turning the dictionary round loses nothing when its values differ.\<close>

lemma selected_codepts_turn:
  assumes "distinct (map snd sel)"
  shows "distinct (map fst (selected_codepts sel)) \<and> set (selected_codepts sel) = prod.swap ` set sel"
proof -
  have "distinct (map fst (fold (\<lambda>(k, v). AList.update v k) sel m)) \<and>
      set (fold (\<lambda>(k, v). AList.update v k) sel m) = prod.swap ` set sel \<union> set m"
    if "distinct (map fst m)" "fst ` set m \<inter> snd ` set sel = {}" for m
    using assms that
  proof (induction sel arbitrary: m)
    case (Cons p sel)
    obtain k v where p: "p = (k, v)" by force
    have "set (AList.update v k m) = insert (v, k) (set m)"
      using set_update_distinct [OF Cons.prems(2)] Cons.prems(3) by (auto simp: p)
    with Cons.IH [of "AList.update v k m"] Cons.prems show ?case by (auto simp: p distinct_update)
  qed simp
  from this [of "[]"] show ?thesis by (simp add: selected_codepts_def)
qed

lemma supplement_selected:
  assumes "supplement_selected_glyphs hb m chs sel = Inr sel'"
    "distinct (map fst sel)" "distinct (map snd sel)" "distinct chs" "set chs \<inter> snd ` set sel = {}"
  shows "distinct (map snd sel') \<and> snd ` set sel' \<subseteq> snd ` set sel \<union> set chs \<and>
     (\<forall>p \<in> set sel. fst p \<notin> (\<lambda>ch. hd (hb [ch])) ` set chs \<longrightarrow> p \<in> set sel') \<and> distinct (map fst sel')"
  using assms
proof (induction chs arbitrary: sel)
  case (Cons ch chs)
  from Cons.prems(1) obtain g gs where g: "hb [ch] = g # gs"
    and run: "supplement_selected_glyphs hb m chs (AList.update g ch sel) = Inr sel'"
    by (auto simp: bindE_Inr_iff hb_shape_text_def split: if_splits list.splits)
  note u = set_update_distinct [OF Cons.prems(2), of g ch]
  have "distinct (map snd (AList.update g ch sel))"
    using Cons.prems(3,5) by (intro distinct_update_values) auto
  moreover have "set chs \<inter> snd ` set (AList.update g ch sel) = {}" using Cons.prems(4,5) by (auto simp: u)
  ultimately have ih: "distinct (map snd sel')" "snd ` set sel' \<subseteq> snd ` set (AList.update g ch sel) \<union> set chs"
    "\<forall>p \<in> set (AList.update g ch sel). fst p \<notin> (\<lambda>ch. hd (hb [ch])) ` set chs \<longrightarrow> p \<in> set sel'" "distinct (map fst sel')"
    using Cons.IH [OF run] Cons.prems(2,4) by (simp_all add: distinct_update)
  have "snd ` set (AList.update g ch sel) \<subseteq> insert ch (snd ` set sel)" by (auto simp: u)
  with ih(2) have "snd ` set sel' \<subseteq> snd ` set sel \<union> set (ch # chs)" by auto
  moreover have "p \<in> set sel'" if "p \<in> set sel" "fst p \<notin> (\<lambda>ch. hd (hb [ch])) ` set (ch # chs)" for p
    using ih(3) that by (cases p) (auto simp: u g)
  ultimately show ?case using ih(1,4) by blast
qed simp

lemma supplement_nonempty:
  "supplement_selected_glyphs hb m chs sel = Inr sel' \<Longrightarrow> chs \<noteq> [] \<or> sel \<noteq> [] \<Longrightarrow> sel' \<noteq> []"
proof (induction chs arbitrary: sel)
  case (Cons ch chs)
  from Cons.prems(1) obtain g where run: "supplement_selected_glyphs hb m chs (AList.update g ch sel) = Inr sel'"
    unfolding supplement_selected_glyphs.simps bindE_Inr_iff by (metis (no_types, lifting) Inl_Inr_False list.case list.exhaust)
  have "AList.update g ch sel \<noteq> []" by (cases sel) auto
  with Cons.IH [OF run] show ?case by simp
qed simp

text \<open>
  A code point the shaper gave to a glyph that is also the glyph of a supplementary character: the entry of the
  character replaces it in the map.
\<close>

definition taken_over :: "(chars \<Rightarrow> glyph list) \<Rightarrow> nat list \<Rightarrow> nat \<Rightarrow> bool" where
  "taken_over hb A cp =
     (case bindE (generate_forms hb (hd (hb [0x14C4])) (hd (hb kashida)) (map (\<lambda>c. [c]) A @ lig_chars)) pack_lut of
        Inl _ \<Rightarrow> False
      | Inr st \<Rightarrow> \<exists>c \<in> set supplemental_alphabet. (hd (hb [c]), cp) \<in> set (selected_glyphs st))"

lemma supplemental_bounds: "distinct supplemental_alphabet" "set supplemental_alphabet \<inter> set scratch_codepts = {}"
  by (auto simp: supplemental_alphabet_def scratch_codepts_def)

text \<open>The map of a run: scratch code points and supplementary characters, each once, and each with a glyph of its own.\<close>

lemma shaper_codepts:
  assumes run: "text_shaper hb A = Inr (T, codepts)" and A: "alphabet_ok A"
  shows "codepts \<noteq> []" "distinct (map fst codepts)" "fst ` set codepts \<subseteq> set scratch_codepts \<union> set supplemental_alphabet" "inj_on snd (set codepts)"
    "\<lbrakk>e \<in> set (shaper_lut T); f \<in> set (forms e)\<rbrakk> \<Longrightarrow> f \<in> int ` fst ` set codepts \<or> taken_over hb A (nat f)"
proof -
  from text_shaper_Inr [OF run] obtain m k ks dict st sel where k: "hb kashida = k # ks"
    and dict: "generate_forms hb m k (map (\<lambda>c. [c]) A @ lig_chars) = Inr dict" and st: "pack_lut dict = Inr st" "packed_tables st = Inr T"
    and sup: "supplement_selected_glyphs hb m supplemental_alphabet (selected_glyphs st) = Inr sel" and codepts: "codepts = selected_codepts sel"
    and m: "hd (hb [0x14C4]) = m" .
  note ok = generated_dict_ok [OF dict A]
  have "tables_of_forms dict = Inr T" using st by (simp add: tables_of_forms_def)
  from tables_of_forms_built [OF this ok] st(1) obtain es where b: "built (\<lambda>ch. the (map_of dict ch)) es st T"
    and es: "map fst es = sort (map fst dict)" by auto
  let ?sel = "selected_glyphs st"
  from b have alloc: "distinct (map fst ?sel)" "distinct (map snd ?sel)" "snd ` set ?sel \<subseteq> set scratch_codepts"
    by (auto simp: built_def packed_def alloc_ok_def)
  have "set supplemental_alphabet \<inter> snd ` set ?sel = {}" using supplemental_bounds(2) alloc(3) by blast
  note s = supplement_selected [OF sup alloc(1,2) supplemental_bounds(1) this]
  note t = selected_codepts_turn [OF conjunct1 [OF s]]
  from t show "distinct (map fst codepts)" by (simp add: codepts)
  have "sel \<noteq> []" using supplement_nonempty [OF sup] by (simp add: supplemental_alphabet_def)
  with t show "codepts \<noteq> []" by (cases "selected_codepts sel") (auto simp: codepts)
  have "fst ` set codepts = snd ` set sel" using t by (auto simp: codepts image_image)
  with conjunct1 [OF conjunct2 [OF s]] alloc(3)
  show "fst ` set codepts \<subseteq> set scratch_codepts \<union> set supplemental_alphabet"
    by (simp only:) (rule order_trans, assumption, rule Un_mono, simp_all)
  have "inj_on fst (set sel)" using s by (simp add: distinct_map)
  then show "inj_on snd (set codepts)" using t by (auto simp: codepts inj_on_def)
  assume e: "e \<in> set (shaper_lut T)" and f: "f \<in> set (forms e)"
  from e obtain x where x: "x \<in> set es" "e = entry_of (\<lambda>ch. the (map_of dict ch)) st x" by (auto simp: built_shaper_lut [OF b])
  with f obtain g where g: "g \<in> set (the (map_of dict (fst x)))" "f = int (glyph_codept st g)"
    using built_forms [OF b] by auto
  have "g \<in> dom (map_of ?sel)" using b x(1) g(1) by (auto simp: built_def packed_def entry_ok_def)
  then have sel: "(g, glyph_codept st g) \<in> set ?sel" by (auto simp: glyph_codept_def dest: map_of_SomeD)
  show "f \<in> int ` fst ` set codepts \<or> taken_over hb A (nat f)"
  proof (cases "g \<in> (\<lambda>c. hd (hb [c])) ` set supplemental_alphabet")
    case True
    then have "\<exists>c \<in> set supplemental_alphabet. (hd (hb [c]), nat f) \<in> set ?sel" using sel by (auto simp: g(2))
    with dict st(1) show ?thesis by (simp add: taken_over_def m k)
  next
    case False
    with sel have "(g, glyph_codept st g) \<in> set sel" using s by force
    then have "(glyph_codept st g, g) \<in> set codepts" using t by (force simp: codepts)
    then show ?thesis by (force simp: g(2))
  qed
qed

end
