(* ===== verification/Compose.thy ===== *)
theory Compose
  imports Fix_Ijam Lut_Map Sample_Tables
begin

text \<open>
  \<^verbatim>\<open>fonts/compose.py\<close>: for every font of the firmware it generates the Arabic and Hebrew glyphs at the size of a
  template and merges them into the font.  The programs it calls are those of \<open>Lut_Gen\<close>, \<open>Fontgen\<close>, \<open>Fix_Ijam\<close>
  and \<open>Pfo\<close>; the typefaces are parameters.  The theory shows what the composed font holds, and that it can draw every text the
  runtime shapes.
\<close>

section \<open>Templates\<close>

record MergeMember =
  ttf_path :: string
  mm_size :: int
  with_shaper :: bool
  mm_codepts :: "int list option"
  mm_threshold :: "int option"
  fix_ijam :: bool

definition ARABIC_FONT :: string where
  "ARABIC_FONT = ''/Library/Fonts/Tahoma.ttf''"

definition ARABIC_FONT_BOLD :: string where
  "ARABIC_FONT_BOLD = ''/Library/Fonts/Tahoma Bold.ttf''"

definition ARABIC_FONT_BOLD_SERIF :: string where
  "ARABIC_FONT_BOLD_SERIF = ''/Library/Fonts/Times New Roman Bold.ttf''"

definition HEBREW_FONT :: string where
  "HEBREW_FONT = ARABIC_FONT"

definition HEBREW_FONT_BOLD :: string where
  "HEBREW_FONT_BOLD = ARABIC_FONT_BOLD"

definition HEBREW_FONT_BOLD_SERIF :: string where
  "HEBREW_FONT_BOLD_SERIF = ARABIC_FONT_BOLD_SERIF"

definition HEBREW_CODEPT_LIST :: "int list" where
  "HEBREW_CODEPT_LIST = [0x5c0, 0x5c3, 0x5c6, 0x20aa] @ map int [0x5d0..<0x5f5]"

definition ZERO_WIDTH_CODEPOINTS :: "int list" where
  "ZERO_WIDTH_CODEPOINTS = concat (map (\<lambda>(a, b). map int [unat a ..< unat b]) ZERO_WIDTH_CODEPOINT_RANGES)"

text \<open>The two kinds of member: letters by way of the shaper, and the Hebrew list.\<close>

definition shaped_member :: "string \<Rightarrow> int \<Rightarrow> int option \<Rightarrow> bool \<Rightarrow> MergeMember" where
  "shaped_member ttf n threshold ijam =
     \<lparr>ttf_path = ttf, mm_size = n, with_shaper = True, mm_codepts = None, mm_threshold = threshold, fix_ijam = ijam\<rparr>"

definition listed_member :: "string \<Rightarrow> int \<Rightarrow> int option \<Rightarrow> MergeMember" where
  "listed_member ttf n threshold =
     \<lparr>ttf_path = ttf, mm_size = n, with_shaper = False, mm_codepts = Some HEBREW_CODEPT_LIST, mm_threshold = threshold, fix_ijam = False\<rparr>"

definition NOTIFICATION_SET_SM :: "MergeMember list" where
  "NOTIFICATION_SET_SM = [shaped_member ARABIC_FONT 15 None False, listed_member HEBREW_FONT 15 None]"

definition NOTIFICATION_SET_SM_BOLD :: "MergeMember list" where
  "NOTIFICATION_SET_SM_BOLD = [shaped_member ARABIC_FONT_BOLD 14 None True, listed_member HEBREW_FONT_BOLD 16 None]"

definition NOTIFICATION_SET_MED :: "MergeMember list" where
  "NOTIFICATION_SET_MED = [shaped_member ARABIC_FONT 19 (Some 100) True, listed_member HEBREW_FONT 19 (Some 100)]"

definition NOTIFICATION_SET_MED_BOLD :: "MergeMember list" where
  "NOTIFICATION_SET_MED_BOLD = [shaped_member ARABIC_FONT_BOLD 19 None True, listed_member HEBREW_FONT_BOLD 19 None]"

definition NOTIFICATION_SET_LG :: "MergeMember list" where
  "NOTIFICATION_SET_LG = [shaped_member ARABIC_FONT 24 None False, listed_member HEBREW_FONT 26 None]"

definition NOTIFICATION_SET_LG_BOLD :: "MergeMember list" where
  "NOTIFICATION_SET_LG_BOLD = [shaped_member ARABIC_FONT_BOLD 24 None False, listed_member HEBREW_FONT_BOLD 26 None]"

definition notification_size_map :: "(string \<times> MergeMember list \<times> MergeMember list) list" where
  "notification_size_map =
     [(''small'', NOTIFICATION_SET_SM, NOTIFICATION_SET_SM_BOLD),
      (''medium'', NOTIFICATION_SET_MED, NOTIFICATION_SET_MED_BOLD),
      (''large'', NOTIFICATION_SET_LG, NOTIFICATION_SET_LG_BOLD)]"

definition TEMPLATES :: "MergeMember list \<Rightarrow> MergeMember list \<Rightarrow> ((int \<times> string option) \<times> MergeMember list) list" where
  "TEMPLATES notification notification_bold =
     [((9, None), [shaped_member ARABIC_FONT 9 None False, listed_member HEBREW_FONT 9 None]),
      ((14, None), [shaped_member ARABIC_FONT 13 None False, listed_member HEBREW_FONT 14 None]),
      ((14, Some ''BOLD''), [shaped_member ARABIC_FONT_BOLD 13 None True, listed_member HEBREW_FONT_BOLD 14 None]),
      ((18, None), NOTIFICATION_SET_SM),
      ((18, Some ''BOLD''), NOTIFICATION_SET_SM_BOLD),
      ((21, Some ''CONDENSED''), [shaped_member ARABIC_FONT 20 None True, listed_member HEBREW_FONT 21 None]),
      ((24, None), notification),
      ((24, Some ''BOLD''), notification_bold),
      ((28, None), NOTIFICATION_SET_LG),
      ((28, Some ''BOLD''), NOTIFICATION_SET_LG_BOLD),
      ((28, Some ''BOLD_SERIF''), [shaped_member ARABIC_FONT_BOLD_SERIF 24 None False, listed_member HEBREW_FONT_BOLD_SERIF 26 None]),
      ((30, Some ''BLACK''), [shaped_member ARABIC_FONT_BOLD 28 None False, listed_member HEBREW_FONT_BOLD 30 None]),
      ((42, Some ''LIGHT''), [shaped_member ARABIC_FONT 38 None False, listed_member HEBREW_FONT 42 None]),
      ((42, Some ''BOLD''), [shaped_member ARABIC_FONT_BOLD 38 None False, listed_member HEBREW_FONT_BOLD 42 None])]"

definition select_template :: "int \<Rightarrow> string option \<Rightarrow> string \<Rightarrow> py_error + MergeMember list" where
  "select_template px variant size_shift_key =
     (case map_of notification_size_map size_shift_key of
        None \<Rightarrow> Inl KeyError
      | Some (notification, notification_bold) \<Rightarrow>
          (case map_of (TEMPLATES notification notification_bold) (px, variant) of None \<Rightarrow> Inl KeyError | Some t \<Rightarrow> Inr t))"

section \<open>Names of fonts\<close>

text \<open>\<^verbatim>\<open>int(s)\<close>: digits, with a sign and white space around them.\<close>

definition py_space :: "char \<Rightarrow> bool" where
  "py_space c \<longleftrightarrow> of_char c \<in> {9 .. 13 :: nat} \<union> {28 .. 32}"

definition py_strip :: "string \<Rightarrow> string" where
  "py_strip s = rev (dropWhile py_space (rev (dropWhile py_space s)))"

definition py_digits :: "string \<Rightarrow> py_error + int" where
  "py_digits s =
     (if s \<noteq> [] \<and> (\<forall>c \<in> set s. of_char c \<in> {48 .. 57 :: nat})
      then Inr (fold (\<lambda>c n. 10 * n + (of_char c - 48)) s 0) else Inl ValueError)"

definition py_int :: "string \<Rightarrow> py_error + int" where
  "py_int s = (case py_strip s of
      [] \<Rightarrow> Inl ValueError
    | c # cs \<Rightarrow> if c = CHR ''-'' then bindE (py_digits cs) (\<lambda>n. Inr (- n))
        else if c = CHR ''+'' then py_digits cs else py_digits (c # cs))"

text \<open>Size and variant of a font, from the name of its file; \<^verbatim>\<open>int(None)\<close> raises a \<open>TypeError\<close>.\<close>

definition size_and_variant :: "string \<Rightarrow> py_error + int \<times> string option" where
  "size_and_variant input_pfo_name =
     (let input_split = py_split (CHR ''_'') (hd (py_split (CHR ''.'') input_pfo_name)); n = length input_split;
          (px, variant) = (if n > 3 then (input_split ! (n - 2), Some (input_split ! (n - 1))) else (input_split ! (n - 1), None)) in
      bindE (case py_int px of
               Inr k \<Rightarrow> Inr (k, variant)
             | Inl _ \<Rightarrow> (case variant of None \<Rightarrow> Inl TypeError | Some v \<Rightarrow> bindE (py_int v) (\<lambda>k. Inr (k, Some px))))
        (\<lambda>(px, variant).
           if py_in ''SERIF'' input_pfo_name then
             (case variant of None \<Rightarrow> Inl TypeError | Some v \<Rightarrow> Inr (px, Some (v @ ''_SERIF'')))
           else Inr (px, variant)))"

section \<open>Composing a font\<close>

text \<open>
  The typefaces: what \<^verbatim>\<open>hb-shape\<close> and FreeType give for them; for a typeface at a size, the dumped bitmaps of its Arabic
  letters and the edited ones that are there before, by code point and glyph; and the orders in which Python lists
  dictionaries.
\<close>

record typefaces =
  hb_shape :: "string \<Rightarrow> chars \<Rightarrow> glyph list"
  ft_load :: "string \<Rightarrow> int \<Rightarrow> int \<Rightarrow> ft_glyph"
  ft_charmap :: "string \<Rightarrow> (int \<times> int) list"
  arabic_dumps :: "string \<Rightarrow> int \<Rightarrow> ((int \<times> int) \<times> glyph_file) list"
  edited_files :: "string \<Rightarrow> int \<Rightarrow> int \<Rightarrow> int \<Rightarrow> glyph_file option"
  points_order :: "point list \<Rightarrow> point list"
  items_order :: "(int \<times> nat) list \<Rightarrow> (int \<times> nat) list"

type_synonym shaper_result = "(tables \<times> (nat \<times> glyph) list) option"

definition subsets :: "string \<Rightarrow> py_error + nat list" where
  "subsets key = (if key = ''full'' then Inr full_alphabet else if key = ''arabic'' then Inr arabic_alphabet else Inl KeyError)"

definition pfo_compressed :: "u8 list \<Rightarrow> py_error + bool" where
  "pfo_compressed pfo = (case pfo of
      [] \<Rightarrow> Inl TypeError
    | pfo_ver # _ \<Rightarrow>
        if pfo_ver = 3 then if 9 < length pfo then Inr (bit (pfo ! 9) 1) else Inl TypeError
        else Inr False)"

text \<open>The arguments for \<^verbatim>\<open>fontgen.py\<close>, as \<open>cmd_pfo\<close> applies them; a threshold of zero counts as none.\<close>

definition MAX_GLYPHS :: nat where
  "MAX_GLYPHS = 256"

definition fontgen_params :: "int \<Rightarrow> bool \<Rightarrow> shaper_result \<Rightarrow> MergeMember \<Rightarrow> fontgen" where
  "fontgen_params px rle shaper m =
     \<lparr>fg_version = 3, fg_max_height = mm_size m, tracking_adjust = 0, fg_regex = None,
      fg_codepoints = (case mm_codepts m of Some (c # cs) \<Rightarrow> (\<lambda>x. x \<in> set (c # cs)) | _ \<Rightarrow> (\<lambda>x. 0x20 \<le> x \<and> x < 0x10ffff)),
      max_glyphs = MAX_GLYPHS, fg_features = (if rle then FEATURE_RLE4 else 0),
      codepoints_map = (if with_shaper m then (case shaper of None \<Rightarrow> [] | Some (_, codepts) \<Rightarrow> map (\<lambda>(c, g). (int c, int g)) codepts) else []),
      zero_width_codepts = ZERO_WIDTH_CODEPOINTS,
      fg_shift = (if mm_size m \<noteq> px then (0, px - mm_size m) else (0, 0)),
      fg_threshold = (case mm_threshold m of Some t \<Rightarrow> if t \<noteq> 0 then t else 127 | None \<Rightarrow> 127)\<rparr>"

definition run_fontgen :: "typefaces \<Rightarrow> fontgen \<Rightarrow> (int \<Rightarrow> int \<Rightarrow> glyph_file option) \<Rightarrow> MergeMember \<Rightarrow> py_error + u8 list" where
  "run_fontgen tf f files m = convert_to_pfo f (ft_load tf (ttf_path m) (mm_size m)) files (ft_charmap tf (ttf_path m))"

text \<open>The bitmaps the generator collects: what \<^verbatim>\<open>fix_ijam.py\<close> writes over what is there.\<close>

definition run_fix_ijam :: "typefaces \<Rightarrow> MergeMember \<Rightarrow> py_error + (int \<Rightarrow> int \<Rightarrow> glyph_file option)" where
  "run_fix_ijam tf m =
     (if fix_ijam m then
        bindE (fix_ijam_all (points_order tf) (arabic_dumps tf (ttf_path m) (mm_size m))) (\<lambda>outs.
          Inr (\<lambda>c g. case map_of outs (c, g) of None \<Rightarrow> edited_files tf (ttf_path m) (mm_size m) c g | Some d \<Rightarrow> Some d))
      else Inr (\<lambda>_ _. None))"

definition run_shaper :: "typefaces \<Rightarrow> string \<Rightarrow> MergeMember \<Rightarrow> shaper_result \<Rightarrow> py_error + shaper_result" where
  "run_shaper tf subset_key m shaper =
     (if with_shaper m \<and> shaper = None then
        bindE (subsets subset_key) (\<lambda>alphabet. bindE (text_shaper (hb_shape tf (ttf_path m)) alphabet) (\<lambda>r. Inr (Some r)))
      else Inr shaper)"

text \<open>The members in turn; \<open>None\<close> when one of them cannot be generated.\<close>

fun generate_members ::
  "typefaces \<Rightarrow> string \<Rightarrow> int \<Rightarrow> bool \<Rightarrow> MergeMember list \<Rightarrow> shaper_result \<Rightarrow> py_error + u8 list list option \<times> shaper_result" where
  "generate_members tf subset_key px rle [] shaper = Inr (Some [], shaper)"
| "generate_members tf subset_key px rle (m # ms) shaper =
     bindE (run_shaper tf subset_key m shaper) (\<lambda>shaper.
     bindE (run_fix_ijam tf m) (\<lambda>files.
       case run_fontgen tf (fontgen_params px rle shaper m) files m of
         Inl _ \<Rightarrow> Inr (None, shaper)
       | Inr pfo \<Rightarrow> bindE (generate_members tf subset_key px rle ms shaper) (\<lambda>(pfos, shaper).
           Inr (map_option ((#) pfo) pfos, shaper))))"

definition compose_font ::
  "typefaces \<Rightarrow> string \<Rightarrow> string \<Rightarrow> string \<Rightarrow> u8 list \<Rightarrow> shaper_result \<Rightarrow> py_error + u8 list option \<times> shaper_result" where
  "compose_font tf subset_key size_shift_key input_pfo_name pfo shaper =
     bindE (size_and_variant input_pfo_name) (\<lambda>(px, variant).
       case select_template px variant size_shift_key of
         Inl _ \<Rightarrow> Inr (None, shaper)
       | Inr template \<Rightarrow>
           bindE (pfo_compressed pfo) (\<lambda>rle.
           bindE (generate_members tf subset_key px rle template shaper) (\<lambda>(pfos, shaper).
             case pfos of
               None \<Rightarrow> Inr (None, shaper)
             | Some pfos \<Rightarrow> bindE (pfo_merge (items_order tf) (pfo # pfos)) (\<lambda>out. Inr (Some out, shaper)))))"

definition blacklist :: "string list" where
  "blacklist = [''NUMBERS'', ''SUBSET'', ''EMOJI'']"

text \<open>All fonts of a directory: the files written, by name.\<close>

fun compose_all ::
  "typefaces \<Rightarrow> string \<Rightarrow> string \<Rightarrow> string \<Rightarrow> (string \<times> u8 list) list \<Rightarrow> shaper_result \<Rightarrow> py_error + (string \<times> u8 list) list" where
  "compose_all tf subset_key size_shift_key in_dir [] shaper = Inr []"
| "compose_all tf subset_key size_shift_key in_dir ((name, pfo) # files) shaper =
     (if \<exists>b \<in> set blacklist. py_in b (in_dir @ ''/'' @ name) then compose_all tf subset_key size_shift_key in_dir files shaper
      else bindE (compose_font tf subset_key size_shift_key name pfo shaper) (\<lambda>(out, shaper).
           bindE (compose_all tf subset_key size_shift_key in_dir files shaper) (\<lambda>outs.
             Inr (case out of None \<Rightarrow> outs | Some pfo \<Rightarrow> (name, pfo) # outs))))"

section \<open>What the members are asked for\<close>

definition member_files :: "typefaces \<Rightarrow> MergeMember \<Rightarrow> int \<Rightarrow> int \<Rightarrow> glyph_file option" where
  "member_files tf m = (case run_fix_ijam tf m of Inl _ \<Rightarrow> (\<lambda>_ _. None) | Inr files \<Rightarrow> files)"

abbreviation run_member :: "typefaces \<Rightarrow> int \<Rightarrow> shaper_result \<Rightarrow> MergeMember \<Rightarrow> py_error + u8 list" where
  "run_member tf px shaper m \<equiv> run_fontgen tf (fontgen_params px False shaper m) (member_files tf m) m"

definition member_job :: "typefaces \<Rightarrow> int \<Rightarrow> shaper_result \<Rightarrow> MergeMember \<Rightarrow> font_job" where
  "member_job tf px shaper m =
     (fontgen_params px False shaper m, ft_load tf (ttf_path m) (mm_size m),
      member_files tf m, ft_charmap tf (ttf_path m))"

lemma run_fontgen_job:
  "run_member tf px shaper m =
     (case member_job tf px shaper m of (f, load_glyph, files, charmap) \<Rightarrow> convert_to_pfo f load_glyph files charmap)"
  by (simp add: run_fontgen_def member_job_def)

text \<open>
  What FreeType documents of its faces and what the script relies on: each code point is listed once, and none of them
  is the wildcard; glyph zero, which stands for missing characters, has no edited bitmap; a dictionary lists its entries
  in some order.
\<close>

definition typefaces_ok :: "typefaces \<Rightarrow> bool" where
  "typefaces_ok tf \<longleftrightarrow> (\<forall>m. mset (items_order tf m) = mset m) \<and> (\<forall>p n i. slot_ok (ft_load tf p n i)) \<and>
     (\<forall>m c. member_files tf m c 0 = None) \<and>
     (\<forall>p. distinct (map fst (ft_charmap tf p)) \<and> WILDCARD_CODEPOINT \<notin> fst ` set (ft_charmap tf p))"

text \<open>The code points a member can be asked for.\<close>

definition mapped_space :: "int list" where
  "mapped_space = map int (scratch_codepts @ supplemental_alphabet)"

definition member_space :: "int list" where
  "member_space = WILDCARD_CODEPOINT # ELLIPSIS_CODEPOINT # ZERO_WIDTH_CODEPOINTS @ HEBREW_CODEPT_LIST @ mapped_space"

lemma zero_width_list:
  "ZERO_WIDTH_CODEPOINTS = map int ([0x591..<0x5C0] @ [0x5C1..<0x5C3] @ [0x5C4..<0x5C6] @ [0x5C7..<0x5C8] @ [0x610..<0x61B] @
     [0x64B..<0x660] @ [0x6D6..<0x6DC] @ [0x6DF..<0x6E9] @ [0x6EA..<0x6EE] @ [0x8B6..<0x8FF])"
  by (simp only: ZERO_WIDTH_CODEPOINTS_def ZERO_WIDTH_CODEPOINT_RANGES_def list.map concat.simps prod.case map_append append_Nil2)
    simp

lemma member_space_props:
  "length member_space = 441" "set member_space \<subseteq> {0 ..< 255 * 48}" "distinct ZERO_WIDTH_CODEPOINTS"
  "WILDCARD_CODEPOINT \<notin> set ZERO_WIDTH_CODEPOINTS \<union> set mapped_space" "set ZERO_WIDTH_CODEPOINTS \<inter> set mapped_space = {}"
  "set ZERO_WIDTH_CODEPOINTS \<inter> insert ELLIPSIS_CODEPOINT (set HEBREW_CODEPT_LIST) = {}"
proof -
  show "length member_space = 441"
    by (simp add: member_space_def zero_width_list HEBREW_CODEPT_LIST_def mapped_space_def scratch_codepts_def supplemental_alphabet_def del: upt_rec_numeral)
  show "set member_space \<subseteq> {0 ..< 255 * 48}"
    by (auto simp: member_space_def zero_width_list HEBREW_CODEPT_LIST_def mapped_space_def scratch_codepts_def supplemental_alphabet_def
        WILDCARD_CODEPOINT_def ELLIPSIS_CODEPOINT_def simp del: upt_rec_numeral)
  show "distinct ZERO_WIDTH_CODEPOINTS"
    unfolding zero_width_list distinct_map by (auto simp del: upt_rec_numeral)
  show "WILDCARD_CODEPOINT \<notin> set ZERO_WIDTH_CODEPOINTS \<union> set mapped_space" "set ZERO_WIDTH_CODEPOINTS \<inter> set mapped_space = {}"
    by (auto simp: zero_width_list mapped_space_def scratch_codepts_def supplemental_alphabet_def WILDCARD_CODEPOINT_def simp del: upt_rec_numeral)
  show "set ZERO_WIDTH_CODEPOINTS \<inter> insert ELLIPSIS_CODEPOINT (set HEBREW_CODEPT_LIST) = {}"
    by (auto simp: zero_width_list HEBREW_CODEPT_LIST_def ELLIPSIS_CODEPOINT_def simp del: upt_rec_numeral)
qed

lemma template_members:
  assumes "select_template px v key = Inr t"
  obtains a b where "t = [a, b]" "with_shaper a" "mm_codepts a = None" "\<not> with_shaper b" "mm_codepts b = Some HEBREW_CODEPT_LIST"
    "\<not> fix_ijam b" "0 \<le> mm_size a" "mm_size a \<le> 255" "0 \<le> mm_size b" "mm_size b \<le> 255"
proof -
  define good where "good t \<longleftrightarrow> (\<exists>a b. t = [a, b] \<and> with_shaper a \<and> mm_codepts a = None \<and> \<not> with_shaper b \<and>
    mm_codepts b = Some HEBREW_CODEPT_LIST \<and> \<not> fix_ijam b \<and> 0 \<le> mm_size a \<and> mm_size a \<le> 255 \<and> 0 \<le> mm_size b \<and> mm_size b \<le> 255)" for t :: "MergeMember list"
  have g: "good [shaped_member p n th ij, listed_member q k th']" if "n \<in> {0..255}" "k \<in> {0..255}" for p n th ij q k th'
    using that by (simp add: good_def shaped_member_def listed_member_def)
  have s: "good NOTIFICATION_SET_SM" "good NOTIFICATION_SET_SM_BOLD" "good NOTIFICATION_SET_MED" "good NOTIFICATION_SET_MED_BOLD"
    "good NOTIFICATION_SET_LG" "good NOTIFICATION_SET_LG_BOLD"
    unfolding NOTIFICATION_SET_SM_def NOTIFICATION_SET_SM_BOLD_def NOTIFICATION_SET_MED_def NOTIFICATION_SET_MED_BOLD_def
      NOTIFICATION_SET_LG_def NOTIFICATION_SET_LG_BOLD_def by (rule g; simp)+
  from assms obtain n nb where n: "map_of notification_size_map key = Some (n, nb)" and t: "map_of (TEMPLATES n nb) (px, v) = Some t"
    by (auto simp: select_template_def split: option.splits)
  from map_of_SomeD [OF n] s have "good n" "good nb" by (auto simp: notification_size_map_def)
  with s have "\<forall>x \<in> set (TEMPLATES n nb). good (snd x)" unfolding TEMPLATES_def by (simp add: g)
  with map_of_SomeD [OF t] have "good t" by force
  with that show thesis by (auto simp: good_def)
qed


text \<open>The map of a run of the shaper, fresh or kept from a font before.\<close>

definition shaper_map_ok :: "(nat \<times> glyph) list \<Rightarrow> bool" where
  "shaper_map_ok codepts \<longleftrightarrow> codepts \<noteq> [] \<and> distinct (map fst codepts) \<and> int ` fst ` set codepts \<subseteq> set mapped_space \<and> inj_on snd (set codepts)"

lemma shaper_map_generated: "text_shaper hb A = Inr (T, codepts) \<Longrightarrow> alphabet_ok A \<Longrightarrow> shaper_map_ok codepts"
  using shaper_codepts(1-4) [of hb A T codepts] by (auto simp: shaper_map_ok_def mapped_space_def)

lemma chosen_subset:
  "e \<in> set (chosen f n cs) \<Longrightarrow> fst e \<in> fst ` set cs \<and> codepoint_is_in_subset f (fst e)"
  by (induction f n cs rule: chosen.induct) (auto split: if_splits)

lemma chosen_distinct: "distinct (map fst cs) \<Longrightarrow> distinct (map fst (chosen f n cs))"
proof (induction f n cs rule: chosen.induct)
  case (2 f n c g cs)
  have "c \<notin> fst ` set (chosen f k cs)" for k
    using chosen_subset [of _ f k cs] "2.prems" by auto
  with 2 show ?case by auto
qed simp

lemma requested_listed:
  assumes tf: "typefaces_ok tf" and m: "\<not> with_shaper m" "mm_codepts m = Some HEBREW_CODEPT_LIST"
    and r: "r = requested (fontgen_params px False shaper m) (ft_charmap tf (ttf_path m))"
  shows "distinct (map fst r)" "fst ` set r \<subseteq> set member_space"
proof -
  let ?f = "fontgen_params px False shaper m" and ?cs = "ft_charmap tf (ttf_path m)"
  let ?ch = "chosen ?f (Suc (length ZERO_WIDTH_CODEPOINTS)) ?cs"
  have fcp: "fg_codepoints ?f c = (c \<in> set HEBREW_CODEPT_LIST)" for c
    by (simp add: fontgen_params_def m(2) HEBREW_CODEPT_LIST_def del: upt_rec_numeral)
  have sub: "fst ` set ?ch \<subseteq> insert ELLIPSIS_CODEPOINT (set HEBREW_CODEPT_LIST)"
  proof
    fix c assume "c \<in> fst ` set ?ch"
    then have "c \<in> fst ` set ?cs" "codepoint_is_in_subset ?f c" using chosen_subset by force+
    moreover have "WILDCARD_CODEPOINT \<notin> fst ` set ?cs" using tf by (simp add: typefaces_ok_def)
    ultimately show "c \<in> insert ELLIPSIS_CODEPOINT (set HEBREW_CODEPT_LIST)"
      unfolding codepoint_is_in_subset_def fcp by (metis insertE insertI1 insertI2 singletonD)
  qed
  have r': "map fst r = WILDCARD_CODEPOINT # ZERO_WIDTH_CODEPOINTS @ map fst ?ch"
    using m(1) by (simp add: r requested_def fontgen_params_def comp_def)
  have "WILDCARD_CODEPOINT \<notin> fst ` set ?ch"
    using sub by (auto simp: HEBREW_CODEPT_LIST_def WILDCARD_CODEPOINT_def ELLIPSIS_CODEPOINT_def simp del: upt_rec_numeral)
  moreover have "distinct (map fst ?ch)" using tf by (intro chosen_distinct) (simp add: typefaces_ok_def)
  ultimately show "distinct (map fst r)" using member_space_props(3,4,6) sub by (auto simp: r')
  have "fst ` set r = set (map fst r)" by simp
  then show "fst ` set r \<subseteq> set member_space" unfolding r' using sub by (auto simp: member_space_def)
qed

lemma requested_mapped:
  assumes m: "with_shaper m" and c: "shaper_map_ok codepts"
    and r: "r = requested (fontgen_params px False (Some (T, codepts)) m) charmap"
  shows "distinct (map fst r)" "fst ` set r \<subseteq> set member_space" "int ` fst ` set codepts \<union> set ZERO_WIDTH_CODEPOINTS \<subseteq> fst ` set r"
proof -
  let ?cs = "map (\<lambda>(c, g). (int c, int g)) codepts"
  have r': "map fst r = WILDCARD_CODEPOINT # ZERO_WIDTH_CODEPOINTS @ map fst (sort_key fst ?cs)"
    using m c by (simp add: r requested_def fontgen_params_def shaper_map_ok_def comp_def split_beta)
  have s: "set (map fst (sort_key fst ?cs)) = int ` fst ` set codepts" by (force simp: image_iff)
  have "distinct (map fst ?cs)" using c by (simp add: shaper_map_ok_def comp_def split_beta distinct_map inj_on_def)
  moreover have "mset (map fst (sort_key fst ?cs)) = mset (map fst ?cs)" unfolding mset_map mset_sort ..
  ultimately have "distinct (map fst (sort_key fst ?cs))" using mset_eq_imp_distinct_iff by blast
  then show "distinct (map fst r)"
    using member_space_props(3-5) c unfolding r' distinct.simps distinct_append set_append s shaper_map_ok_def by blast
  have r: "fst ` set r = set (map fst r)" by simp
  show "fst ` set r \<subseteq> set member_space" "int ` fst ` set codepts \<union> set ZERO_WIDTH_CODEPOINTS \<subseteq> fst ` set r"
    unfolding r r' using s c by (auto simp: member_space_def shaper_map_ok_def)
qed

text \<open>Whatever the bitmaps are, code points of a member that share a glyph share them.\<close>

lemma by_glyph_listed: "\<not> fix_ijam m \<Longrightarrow> by_glyph r (glyph_file_of (member_files tf m))"
proof -
  assume "\<not> fix_ijam m"
  then have "glyph_file_of (member_files tf m) c g = None" for c g by (cases g) (simp_all add: member_files_def run_fix_ijam_def)
  then show ?thesis by (simp add: by_glyph_def)
qed

lemma by_glyph_mapped:
  assumes tf: "typefaces_ok tf" and m: "with_shaper m" and c: "shaper_map_ok codepts"
  shows "by_glyph (requested (fontgen_params px False (Some (T, codepts)) m) charmap) (glyph_file_of (member_files tf m))"
proof -
  have zero: "member_files tf m c 0 = None" for c using tf by (simp add: typefaces_ok_def)
  have r: "set (requested (fontgen_params px False (Some (T, codepts)) m) charmap) =
      insert (WILDCARD_CODEPOINT, Glyph_Index 0) ((\<lambda>c. (c, ZERO_WIDTH_GLYPH_INDEX)) ` set ZERO_WIDTH_CODEPOINTS \<union>
        (\<lambda>(c, g). (int c, Glyph_Index (int g))) ` set codepts)"
    using m c by (force simp: requested_def fontgen_params_def shaper_map_ok_def)
  have "c = c'" if "(c, g) \<in> set codepts" "(c', g) \<in> set codepts" for c c' g
    using inj_onD [of snd "set codepts" "(c, g)" "(c', g)"] c that by (simp add: shaper_map_ok_def)
  then show ?thesis unfolding by_glyph_def r using zero by fastforce
qed

section \<open>The composed font\<close>

lemma bin_bound:
  assumes "S \<subseteq> {0 ..< 255 * int n}"
  shows "card {c \<in> S. c mod 255 = b} \<le> n"
proof -
  have "inj_on (\<lambda>c. c div 255) {c \<in> S. c mod 255 = b}" by (rule inj_onI, clarsimp) presburger
  moreover have "(\<lambda>c. c div 255) ` {c \<in> S. c mod 255 = b} \<subseteq> {0 ..< int n}" using assms by (auto simp: div_less_iff_less_mult) force+
  ultimately have "card {c \<in> S. c mod 255 = b} \<le> card {0 ..< int n}" by (intro card_inj_on_le) auto
  then show ?thesis by simp
qed

lemma member_job_ok:
  assumes tf: "typefaces_ok tf" and r: "r = requested (fontgen_params px False shaper m) (ft_charmap tf (ttf_path m))"
    "distinct (map fst r)" "fst ` set r \<subseteq> set member_space" "by_glyph r (glyph_file_of (member_files tf m))"
  shows "job_ok (member_job tf px shaper m)" "single_valued (job_chars (member_job tf px shaper m))"
    "renders (member_job tf px shaper m) \<Longrightarrow> 0 \<le> mm_size m \<Longrightarrow> mm_size m \<le> 255 \<Longrightarrow> job_fits (member_job tf px shaper m)"
    "Domain (job_chars (member_job tf px shaper m)) \<subseteq> set member_space"
    "renders (member_job tf px shaper m) \<Longrightarrow> fst ` set r \<subseteq> Domain (job_chars (member_job tf px shaper m))"
proof -
  let ?f = "fontgen_params px False shaper m"
  have f: "fg_version ?f = 3" "fg_features ?f = 0" "fg_max_height ?f = mm_size m" by (simp_all add: fontgen_params_def)
  have range: "0 \<le> fst e \<and> fst e < 255 * 48" if "e \<in> set r" for e using r(3) that member_space_props(2) by force
  then have "\<forall>e \<in> set r. fst e \<le> MAX_2_BYTES_CODEPOINT" by (force simp: MAX_2_BYTES_CODEPOINT_def)
  then show "job_ok (member_job tf px shaper m)"
    using tf r(4) unfolding member_job_def job_ok.simps typefaces_ok_def r(1) f by simp
  have "g = g'" if "(c, g) \<in> set r" "(c, g') \<in> set r" for c g g'
    using r(2) that by (rule eq_key_imp_eq_value)
  then show "single_valued (job_chars (member_job tf px shaper m))"
    by (fastforce simp: member_job_def single_valued_def r(1) [symmetric])
  show "Domain (job_chars (member_job tf px shaper m)) \<subseteq> set member_space"
    using r(3) by (force simp: member_job_def r(1) [symmetric])
  assume re: "renders (member_job tf px shaper m)"
  show "fst ` set r \<subseteq> Domain (job_chars (member_job tf px shaper m))"
  proof
    fix c assume "c \<in> fst ` set r"
    then obtain g where g: "(c, g) \<in> set r" by force
    obtain f load_glyph files charmap where job: "member_job tf px shaper m = (f, load_glyph, files, charmap)" "requested f charmap = r"
      by (simp add: member_job_def r(1))
    with re g have "\<not> isl (glyph_bits f load_glyph files c g)" by force
    then obtain d where "glyph_bits f load_glyph files c g = Inr d" by (cases "glyph_bits f load_glyph files c g") auto
    with g job show "c \<in> Domain (job_chars (member_job tf px shaper m))" by auto
  qed
  assume sz: "0 \<le> mm_size m" "mm_size m \<le> 255"
  have "length r = card (fst ` set r)" using distinct_card [OF r(2)] by simp
  also have "\<dots> \<le> card (set member_space)" using r(3) by (intro card_mono) auto
  also have "\<dots> \<le> 441" using card_length [of member_space] member_space_props(1) by simp
  finally have len: "length r \<le> 441" .
  have "length (filter (\<lambda>e'. fst e' mod 255 = b) r) \<le> 48" for b
  proof -
    have "length (filter (\<lambda>e'. fst e' mod 255 = b) r) = card (set (filter (\<lambda>c. c mod 255 = b) (map fst r)))"
      using distinct_card [of "filter (\<lambda>c. c mod 255 = b) (map fst r)"] r(2) by (simp add: filter_map comp_def distinct_map_filter)
    also have "\<dots> = card {c \<in> fst ` set r. c mod 255 = b}" by (rule arg_cong [of _ _ card]) auto
    also have "\<dots> \<le> 48" by (rule bin_bound, rule order_trans [OF r(3)]) (use member_space_props(2) in simp)
    finally show ?thesis .
  qed
  then have "length (filter (\<lambda>e'. fst e' mod 255 = b) r) \<le> 255" for b by (meson le_trans numeral_le_iff semiring_norm)
  with re sz f len range show "job_fits (member_job tf px shaper m)" by (simp add: member_job_def r(1) [symmetric])
qed


lemma read_header_compressed:
  assumes "read_header pfo = Inr (n, wide, rle, h, ct, w)"
  shows "pfo \<noteq> [] \<and> (if hd pfo = 3 then length (take 10 pfo) = 10 \<and> rle = bit (last (take 10 pfo)) 1 else \<not> rle)"
proof -
  obtain xs ys where t: "take 10 pfo = xs" "take 8 pfo = ys" by blast
  from assms show ?thesis unfolding read_header_def t by (simp split: list.split_asm if_split_asm)
qed

lemma pfo_compressed_read:
  assumes "font_read pfo = Inr font"
  shows "pfo_compressed pfo = Inr (compressed font)"
proof -
  from assms obtain n wide h ct w where "read_header pfo = Inr (n, wide, compressed font, h, ct, w)"
    by (auto simp: font_read_def bindE_Inr_iff Let_def)
  note h = read_header_compressed [OF this]
  have "last (take 10 pfo) = pfo ! 9" if "length (take 10 pfo) = 10"
    using that by (subst last_conv_nth) (auto simp del: length_take)
  with h show ?thesis by (cases pfo) (auto simp: pfo_compressed_def split: if_splits)
qed


lemma compose_run:
  assumes "size_and_variant name = Inr (px, v)" "select_template px v key = Inr [a, b]" "pfo_compressed pfo = Inr False"
    "run_shaper tf subset_key a shaper = Inr sh" "\<not> with_shaper b"
  shows "compose_font tf subset_key key name pfo shaper =
     bindE (run_fix_ijam tf a) (\<lambda>fa. case run_fontgen tf (fontgen_params px False sh a) fa a of
        Inl _ \<Rightarrow> Inr (None, sh)
      | Inr p \<Rightarrow> bindE (run_fix_ijam tf b) (\<lambda>fb. case run_fontgen tf (fontgen_params px False sh b) fb b of
          Inl _ \<Rightarrow> Inr (None, sh)
        | Inr q \<Rightarrow> bindE (pfo_merge (items_order tf) [pfo, p, q]) (\<lambda>out. Inr (Some out, sh))))"
proof -
  have b: "run_shaper tf subset_key b sh = Inr sh" using assms(5) by (simp add: run_shaper_def)
  show ?thesis using assms(1-4)
    by (cases "run_fix_ijam tf a"; cases "run_fix_ijam tf b") (auto simp: compose_font_def b split: sum.splits)
qed

lemma compose_run_Inr:
  assumes "size_and_variant name = Inr (px, v)" "select_template px v key = Inr [a, b]" "pfo_compressed pfo = Inr False"
    "run_shaper tf subset_key a shaper = Inr sh" "\<not> with_shaper b"
  shows "compose_font tf subset_key key name pfo shaper = Inr (Some out, sh') \<longleftrightarrow>
     sh' = sh \<and> \<not> isl (run_fix_ijam tf a) \<and> \<not> isl (run_fix_ijam tf b) \<and>
     (\<exists>p q. run_member tf px sh a = Inr p \<and> run_member tf px sh b = Inr q \<and> pfo_merge (items_order tf) [pfo, p, q] = Inr out)"
  unfolding compose_run [OF assms] member_files_def
  by (cases "run_fix_ijam tf a"; cases "run_fix_ijam tf b") (auto simp: bindE_Inr_iff split: sum.splits)

lemma generated_member:
  assumes "run_member tf px sh m = Inr p" "job_ok (member_job tf px sh m)"
    "single_valued (job_chars (member_job tf px sh m))"
  obtains fnt where "font_read p = Inr fnt" "sound_font fnt" "\<not> compressed fnt" "cmap fnt = job_chars (member_job tf px sh m)"
  using generated_font.read_back [OF assms(1) [unfolded run_fontgen_job] assms(2)] assms(3)
  by (auto simp: sound_font_def)

text \<open>The two members of a template, with the map of the shaper.\<close>

definition template_jobs :: "typefaces \<Rightarrow> int \<Rightarrow> shaper_result \<Rightarrow> MergeMember list \<Rightarrow> font_job list" where
  "template_jobs tf px sh t = map (member_job tf px sh) t"

lemma template_jobs_ok:
  assumes "typefaces_ok tf" "select_template px v key = Inr t" "shaper_map_ok codepts" "job \<in> set (template_jobs tf px (Some (T, codepts)) t)"
  shows "job_ok job" "single_valued (job_chars job)" "Domain (job_chars job) \<subseteq> set member_space" "renders job \<Longrightarrow> job_fits job"
proof -
  from template_members [OF assms(2)] obtain a b where t: "t = [a, b]" "with_shaper a" "\<not> with_shaper b"
    "mm_codepts b = Some HEBREW_CODEPT_LIST" "\<not> fix_ijam b" "0 \<le> mm_size a" "mm_size a \<le> 255" "0 \<le> mm_size b" "mm_size b \<le> 255" by metis
  note ra = requested_mapped [OF t(2) assms(3) refl] and rb = requested_listed [OF assms(1) t(3,4) refl]
  note ja = member_job_ok(1-4) [OF assms(1) refl ra(1,2) by_glyph_mapped [OF assms(1) t(2) assms(3)]]
    and jb = member_job_ok(1-4) [OF assms(1) refl rb by_glyph_listed [OF t(5)]]
  from assms(4) have "job = member_job tf px (Some (T, codepts)) a \<or> job = member_job tf px (Some (T, codepts)) b"
    by (simp add: template_jobs_def t(1))
  then show "job_ok job" "single_valued (job_chars job)" "Domain (job_chars job) \<subseteq> set member_space" "renders job \<Longrightarrow> job_fits job"
    using ja jb t(6-) by metis+
qed

abbreviation jobs_over :: "font_job list \<Rightarrow> (int \<times> u8 list) set \<Rightarrow> (int \<times> u8 list) set" where
  "jobs_over jobs A \<equiv> fold (\<lambda>job A. over A (job_chars job)) jobs A"

text \<open>What a composed font holds.\<close>

lemma composed_reads:
  assumes tf: "typefaces_ok tf" and base: "font_read pfo = Inr font" "sound_font font" "\<not> compressed font"
    and t: "size_and_variant name = Inr (px, v)" "select_template px v key = Inr t" "run_shaper tf subset_key (hd t) shaper = Inr (Some (T, codepts))"
    and c: "shaper_map_ok codepts"
    and run: "compose_font tf subset_key key name pfo shaper = Inr (Some out, sh)"
  shows "\<exists>r. font_read out = Inr r \<and> cmap r = jobs_over (template_jobs tf px (Some (T, codepts)) t) (cmap font) \<and>
     max_height r = max_height font \<and> wildcard r = wildcard font \<and> sh = Some (T, codepts)"
proof -
  from template_members [OF t(2)] obtain a b where ab: "t = [a, b]" "\<not> with_shaper b" by metis
  have "pfo_compressed pfo = Inr False" using pfo_compressed_read [OF base(1)] base(3) by simp
  from compose_run_Inr [OF t(1) t(2) [unfolded ab(1)] this _ ab(2)] t(3) run ab(1) obtain p q where
    p: "run_member tf px (Some (T, codepts)) a = Inr p"
    and q: "run_member tf px (Some (T, codepts)) b = Inr q"
    and m: "pfo_merge (items_order tf) [pfo, p, q] = Inr out" and sh: "sh = Some (T, codepts)"
    by auto
  let ?Ja = "member_job tf px (Some (T, codepts)) a" and ?Jb = "member_job tf px (Some (T, codepts)) b"
  have "?Ja \<in> set (template_jobs tf px (Some (T, codepts)) t)" "?Jb \<in> set (template_jobs tf px (Some (T, codepts)) t)"
    by (simp_all add: template_jobs_def ab(1))
  note oka = template_jobs_ok(1,2) [OF tf t(2) c this(1)] and okb = template_jobs_ok(1,2) [OF tf t(2) c this(2)]
  from generated_member [OF p oka] obtain fp where fp: "font_read p = Inr fp" "sound_font fp" "\<not> compressed fp"
    "cmap fp = job_chars ?Ja" .
  from generated_member [OF q okb] obtain fq where fq: "font_read q = Inr fq" "sound_font fq" "\<not> compressed fq"
    "cmap fq = job_chars ?Jb" .
  have items: "\<And>m. mset (items_order tf m) = mset m" using tf by (simp add: typefaces_ok_def)
  have "read_fonts [pfo, p, q] = Inr [font, fp, fq]" by (simp add: base fp fq)
  from pfo_merge_read [OF items m this base(2)] fp fq base(3) sh show ?thesis
    by (auto simp: template_jobs_def ab(1))
qed

text \<open>When composing succeeds: room in the bins, and every glyph renders.\<close>

definition room_for_members :: "int set \<Rightarrow> bool" where
  "room_for_members S \<longleftrightarrow> card S \<le> 10000 \<and> (\<forall>b. card {c \<in> S. c mod 255 = b} < 80)"

lemma room_fits:
  assumes "room_for_members S" "S' \<subseteq> S \<union> set member_space" "S \<subseteq> {0..65535}"
  shows "domain_fits S'"
proof -
  let ?M = "set member_space"
  have fin: "finite S" using assms(3) finite_subset [of S "{0..65535}"] by simp
  have "card S' \<le> card (S \<union> ?M)" using assms(2) fin by (intro card_mono) auto
  also have "\<dots> \<le> card S + card ?M" by (rule card_Un_le)
  also have "card ?M \<le> 441" using card_length [of member_space] member_space_props(1) by simp
  finally have n: "card S' \<le> 10441" using assms(1) by (simp add: room_for_members_def)
  have "card {c' \<in> S'. c' mod 255 = b} < 128" for b
  proof -
    have "card {c' \<in> S'. c' mod 255 = b} \<le> card ({c \<in> S. c mod 255 = b} \<union> {c \<in> ?M. c mod 255 = b})"
      using assms(2) fin by (intro card_mono) auto
    also have "\<dots> \<le> card {c \<in> S. c mod 255 = b} + card {c \<in> ?M. c mod 255 = b}" by (rule card_Un_le)
    also have "card {c \<in> ?M. c mod 255 = b} \<le> 48" by (rule bin_bound) (use member_space_props(2) in simp)
    also have "card {c \<in> S. c mod 255 = b} < 80" using assms(1) by (simp add: room_for_members_def)
    finally show ?thesis by simp
  qed
  moreover have "S' \<subseteq> {0..65535}" using assms(2,3) member_space_props(2) by force
  ultimately show ?thesis using n by (simp add: domain_fits_def)
qed


lemma Domain_jobs_over: "Domain (jobs_over jobs A) = Domain A \<union> (\<Union>job \<in> set jobs. Domain (job_chars job))"
  by (induction jobs arbitrary: A) (auto simp: Domain_over)

lemma composed_succeeds:
  assumes tf: "typefaces_ok tf" and base: "font_read pfo = Inr font" "sound_font font" "\<not> compressed font" "room_for_members (Domain (cmap font))"
    and t: "size_and_variant name = Inr (px, v)" "select_template px v key = Inr t" "run_shaper tf subset_key (hd t) shaper = Inr (Some (T, codepts))"
    and c: "shaper_map_ok codepts" and ij: "\<forall>m \<in> set t. \<not> isl (run_fix_ijam tf m)" and r: "\<forall>job \<in> set (template_jobs tf px (Some (T, codepts)) t). renders job"
  shows "\<exists>out. compose_font tf subset_key key name pfo shaper = Inr (Some out, Some (T, codepts))"
proof -
  from template_members [OF t(2)] obtain a b where ab: "t = [a, b]" "\<not> with_shaper b" by metis
  let ?sh = "Some (T, codepts)"
  let ?Ja = "member_job tf px ?sh a" and ?Jb = "member_job tf px ?sh b"
  have J: "template_jobs tf px ?sh t = [?Ja, ?Jb]" by (simp add: template_jobs_def ab(1))
  note ok = template_jobs_ok [OF tf t(2) c, of _ T, unfolded J]
  have gen: "\<exists>p. run_member tf px ?sh m = Inr p" if "m \<in> {a, b}" for m
  proof -
    have "member_job tf px ?sh m \<in> set [?Ja, ?Jb]" using that by auto
    from ok(1,4) [OF this] r this show ?thesis
      unfolding run_fontgen_job J by (cases "member_job tf px ?sh m") (auto simp del: job_ok.simps job_fits.simps renders.simps intro!: generated)
  qed
  obtain p q where p: "run_member tf px ?sh a = Inr p" and q: "run_member tf px ?sh b = Inr q"
    using gen by blast
  have in_J: "?Ja \<in> set [?Ja, ?Jb]" "?Jb \<in> set [?Ja, ?Jb]" by simp_all
  from generated_member [OF p ok(1,2) [OF in_J(1)]] obtain fp where fp: "font_read p = Inr fp" "sound_font fp" "\<not> compressed fp" "cmap fp = job_chars ?Ja" .
  from generated_member [OF q ok(1,2) [OF in_J(2)]] obtain fq where fq: "font_read q = Inr fq" "sound_font fq" "\<not> compressed fq" "cmap fq = job_chars ?Jb" .
  have items: "\<And>m. mset (items_order tf m) = mset m" using tf by (simp add: typefaces_ok_def)
  have "domain_fits (Domain (fold (\<lambda>f A. over A (cmap f)) [fp, fq] (cmap font)))"
    using ok(3) [OF in_J(1)] ok(3) [OF in_J(2)] font_read_codepoints [OF base(1)]
    by (intro room_fits [OF base(4)]) (auto simp: Domain_over fp fq)
  from pfo_merge_succeeds [OF items base(1,2) _ _ _ this, of "[p, q]"] fp fq base(3) obtain out where
    out: "pfo_merge (items_order tf) [pfo, p, q] = Inr out" by auto
  have "pfo_compressed pfo = Inr False" using pfo_compressed_read [OF base(1)] base(3) by simp
  from compose_run_Inr [OF t(1) t(2) [unfolded ab(1)] this _ ab(2), of tf subset_key shaper ?sh] t(3) p q out ab(1) ij show ?thesis by auto
qed

text \<open>
  Every rune of a shaped text is one of the text, or the font has its glyph, or a supplementary character has taken its
  glyph over.
\<close>

lemma shaped_runes_drawn:
  assumes tf: "typefaces_ok tf" and base: "font_read pfo = Inr font" "sound_font font" "\<not> compressed font"
    and t: "size_and_variant name = Inr (px, v)" "select_template px v key = Inr t" "run_shaper tf subset_key (hd t) shaper = Inr (Some (T, codepts))"
    and T: "text_shaper hb A = Inr (T, codepts)" "alphabet_ok A"
    and run: "compose_font tf subset_key key name pfo shaper = Inr (Some out, sh)" and r: "font_read out = Inr fnt"
    and rs: "text_ok T rs" "x \<in> set (shape_runes T rs)"
  shows "x \<in> set rs \<or> (\<exists>c. x = enc2 c \<and> ((\<exists>d. (uint c, d) \<in> cmap fnt) \<or> taken_over hb A (unat c)))"
proof -
  have c: "shaper_map_ok codepts" by (rule shaper_map_generated [OF T(1,2)])
  from template_members [OF t(2)] obtain a b where ab: "t = [a, b]" "with_shaper a" "\<not> with_shaper b" by metis
  let ?J = "member_job tf px (Some (T, codepts)) a"
  have J: "?J \<in> set (template_jobs tf px (Some (T, codepts)) t)" by (simp add: template_jobs_def ab(1))
  note ok = template_jobs_ok(1) [OF tf t(2) c J]
  have "pfo_compressed pfo = Inr False" using pfo_compressed_read [OF base(1)] base(3) by simp
  from compose_run_Inr [OF t(1) t(2) [unfolded ab(1)] this _ ab(3)] t(3) run ab(1) obtain p where
    "run_member tf px (Some (T, codepts)) a = Inr p"
    by auto
  then have re: "renders ?J" using ok generated_renders unfolding run_fontgen_job by (cases ?J) (auto simp del: job_ok.simps renders.simps)
  note ra = requested_mapped [OF ab(2) c refl, of px T "ft_charmap tf (ttf_path a)"]
  from member_job_ok(5) [OF tf refl ra(1,2) by_glyph_mapped [OF tf ab(2) c] re] ra(3)
  have "int ` fst ` set codepts \<union> set ZERO_WIDTH_CODEPOINTS \<subseteq> Domain (job_chars ?J)" by blast
  moreover have "cmap fnt = jobs_over (template_jobs tf px (Some (T, codepts)) t) (cmap font)"
    using composed_reads [OF tf base t c run] r by simp
  then have "Domain (job_chars ?J) \<subseteq> Domain (cmap fnt)" using J by (auto simp only: Domain_jobs_over)
  ultimately have dom: "int ` fst ` set codepts \<union> set ZERO_WIDTH_CODEPOINTS \<subseteq> Domain (cmap fnt)" by (rule order_trans)
  from text_shaper_dict [OF T(1,2)] obtain dict where "tables_of_forms dict = Inr T" "dict_ok dict" .
  note ok = tables_of_forms_ok(1) [OF this]
  have z: "ZERO_WIDTH_CODEPT T = gen_ZERO_WIDTH_CODEPT"
    using \<open>tables_of_forms dict = Inr T\<close> by (auto simp: tables_of_forms_def packed_tables_def write_lut_def bindE_Inr_iff)
  from shape_runes_cases [OF ok rs] consider "x \<in> set rs" | "x = enc2 (ZERO_WIDTH_CODEPT T)"
    | e f where "e \<in> set (shaper_lut T)" "f \<in> set (forms e)" "x = enc2 (word_of_int f)" by blast
  then show ?thesis
  proof cases
    case 2
    have "uint (ZERO_WIDTH_CODEPT T) \<in> set ZERO_WIDTH_CODEPOINTS" unfolding z zero_width_list by (simp add: gen_zero_width_codept)
    with dom 2 show ?thesis by blast
  next
    case 3
    from shaper_codepts(5) [OF T 3(1,2)] dom have f: "f \<in> Domain (cmap fnt) \<or> taken_over hb A (nat f)" by blast
    have "0x80 \<le> f" "f < 0x800" using ok 3(1,2) by (auto simp: tables_ok_def)
    then have "uint (word_of_int f :: u16) = f" by (simp add: unsigned_of_int take_bit_int_eq_self)
    moreover from this have "unat (word_of_int f :: u16) = nat f" by (simp add: unat_eq_nat_uint)
    ultimately show ?thesis using f 3(3) by (metis DomainE)
  qed simp
qed

text \<open>Typefaces at which theorems are evaluated.\<close>

definition sample_faces :: typefaces where
  "sample_faces = \<lparr>hb_shape = (\<lambda>_. demo_hb), ft_load = (\<lambda>_ _ _. block_glyph), ft_charmap = (\<lambda>_. [(0x41, 4), (0x5D0, 3)]),
     arabic_dumps = (\<lambda>_ _. [((0x628, 3), beh_file)]), edited_files = (\<lambda>_ _ _ _. None), points_order = id, items_order = rev\<rparr>"

lemma sample_faces_ok: "typefaces_ok sample_faces"
  by (simp add: typefaces_ok_def sample_faces_def slot_ok_def block_glyph_def WILDCARD_CODEPOINT_def member_files_def run_fix_ijam_def beh_processed)

definition sample_template :: "MergeMember list" where
  "sample_template = [shaped_member ARABIC_FONT 13 None False, listed_member HEBREW_FONT 14 None]"

lemma sample_name:
  "size_and_variant ''045_GOTHIC_14.pfo'' = Inr (14, None)" "select_template 14 None ''small'' = Inr sample_template"
  by code_simp (simp add: select_template_def notification_size_map_def TEMPLATES_def sample_template_def)

lemma sample_ijam: "\<forall>m \<in> set sample_template. \<not> isl (run_fix_ijam sample_faces m)"
  by (simp add: sample_template_def shaped_member_def listed_member_def run_fix_ijam_def)

lemma sample_renders:
  "\<forall>job \<in> set (template_jobs sample_faces 14 sh sample_template). renders job"
proof -
  have g: "\<not> isl (glyph_bits (fontgen_params 14 False sh m) (\<lambda>_. block_glyph) (\<lambda>_ _. None) c g)" if "mm_size m \<in> {13, 14}" for m c g
  proof (cases g)
    case (Glyph_Index i)
    have w: "pack_words (concat (map (\<lambda>i. take 8 (concat (map (\<lambda>j. bits (ft_buffer block_glyph ! (i * 1 + j))) [0 ..< 1]))) [0 ..< 2])) = Inr [15, 240, 0, 0]"
      by code_simp
    show ?thesis using that w
      by (auto simp: Glyph_Index glyph_bits_def collect_glyph_def glyph_bitmap_def pack_glyph_def fontgen_params_def block_glyph_def
          struct_pack_header_def struct_pack_B_def struct_pack_b_def Let_def)
  qed (simp add: glyph_bits_def struct_pack_header_def struct_pack_B_def struct_pack_b_def)
  then show ?thesis by (auto simp: template_jobs_def sample_template_def member_job_def sample_faces_def shaped_member_def listed_member_def member_files_def run_fix_ijam_def)
qed

lemma latin_room: "room_for_members (Domain (cmap latin_font))"
proof -
  have d: "Domain (cmap latin_font) = {63, 65, 66}" by (auto simp: sample_fonts(1))
  have "card {c \<in> {63, 65, 66 :: int}. c mod 255 = b} \<le> card {63, 65, 66 :: int}" for b by (rule card_mono) auto
  then have "card {c \<in> {63, 65, 66 :: int}. c mod 255 = b} < 80" for b by (rule le_less_trans) simp
  then show ?thesis unfolding room_for_members_def d by simp
qed

lemma latin_file:
  obtains pfo font where "font_write latin_font = Inr pfo" "font_read pfo = Inr font" "sound_font font" "\<not> compressed font"
    "cmap font = cmap latin_font" "max_height font = 14"
proof -
  obtain pfo where w: "font_write latin_font = Inr pfo" using written [OF sample_fonts(5,3)] by blast
  from read_written [OF w sample_fonts(3)] sample_fonts_sound(1) obtain font where
    f: "font_read pfo = Inr font" "sound_font font" "cmap font = cmap latin_font" "max_height font = max_height latin_font" "compressed font = compressed latin_font"
    by (auto simp: sound_font_def)
  show thesis by (rule that [OF w f(1,2) _ f(3)]) (simp_all add: f(4,5) latin_font_def)
qed

end
