(* ===== verification/Langpack.thy ===== *)
theory Langpack
  imports Compose
begin

text \<open>
  Language packs and firmware bundles, from \<^verbatim>\<open>generator.py\<close>: which font file goes where in a language pack, and the
  fields of the manifest of a firmware.  A directory is the list of its files as the operating system lists them; the
  translation file \<^verbatim>\<open>msgfmt\<close> makes is a parameter.
\<close>

section \<open>The code\<close>

definition font_seq :: "string list" where
  "font_seq = [''GOTHIC_14'', ''GOTHIC_14_BOLD'', ''GOTHIC_18'', ''GOTHIC_18_BOLD'', ''GOTHIC_24'', ''GOTHIC_24_BOLD'',
     ''GOTHIC_28'', ''GOTHIC_28_BOLD'', ''BITHAM_30_BLACK'', ''BITHAM_42_BOLD'', ''BITHAM_42_LIGHT'', ''BITHAM_42_MEDIUM_NUMBERS'',
     ''BITHAM_34_MEDIUM_NUMBERS'', ''BITHAM_34_LIGHT_SUBSET'', ''BITHAM_18_LIGHT_SUBSET'', ''ROBOTO_CONDENSED_21'',
     ''ROBOTO_BOLD_SUBSET_49'', ''DROID_SERIF_28_BOLD'']"

text \<open>\<^verbatim>\<open>glob.glob("*%s*" % font)\<close>; a name that starts with a dot does not match.\<close>

definition glob_font :: "string \<Rightarrow> (string \<times> u8 list) list \<Rightarrow> (string \<times> u8 list) list" where
  "glob_font font files = filter (\<lambda>(name, _). take 1 name \<noteq> ''.'' \<and> py_in font name) files"

definition langpack_path :: "(string \<times> u8 list) list \<Rightarrow> string \<Rightarrow> u8 list option" where
  "langpack_path files font = (case glob_font font files of [] \<Rightarrow> None | (_, pfo) # _ \<Rightarrow> Some pfo)"

text \<open>The map of resources; no path means no data.\<close>

definition langpack_resmap :: "u8 list \<Rightarrow> (string \<times> u8 list) list \<Rightarrow> (int \<times> u8 list) list" where
  "langpack_resmap mo files =
     (1, mo) # map (\<lambda>(resid_off, font). (int resid_off + 2, case langpack_path files font of None \<Rightarrow> [] | Some data \<Rightarrow> data))
       (enumerate 0 font_seq)"

definition generate_langpack :: "u8 list \<Rightarrow> (string \<times> u8 list) list \<Rightarrow> py_error + u8 list" where
  "generate_langpack mo files = pack_resources (langpack_resmap mo files) 256"

record firmware_manifest =
  fw_size :: nat
  fw_crc :: int

definition pack_firmware :: "u8 list \<Rightarrow> int \<Rightarrow> u8 list \<Rightarrow> py_error + u8 list \<times> firmware_manifest" where
  "pack_firmware fw_ver rev_no new_bin =
     bindE (tag_version fw_ver rev_no new_bin) (\<lambda>fw_bin. Inr (fw_bin, \<lparr>fw_size = length fw_bin, fw_crc = crc32 fw_bin\<rparr>))"

section \<open>Which font goes where\<close>

lemma font_seq_bold: "i \<in> {0, 2, 4, 6} \<Longrightarrow> font_seq ! (i + 1) = font_seq ! i @ ''_BOLD''" "length font_seq = 18"
  by (auto simp: font_seq_def)

lemma langpack_data:
  assumes "i < length font_seq" "langpack_path files (font_seq ! i) = Some d"
  shows "(int i + 2, d') \<in> set (langpack_resmap mo files) \<longleftrightarrow> d' = d"
proof -
  have "(int i + 2, d') \<in> set (langpack_resmap mo files) \<longleftrightarrow>
      (\<exists>k < length font_seq. int i + 2 = int k + 2 \<and> d' = (case langpack_path files (font_seq ! k) of None \<Rightarrow> [] | Some data \<Rightarrow> data))"
    unfolding langpack_resmap_def by (auto simp: in_set_enumerate_eq image_iff intro!: bexI [of _ "(i, font_seq ! i)"])
  with assms show ?thesis by auto
qed

text \<open>
  The pattern for a regular font also matches the file of its bold variant, so the order of the directory decides.
\<close>

lemma langpack_bold:
  assumes "i \<in> {0, 2, 4, 6}" and files: "files = pre @ (bold, pfo) # post"
    and "\<forall>f \<in> set pre. \<not> py_in (font_seq ! i) (fst f)"
    and bold: "py_in (font_seq ! (i + 1)) bold" "take 1 bold \<noteq> ''.''"
  shows "(int i + 2, d) \<in> set (langpack_resmap mo files) \<longleftrightarrow> d = pfo"
    and "(int i + 3, d) \<in> set (langpack_resmap mo files) \<longleftrightarrow> d = pfo"
proof -
  note b = font_seq_bold(1) [OF assms(1)]
  have in1: "py_in (font_seq ! i) bold" using bold(1) by (auto simp only: b dest: py_in_append)
  have "\<forall>f \<in> set pre. \<not> py_in (font_seq ! (i + 1)) (fst f)"
    using assms(3) by (auto simp only: b dest: py_in_append)
  with assms(3) have pre: "glob_font (font_seq ! i) pre = []" "glob_font (font_seq ! (i + 1)) pre = []"
    by (auto simp: glob_font_def filter_empty_conv)
  have split: "glob_font font (xs @ ys) = glob_font font xs @ glob_font font ys" for font and xs ys :: "(string \<times> u8 list) list"
    by (simp add: glob_font_def)
  have p: "langpack_path files (font_seq ! i) = Some pfo" "langpack_path files (font_seq ! (i + 1)) = Some pfo"
    unfolding langpack_path_def files split pre using in1 bold by (simp_all add: glob_font_def)
  have l: "i < length font_seq" "i + 1 < length font_seq" using assms(1) font_seq_bold(2) by auto
  show "(int i + 2, d) \<in> set (langpack_resmap mo files) \<longleftrightarrow> d = pfo" by (rule langpack_data [OF l(1) p(1)])
  have "(int (i + 1) + 2, d) \<in> set (langpack_resmap mo files) \<longleftrightarrow> d = pfo" by (rule langpack_data [OF l(2) p(2)])
  then show "(int i + 3, d) \<in> set (langpack_resmap mo files) \<longleftrightarrow> d = pfo" by (simp add: add.commute)
qed

end
