(* ===== verification/Patch_Sites.thy ===== *)
theory Patch_Sites
  imports Patcher
begin

text \<open>
  Sites and requests of the patcher, from \<^verbatim>\<open>patch_tools.py\<close>: the search for addresses in the disassembly, the choice
  among the matches of a pattern, and the operations that hook a routine, which queue what \<open>finalize\<close> carries out.
  The text of the disassembler, the index of its lines and the matches of a pattern are parameters.
\<close>

section \<open>The code\<close>

text \<open>The walks through the index go on until they meet an address that has a line; \<open>None\<close> is a walk that does not end.\<close>

partial_function (option) step_to :: "(int \<Rightarrow> nat option) \<Rightarrow> int \<Rightarrow> int \<Rightarrow> int option" where
  "step_to target_deasm_index addr step =
     (case target_deasm_index addr of Some _ \<Rightarrow> Some addr | None \<Rightarrow> step_to target_deasm_index (addr + step) step)"

definition addr_step :: "(int \<Rightarrow> nat option) \<Rightarrow> int \<Rightarrow> int \<Rightarrow> int option" where
  "addr_step target_deasm_index addr step = step_to target_deasm_index (addr + step) step"

partial_function (option) deasm_index :: "(int \<Rightarrow> nat option) \<Rightarrow> int \<Rightarrow> bool option \<Rightarrow> (py_error + nat) option" where
  "deasm_index target_deasm_index addr forward =
     (case target_deasm_index addr of
        Some i \<Rightarrow> Some (Inr i)
      | None \<Rightarrow> (case forward of
          None \<Rightarrow> Some (Inl AssertionError)
        | Some fwd \<Rightarrow> deasm_index target_deasm_index (addr + (if fwd then 1 else - 1)) forward))"

declare step_to.simps [code] deasm_index.simps [code]

text \<open>\<open>match\<close>: the part of the text that is searched, and the match that is taken.\<close>

definition match_bounds ::
  "(int \<Rightarrow> nat option) \<Rightarrow> nat \<Rightarrow> int option \<Rightarrow> int option \<Rightarrow> (py_error + nat \<times> nat) option" where
  "match_bounds target_deasm_index len start stop =
     Option.bind (if start \<in> {None, Some 0} then Some (Inr 0) else deasm_index target_deasm_index (the start) (Some False)) (\<lambda>start_idx.
     Option.bind (if stop \<in> {None, Some 0} then Some (Inr len) else deasm_index target_deasm_index (the stop) (Some True)) (\<lambda>end_idx.
       Some (bindE start_idx (\<lambda>i. bindE end_idx (\<lambda>j. Inr (i, j))))))"

definition select_match :: "int option \<Rightarrow> 'm list \<Rightarrow> py_error + 'm" where
  "select_match n matches =
     (case matches of
        [] \<Rightarrow> Inl AssertionError
      | m # ms \<Rightarrow>
          (case n of
             None \<Rightarrow> if ms = [] then Inr m else Inl AssertionError
           | Some n \<Rightarrow>
               if n \<ge> 0 then if nat n < length matches then Inr (matches ! nat n) else Inl StopIteration
               else if nat (- n) \<le> length matches then Inr (matches ! (length matches - nat (- n))) else Inl IndexError))"

record MatchResult =
  mr_start :: nat
  mr_end :: "nat option"
  mr_markers :: "string \<rightharpoonup> nat"
  mr_groups :: "string \<rightharpoonup> string"

definition hex_digit :: "nat \<Rightarrow> char" where
  "hex_digit d = (if d < 10 then char_of (48 + d) else char_of (87 + d))"

fun py_hex :: "nat \<Rightarrow> string" where
  "py_hex n = (if n < 16 then [hex_digit n] else py_hex (n div 16) @ [hex_digit (n mod 16)])"

definition match_symbol :: "(string \<rightharpoonup> nat) \<Rightarrow> string \<Rightarrow> string \<Rightarrow> py_error + MatchResult" where
  "match_symbol symtab target_deasm symbol =
     (case symtab symbol of
        None \<Rightarrow> Inl KeyError
      | Some addr \<Rightarrow>
          let markers = [''TARGET'' \<mapsto> addr, ''JUMP'' \<mapsto> addr] in
          Inr \<lparr>mr_start = addr, mr_end = None,
               mr_markers = (if py_in ('' '' @ py_hex (addr + 4) @ '':'') target_deasm then markers else markers(''END'' \<mapsto> addr + 6)),
               mr_groups = Map.empty\<rparr>)"

text \<open>The requests, and what they add to the queue.\<close>

definition inject_ops :: "bool \<Rightarrow> string \<Rightarrow> MatchResult \<Rightarrow> string option \<Rightarrow> py_error + patch_op list" where
  "inject_ops hardware dest_symbol dest_match asm =
     (case mr_markers dest_match ''JUMP'' of
        None \<Rightarrow> Inl KeyError
      | Some jmp_insert_addr \<Rightarrow>
          let end_patch_addr = jmp_insert_addr + 4; proxy_asm = (case asm of None \<Rightarrow> [] | Some a \<Rightarrow> a) in
          Inr ([PatchBranchOffset jmp_insert_addr (dest_symbol @ ''__proxy'') False,
                PatchDefineSymbol (dest_symbol @ ''__return'') (nat (MICROCODE_OFFSET hardware) + end_patch_addr)] @
               (if proxy_asm \<noteq> [] then [PatchAppendAsm (dest_symbol @ ''__proxy'') proxy_asm ''void''] else [])))"

definition byte_line :: "u8 \<Rightarrow> string" where
  "byte_line b = ''.byte 0x'' @ py_hex (unat b) @ [CHR 0x0A]"

definition passthru_asm :: "string \<Rightarrow> u8 list \<Rightarrow> string" where
  "passthru_asm dest_symbol overwrote_mcode = concat (map byte_line overwrote_mcode) @ ''B '' @ dest_symbol @ ''__return'' @ [CHR 0x0A]"

definition wrap_ops :: "bool \<Rightarrow> u8 list \<Rightarrow> string \<Rightarrow> MatchResult \<Rightarrow> string \<Rightarrow> bool \<Rightarrow> py_error + patch_op list" where
  "wrap_ops hardware target_bin dest_symbol dest_match return_type passthru =
     (case mr_markers dest_match ''JUMP'' of
        None \<Rightarrow> Inl KeyError
      | Some jmp_insert_addr \<Rightarrow>
          let end_patch_addr = (case mr_markers dest_match ''END'' of Some e \<Rightarrow> e | None \<Rightarrow> jmp_insert_addr + 4);
              overwrote_mcode = take (end_patch_addr - jmp_insert_addr) (drop jmp_insert_addr target_bin) in
          Inr ([PatchBranchOffset jmp_insert_addr dest_symbol False,
                PatchDefineSymbol (dest_symbol @ ''__return'') (nat (MICROCODE_OFFSET hardware) + end_patch_addr)] @
               (if passthru then [PatchAppendAsm (dest_symbol @ ''__passthru'') (passthru_asm dest_symbol overwrote_mcode) return_type] else [])))"

datatype hook =
    Wrap string MatchResult string bool
  | Inject string MatchResult "string option"
  | Define_Function string nat
  | Define_Macro string string

definition upper :: "char \<Rightarrow> char" where
  "upper c = (if 97 \<le> (of_char c :: nat) \<and> of_char c \<le> (122 :: nat) then char_of (of_char c - 32 :: nat) else c)"

fun hook_ops :: "bool \<Rightarrow> u8 list \<Rightarrow> hook \<Rightarrow> py_error + patch_op list" where
  "hook_ops hardware target_bin (Wrap dest_symbol m return_type passthru) = wrap_ops hardware target_bin dest_symbol m return_type passthru"
| "hook_ops hardware target_bin (Inject dest_symbol m asm) = inject_ops hardware dest_symbol m asm"
| "hook_ops hardware target_bin (Define_Function dest_symbol target_addr) = Inr [PatchDefineSymbol dest_symbol target_addr]"
| "hook_ops hardware target_bin (Define_Macro name value) = Inr [PatchDefineMacro (map upper name) value]"

fun queue_hooks :: "bool \<Rightarrow> u8 list \<Rightarrow> hook list \<Rightarrow> patch_op list \<Rightarrow> py_error + patch_op list" where
  "queue_hooks hardware target_bin [] op_queue = Inr op_queue"
| "queue_hooks hardware target_bin (h # hs) op_queue =
     bindE (hook_ops hardware target_bin h) (\<lambda>ops. queue_hooks hardware target_bin hs (op_queue @ ops))"

section \<open>Walks through the index\<close>

lemma step_to_reaches:
  "target_deasm_index (addr + int k * step) \<noteq> None \<Longrightarrow> \<forall>j < k. target_deasm_index (addr + int j * step) = None \<Longrightarrow>
     step_to target_deasm_index addr step = Some (addr + int k * step)"
proof (induction k arbitrary: addr)
  case 0
  then show ?case by (subst step_to.simps) auto
next
  case (Suc k)
  have "step_to target_deasm_index (addr + step) step = Some (addr + step + int k * step)"
  proof (rule Suc.IH)
    show "target_deasm_index (addr + step + int k * step) \<noteq> None" using Suc.prems(1) by (simp add: algebra_simps)
    show "\<forall>j < k. target_deasm_index (addr + step + int j * step) = None"
    proof (intro allI impI)
      fix j assume "j < k"
      then have "target_deasm_index (addr + int (Suc j) * step) = None" using Suc.prems(2) by blast
      then show "target_deasm_index (addr + step + int j * step) = None" by (simp add: algebra_simps)
    qed
  qed
  moreover have "target_deasm_index addr = None" using Suc.prems(2) [rule_format, of 0] by simp
  ultimately show ?case by (subst step_to.simps) (simp add: algebra_simps)
qed

lemma step_to_result:
  assumes ret: "step_to target_deasm_index addr step = Some r"
  shows "\<exists>k. r = addr + int k * step \<and> target_deasm_index r \<noteq> None \<and> (\<forall>j < k. target_deasm_index (addr + int j * step) = None)"
proof (rule step_to.raw_induct [where P = "\<lambda>ix a s r. \<exists>k. r = a + int k * s \<and> ix r \<noteq> None \<and> (\<forall>j < k. ix (a + int j * s) = None)", OF _ ret])
  fix walk and ix :: "int \<Rightarrow> nat option" and a s r :: int
  assume IH: "\<And>ix a s r. walk ix a s = Some r \<Longrightarrow> \<exists>k. r = a + int k * s \<and> ix r \<noteq> None \<and> (\<forall>j < k. ix (a + int j * s) = None)"
    and eq: "(case ix a of None \<Rightarrow> walk ix (a + s) s | Some _ \<Rightarrow> Some a) = Some r"
  show "\<exists>k. r = a + int k * s \<and> ix r \<noteq> None \<and> (\<forall>j < k. ix (a + int j * s) = None)"
  proof (cases "ix a")
    case None
    with eq IH [of ix "a + s" s r] obtain k where k: "r = a + s + int k * s" "ix r \<noteq> None" "\<forall>j < k. ix (a + s + int j * s) = None" by auto
    have "ix (a + int j * s) = None" if "j < Suc k" for j
      using k(3) None that by (cases j) (auto simp: algebra_simps)
    with k show ?thesis by (intro exI [of _ "Suc k"]) (auto simp: algebra_simps)
  next
    case (Some i)
    with eq show ?thesis by (intro exI [of _ 0]) auto
  qed
qed

text \<open>A walk ends if and only if it meets an address of the index, and then at the first one.\<close>

lemma step_to_ends: "(\<exists>r. step_to target_deasm_index addr step = Some r) \<longleftrightarrow> (\<exists>k. target_deasm_index (addr + int k * step) \<noteq> None)"
proof
  assume "\<exists>k. target_deasm_index (addr + int k * step) \<noteq> None"
  then obtain k where "target_deasm_index (addr + int k * step) \<noteq> None" by blast
  then obtain m where "target_deasm_index (addr + int m * step) \<noteq> None" "\<forall>j < m. target_deasm_index (addr + int j * step) = None"
    using exists_least_iff [of "\<lambda>k. target_deasm_index (addr + int k * step) \<noteq> None"] by auto
  with step_to_reaches show "\<exists>r. step_to target_deasm_index addr step = Some r" by blast
qed (use step_to_result in blast)

lemma deasm_index_walk:
  "deasm_index target_deasm_index addr (Some fwd) =
     map_option (\<lambda>r. Inr (the (target_deasm_index r))) (step_to target_deasm_index addr (if fwd then 1 else - 1))"
proof -
  let ?s = "if fwd then 1 else - 1 :: int"
  have reach: "deasm_index target_deasm_index a (Some fwd) = Some (Inr (the (target_deasm_index r)))"
    if "r = a + int k * ?s" "target_deasm_index r \<noteq> None" "\<forall>j < k. target_deasm_index (a + int j * ?s) = None" for a k r
    using that
  proof (induction k arbitrary: a)
    case 0
    then show ?case by (subst deasm_index.simps) auto
  next
    case (Suc k)
    have "target_deasm_index a = None" using Suc.prems(3) [rule_format, of 0] by simp
    moreover have "target_deasm_index (a + ?s + int j * ?s) = None" if "j < k" for j
      using Suc.prems(3) [rule_format, of "Suc j"] that by (simp add: algebra_simps)
    then have "deasm_index target_deasm_index (a + ?s) (Some fwd) = Some (Inr (the (target_deasm_index r)))"
      using Suc.prems(1,2) by (intro Suc.IH) (auto simp: algebra_simps)
    ultimately show ?case by (subst deasm_index.simps) simp
  qed
  have ends: "\<exists>r. step_to target_deasm_index a ?s = Some r" if ret: "deasm_index target_deasm_index a (Some fwd) = Some y" for a y
  proof -
    have "Some fwd = Some fwd \<longrightarrow> (\<exists>k. target_deasm_index (a + int k * ?s) \<noteq> None)"
    proof (rule deasm_index.raw_induct [where P = "\<lambda>ix a f y. f = Some fwd \<longrightarrow> (\<exists>k. ix (a + int k * ?s) \<noteq> None)", OF _ ret], intro impI)
      fix walk and ix :: "int \<Rightarrow> nat option" and a f y
      assume IH: "\<And>ix a f y. walk ix a f = Some y \<Longrightarrow> f = Some fwd \<longrightarrow> (\<exists>k. ix (a + int k * ?s) \<noteq> None)"
        and eq: "(case ix a of None \<Rightarrow> (case f of None \<Rightarrow> Some (Inl AssertionError) | Some fwd \<Rightarrow> walk ix (a + (if fwd then 1 else - 1)) f)
          | Some i \<Rightarrow> Some (Inr i)) = Some y" and f: "f = Some fwd"
      show "\<exists>k. ix (a + int k * ?s) \<noteq> None"
      proof (cases "ix a")
        case None
        with eq f IH [of ix "a + ?s" "Some fwd" y] obtain k where "ix (a + ?s + int k * ?s) \<noteq> None" by auto
        then show ?thesis by (intro exI [of _ "Suc k"]) (simp add: algebra_simps)
      qed (auto intro: exI [of _ 0])
    qed
    then show ?thesis by (simp only: step_to_ends simp_thms)
  qed
  show ?thesis
  proof (cases "step_to target_deasm_index addr ?s")
    case None
    have "deasm_index target_deasm_index addr (Some fwd) = None"
    proof (cases "deasm_index target_deasm_index addr (Some fwd)")
      case (Some y)
      from ends [OF this] show ?thesis unfolding None by simp
    qed
    with None show ?thesis by simp
  next
    case (Some r)
    from step_to_result [OF this] reach Some show ?thesis by auto
  qed
qed

text \<open>
  The bounds of a search.  Going back ends, since the disassembly starts at address zero; going forward ends if and
  only if there is an instruction at or after the address.
\<close>

lemma match_bounds_start:
  assumes "target_deasm_index 0 \<noteq> None" "0 \<le> a"
  shows "\<exists>i b. deasm_index target_deasm_index a (Some False) = Some (Inr i) \<and> b \<in> {0..a} \<and> target_deasm_index b = Some i \<and>
     (\<forall>b' \<in> {b<..a}. target_deasm_index b' = None)"
proof -
  have "target_deasm_index (a + int (nat a) * (- 1)) \<noteq> None" using assms by simp
  then obtain r where r: "step_to target_deasm_index a (- 1) = Some r" using step_to_ends [of target_deasm_index a "- 1"] by blast
  from step_to_result [OF r] obtain k where k: "r = a - int k" "target_deasm_index r \<noteq> None" "\<forall>j < k. target_deasm_index (a - int j) = None" by auto
  have "target_deasm_index b' = None" if "b' \<in> {r<..a}" for b'
    using k(3) [rule_format, of "nat (a - b')"] k(1) that by auto
  moreover have "0 \<le> r"
  proof (rule ccontr)
    assume "\<not> 0 \<le> r"
    then have "nat a < k" using k(1) assms(2) by linarith
    with k(3) assms show False by fastforce
  qed
  moreover obtain i where "target_deasm_index r = Some i" using k(2) by blast
  moreover have "r \<le> a" using k(1) by simp
  ultimately have "deasm_index target_deasm_index a (Some False) = Some (Inr i) \<and> r \<in> {0..a} \<and> target_deasm_index r = Some i \<and>
     (\<forall>b' \<in> {r<..a}. target_deasm_index b' = None)" using r by (simp add: deasm_index_walk)
  then show ?thesis by blast
qed

text \<open>The last line at or before an address, and the first at or after one.\<close>

definition last_line_to :: "(int \<Rightarrow> nat option) \<Rightarrow> int \<Rightarrow> nat \<Rightarrow> bool" where
  "last_line_to ix a i \<longleftrightarrow> (\<exists>b \<in> {0..a}. ix b = Some i \<and> (\<forall>b' \<in> {b<..a}. ix b' = None))"

definition first_line_from :: "(int \<Rightarrow> nat option) \<Rightarrow> int \<Rightarrow> nat \<Rightarrow> bool" where
  "first_line_from ix a j \<longleftrightarrow> (\<exists>b \<ge> a. ix b = Some j \<and> (\<forall>b' \<in> {a..<b}. ix b' = None))"

lemma match_bounds_stop:
  shows "\<exists>a \<ge> b. target_deasm_index a \<noteq> None \<Longrightarrow>
      \<exists>j. deasm_index target_deasm_index b (Some True) = Some (Inr j) \<and> first_line_from target_deasm_index b j"
    and "\<not> (\<exists>a \<ge> b. target_deasm_index a \<noteq> None) \<Longrightarrow> deasm_index target_deasm_index b (Some True) = None"
proof -
  have k: "(\<exists>k. target_deasm_index (b + int k * 1) \<noteq> None) \<longleftrightarrow> (\<exists>a \<ge> b. target_deasm_index a \<noteq> None)"
    by (metis (no_types, opaque_lifting) add.commute le_add_same_cancel1 mult.right_neutral of_nat_0_le_iff zle_iff_zadd)
  show "deasm_index target_deasm_index b (Some True) = None" if "\<not> (\<exists>a \<ge> b. target_deasm_index a \<noteq> None)"
    using that k step_to_ends [of target_deasm_index b 1] by (auto simp: deasm_index_walk)
  assume "\<exists>a \<ge> b. target_deasm_index a \<noteq> None"
  then obtain r where r: "step_to target_deasm_index b 1 = Some r" using k step_to_ends [of target_deasm_index b 1] by auto
  from step_to_result [OF r] obtain n i where n: "r = b + int n" "target_deasm_index r = Some i" "\<forall>j < n. target_deasm_index (b + int j) = None" by auto
  have "target_deasm_index b' = None" if "b' \<in> {b..<r}" for b'
    using n(3) [rule_format, of "nat (b' - b)"] n(1) that by auto
  with n have "first_line_from target_deasm_index b i" unfolding first_line_from_def by (intro exI [of _ r]) simp
  with r n(2) show "\<exists>j. deasm_index target_deasm_index b (Some True) = Some (Inr j) \<and> first_line_from target_deasm_index b j"
    by (simp add: deasm_index_walk)
qed

lemma match_bounds_ends:
  assumes "target_deasm_index 0 \<noteq> None" "case start of None \<Rightarrow> True | Some a \<Rightarrow> 0 \<le> a" "case stop of None \<Rightarrow> True | Some b \<Rightarrow> 0 \<le> b"
  shows "if case stop of None \<Rightarrow> True | Some b \<Rightarrow> \<exists>a \<ge> b. target_deasm_index a \<noteq> None
    then \<exists>i j. match_bounds target_deasm_index len start stop = Some (Inr (i, j)) \<and>
      (if start \<in> {None, Some 0} then i = 0 else last_line_to target_deasm_index (the start) i) \<and>
      (if stop \<in> {None, Some 0} then j = len else first_line_from target_deasm_index (the stop) j)
    else match_bounds target_deasm_index len start stop = None"
proof -
  let ?s = "if start \<in> {None, Some 0} then Some (Inr 0) else deasm_index target_deasm_index (the start) (Some False)"
  let ?e = "if stop \<in> {None, Some 0} then Some (Inr len) else deasm_index target_deasm_index (the stop) (Some True)"
  obtain i where s: "?s = Some (Inr i)" "if start \<in> {None, Some 0} then i = 0 else last_line_to target_deasm_index (the start) i"
  proof (cases "start \<in> {None, Some 0}")
    case False
    have "0 \<le> the start" using False assms(2) by (cases start) auto
    from match_bounds_start [of target_deasm_index "the start", OF assms(1) this] obtain i where
      "deasm_index target_deasm_index (the start) (Some False) = Some (Inr i)" "last_line_to target_deasm_index (the start) i"
      unfolding last_line_to_def by blast
    with False that show thesis by auto
  qed (use that in auto)
  show ?thesis
  proof (cases "case stop of None \<Rightarrow> True | Some b \<Rightarrow> \<exists>a \<ge> b. target_deasm_index a \<noteq> None")
    case True
    obtain j where e: "?e = Some (Inr j)" "if stop \<in> {None, Some 0} then j = len else first_line_from target_deasm_index (the stop) j"
    proof (cases "stop \<in> {None, Some 0}")
      case False
      then show thesis using match_bounds_stop(1) [of "the stop" target_deasm_index] True that by (cases stop) auto
    qed (use that in auto)
    have "match_bounds target_deasm_index len start stop = Some (Inr (i, j))" unfolding match_bounds_def s(1) e(1) by simp
    with True s(2) e(2) show ?thesis by auto
  next
    case False
    then obtain b where b: "stop = Some b" "\<not> (\<exists>a \<ge> b. target_deasm_index a \<noteq> None)" by (auto split: option.splits)
    then have "stop \<notin> {None, Some 0}" using assms(1) by auto
    with match_bounds_stop(2) [OF b(2)] have "?e = None" by (simp add: b(1))
    then have "match_bounds target_deasm_index len start stop = None" unfolding match_bounds_def s(1) by simp
    with False show ?thesis by (simp only: if_False)
  qed
qed

section \<open>Wrapped routines\<close>

text \<open>The assembler's reading of a stub: the bytes of its \<^verbatim>\<open>.byte\<close> lines, and the lines after them.\<close>

definition hex_val :: "char \<Rightarrow> nat" where
  "hex_val c = (let d = of_char c in if d < 58 then d - 48 else d - 87)"

definition read_hex :: "string \<Rightarrow> nat" where
  "read_hex s = fold (\<lambda>c n. 16 * n + hex_val c) s 0"

definition is_byte_line :: "string \<Rightarrow> bool" where
  "is_byte_line l \<longleftrightarrow> take 8 l = ''.byte 0x''"

definition assembled :: "string \<Rightarrow> u8 list \<times> string list" where
  "assembled asm = (let ls = py_split (CHR 0x0A) asm in
     (map (\<lambda>l. of_nat (read_hex (drop 8 l))) (takeWhile is_byte_line ls), dropWhile is_byte_line ls))"

declare py_hex.simps [simp del]

lemma hex_val_digit: "d < 16 \<Longrightarrow> hex_val (hex_digit d) = d"
  by (auto simp: hex_val_def hex_digit_def Let_def)

lemma read_hex_append: "read_hex (xs @ [c]) = 16 * read_hex xs + hex_val c"
  by (simp add: read_hex_def)

lemma read_py_hex: "read_hex (py_hex n) = n"
proof (induction n rule: py_hex.induct)
  case (1 n)
  show ?case
  proof (cases "n < 16")
    case True
    then show ?thesis by (subst py_hex.simps) (simp add: read_hex_def hex_val_digit)
  next
    case False
    with 1 show ?thesis by (subst py_hex.simps) (simp add: read_hex_append hex_val_digit)
  qed
qed

text \<open>Hexadecimal numbers have neither blanks nor colons nor line ends.\<close>

lemma hex_digit_code: "d < 16 \<Longrightarrow> hex_digit d \<notin> {CHR '' '', CHR '':'', CHR 0x0A}"
proof -
  assume "d < 16"
  then have "(of_char (hex_digit d) :: nat) \<in> {48..57} \<union> {97..102}" by (auto simp: hex_digit_def)
  moreover have "(of_char (CHR '' '') :: nat) = 32" "(of_char (CHR '':'') :: nat) = 58" "(of_char (CHR 0x0A) :: nat) = 10" by simp_all
  ultimately show ?thesis by fastforce
qed

lemma py_hex_line: "CHR '' '' \<notin> set (py_hex n)" "CHR '':'' \<notin> set (py_hex n)" "CHR 0x0A \<notin> set (py_hex n)"
proof -
  have "set (py_hex n) \<inter> {CHR '' '', CHR '':'', CHR 0x0A} = {}"
  proof (induction n rule: py_hex.induct)
    case (1 n)
    show ?case
    proof (cases "n < 16")
      case True
      then show ?thesis using hex_digit_code [of n] by (subst py_hex.simps) auto
    next
      case False
      with 1 show ?thesis using hex_digit_code [of "n mod 16"] by (subst py_hex.simps) auto
    qed
  qed
  then show "CHR '' '' \<notin> set (py_hex n)" "CHR '':'' \<notin> set (py_hex n)" "CHR 0x0A \<notin> set (py_hex n)" by auto
qed

lemma py_split_line: "sep \<notin> set l \<Longrightarrow> py_split sep (l @ sep # s) = l # py_split sep s"
  by (induction l) auto

lemma assembled_passthru:
  assumes "CHR 0x0A \<notin> set dest"
  shows "assembled (passthru_asm dest mcode) = (mcode, [''B '' @ dest @ ''__return'', []])"
proof -
  let ?l = "\<lambda>b. ''.byte 0x'' @ py_hex (unat (b :: u8))"
  have "py_split (CHR 0x0A) (concat (map byte_line bs) @ s) = map ?l bs @ py_split (CHR 0x0A) s" for bs s
  proof (induction bs)
    case (Cons b bs)
    have "py_split (CHR 0x0A) (?l b @ CHR 0x0A # (concat (map byte_line bs) @ s)) = ?l b # py_split (CHR 0x0A) (concat (map byte_line bs) @ s)"
      by (rule py_split_line) (use py_hex_line in simp)
    moreover have "concat (map byte_line (b # bs)) @ s = ?l b @ CHR 0x0A # (concat (map byte_line bs) @ s)"
      by (simp add: byte_line_def [of b])
    ultimately show ?case by (simp only: Cons.IH list.map append_Cons)
  qed simp
  moreover have "py_split (CHR 0x0A) ((''B '' @ dest @ ''__return'') @ CHR 0x0A # []) = [''B '' @ dest @ ''__return'', []]"
    using assms by (subst py_split_line) auto
  ultimately have sp: "py_split (CHR 0x0A) (passthru_asm dest mcode) = map ?l mcode @ [''B '' @ dest @ ''__return'', []]"
    by (simp add: passthru_asm_def)
  have b: "is_byte_line (?l x)" "\<not> is_byte_line (''B '' @ dest @ ''__return'')" for x by (simp_all add: is_byte_line_def)
  have "map (\<lambda>l. of_nat (read_hex (drop 8 l))) (map ?l mcode) = mcode"
    by (simp add: comp_def read_py_hex)
  with b show ?thesis unfolding assembled_def Let_def sp
    by (simp add: takeWhile_append dropWhile_append comp_def)
qed

text \<open>
  The start addresses of the instructions: they follow one another at a distance of two or four, up to the last one.
  What is copied from the entry of a routine is a number of whole instructions.
\<close>

definition instruction_starts :: "nat set \<Rightarrow> bool" where
  "instruction_starts S \<longleftrightarrow> (\<forall>a \<in> S. \<forall>z \<in> S. a < z \<longrightarrow> a + 2 \<in> S \<or> a + 4 \<in> S)"

definition lists_addresses :: "string \<Rightarrow> nat set \<Rightarrow> bool" where
  "lists_addresses target_deasm S \<longleftrightarrow> (\<forall>a. py_in ('' '' @ py_hex a @ '':'') target_deasm \<longleftrightarrow> a \<in> S)"

text \<open>A listing: an instruction to a line, after its address and a colon.\<close>

definition deasm_listing :: "(nat \<times> string) list \<Rightarrow> string" where
  "deasm_listing lines = concat (map (\<lambda>(a, instr). '' '' @ py_hex a @ '':'' @ instr @ [CHR 0x0A]) lines)"

lemma py_in_line:
  assumes "CHR '' '' \<notin> set l" "CHR '':'' \<notin> set h"
  shows "py_in (CHR '' '' # h @ '':'') (l @ s) \<longleftrightarrow> py_in (CHR '' '' # h @ '':'') s"
  using assms(1) by (induction l) auto

lemma py_in_address:
  assumes "CHR '' '' \<notin> set instr"
  shows "py_in ('' '' @ py_hex a @ '':'') ('' '' @ py_hex b @ '':'' @ instr @ [CHR 0x0A] @ s) \<longleftrightarrow> a = b \<or> py_in ('' '' @ py_hex a @ '':'') s"
proof -
  have eq: "py_hex a = py_hex b \<longleftrightarrow> a = b" by (metis read_py_hex)
  let ?l = "py_hex b @ '':'' @ instr @ [CHR 0x0A]"
  have head: "takeWhile (\<lambda>c. c \<noteq> CHR '':'') (py_hex n @ CHR '':'' # r) = py_hex n" for n r
    using py_hex_line(2) by (subst takeWhile_append2) auto
  have pre: "take (length p) s = p \<longleftrightarrow> (\<exists>r. s = p @ r)" for p s :: string
    by (metis append_eq_conv_conj append_take_drop_id)
  have "take (length ('' '' @ py_hex a @ '':'')) ('' '' @ ?l @ s) = '' '' @ py_hex a @ '':'' \<longleftrightarrow>
      (\<exists>r. py_hex b @ CHR '':'' # (instr @ [CHR 0x0A] @ s) = py_hex a @ CHR '':'' # r)"
    unfolding pre by simp
  also have "\<dots> \<longleftrightarrow> py_hex a = py_hex b"
  proof
    assume "\<exists>r. py_hex b @ CHR '':'' # (instr @ [CHR 0x0A] @ s) = py_hex a @ CHR '':'' # r"
    then obtain r where "py_hex b @ CHR '':'' # (instr @ [CHR 0x0A] @ s) = py_hex a @ CHR '':'' # r" ..
    from arg_cong [OF this, of "takeWhile (\<lambda>c. c \<noteq> CHR '':'')"] show "py_hex a = py_hex b" by (simp only: head)
  qed simp
  finally have hd: "take (length ('' '' @ py_hex a @ '':'')) ('' '' @ ?l @ s) = '' '' @ py_hex a @ '':'' \<longleftrightarrow> a = b" unfolding eq .
  have "py_in ('' '' @ py_hex a @ '':'') (?l @ s) \<longleftrightarrow> py_in ('' '' @ py_hex a @ '':'') s"
    using py_in_line [of ?l "py_hex a" s] assms py_hex_line by simp
  with hd show ?thesis by simp
qed

lemma listing_addresses:
  assumes "\<forall>(a, instr) \<in> set lines. CHR '' '' \<notin> set instr"
  shows "lists_addresses (deasm_listing lines) (fst ` set lines)"
  unfolding lists_addresses_def
proof
  fix a
  show "py_in ('' '' @ py_hex a @ '':'') (deasm_listing lines) \<longleftrightarrow> a \<in> fst ` set lines"
    using assms
  proof (induction lines)
    case (Cons i lines)
    obtain b instr where i: "i = (b, instr)" by (cases i)
    have "deasm_listing (i # lines) = '' '' @ py_hex b @ '':'' @ instr @ [CHR 0x0A] @ deasm_listing lines" by (simp add: deasm_listing_def i)
    with py_in_address [of instr a b "deasm_listing lines"] Cons i show ?case by auto
  qed (simp add: deasm_listing_def)
qed

lemma wrap_stub:
  assumes m: "match_symbol symtab deasm f = Inr m" and addr: "symtab f = Some addr" "addr \<in> S" "z \<in> S" "addr + 4 \<le> z"
    and S: "instruction_starts S" "lists_addresses deasm S"
  obtains e where "e \<in> S" "e \<in> {addr + 4, addr + 6}"
    "wrap_ops hw bin dest m ret True = Inr [PatchBranchOffset addr dest False,
       PatchDefineSymbol (dest @ ''__return'') (nat (MICROCODE_OFFSET hw) + e),
       PatchAppendAsm (dest @ ''__passthru'') (passthru_asm dest (take (e - addr) (drop addr bin))) ret]"
proof -
  let ?e = "if addr + 4 \<in> S then addr + 4 else addr + 6"
  have mk: "mr_markers m ''JUMP'' = Some addr" "mr_markers m ''END'' = (if addr + 4 \<in> S then None else Some (addr + 6))"
    using m addr(1) S(2) by (auto simp: match_symbol_def lists_addresses_def Let_def)
  have nxt: "a + 2 \<in> S \<or> a + 4 \<in> S" if "a \<in> S" "a < z" for a
    using S(1) addr(3) that unfolding instruction_starts_def by blast
  have "?e \<in> S"
  proof (cases "addr + 4 \<in> S")
    case False
    then have "addr + 2 \<in> S" using nxt [OF addr(2)] addr(4) by auto
    moreover have "addr + 2 < z" using addr(4) by simp
    ultimately have "addr + 2 + 2 \<in> S \<or> addr + 2 + 4 \<in> S" by (rule nxt)
    moreover have "addr + 2 + 2 = addr + 4" "addr + 2 + 4 = addr + 6" by simp_all
    ultimately show ?thesis using False by (simp only: if_False simp_thms)
  qed simp
  with mk that [of ?e] show thesis by (auto simp: wrap_ops_def Let_def split: if_splits)
qed

text \<open>The queue has the operations of every request, in order.\<close>

fun hook_branch :: "hook \<Rightarrow> (nat \<times> string) list" where
  "hook_branch (Wrap dest m ret pass) = (case mr_markers m ''JUMP'' of None \<Rightarrow> [] | Some a \<Rightarrow> [(a, dest)])"
| "hook_branch (Inject dest m asm) = (case mr_markers m ''JUMP'' of None \<Rightarrow> [] | Some a \<Rightarrow> [(a, dest @ ''__proxy'')])"
| "hook_branch _ = []"

lemma branches_append: "branches (xs @ ys) = branches xs @ branches ys"
  by (induction xs rule: branches.induct) auto

lemma hook_ops_branches: "hook_ops hw bin h = Inr ops \<Longrightarrow> branches ops = hook_branch h"
  by (cases h) (auto simp: wrap_ops_def inject_ops_def Let_def split: option.splits if_splits)

lemma queue_hooks_Inr:
  assumes "queue_hooks hw bin hs q = Inr ops"
  shows "branches ops = branches q @ concat (map hook_branch hs)" "set q \<subseteq> set ops"
    "h \<in> set hs \<Longrightarrow> \<exists>ops'. hook_ops hw bin h = Inr ops' \<and> set ops' \<subseteq> set ops"
proof -
  have "branches ops = branches q @ concat (map hook_branch hs) \<and> set q \<subseteq> set ops \<and>
      (\<forall>h \<in> set hs. \<exists>ops'. hook_ops hw bin h = Inr ops' \<and> set ops' \<subseteq> set ops)"
    using assms
  proof (induction hs arbitrary: q)
    case (Cons x hs)
    from Cons.prems obtain ops' where x: "hook_ops hw bin x = Inr ops'" "queue_hooks hw bin hs (q @ ops') = Inr ops"
      by (auto simp: bindE_Inr_iff)
    from Cons.IH [OF x(2)] x(1) hook_ops_branches [OF x(1)] show ?case by (auto simp: branches_append)
  qed simp
  then show "branches ops = branches q @ concat (map hook_branch hs)" "set q \<subseteq> set ops"
    "h \<in> set hs \<Longrightarrow> \<exists>ops'. hook_ops hw bin h = Inr ops' \<and> set ops' \<subseteq> set ops" by blast+
qed

lemma wrap_installed:
  assumes q: "queue_hooks hw bin hs [] = Inr ops" and fin: "finalize hw platform syms code ops bin = Inr img"
    and sites: "sites_apart (map fst (concat (map hook_branch hs)))"
      "\<forall>b \<in> set (concat (map hook_branch hs)). target_ok syms (MICROCODE_OFFSET hw) (length bin) (length img) b"
    and h: "Wrap dest m ret True \<in> set hs" "match_symbol symtab deasm f = Inr m" "symtab f = Some addr" "addr \<in> S" "z \<in> S" "addr + 4 \<le> z"
    and S: "instruction_starts S" "lists_addresses deasm S" and dest: "CHR 0x0A \<notin> set dest"
  shows "syms dest = Some (branch_target img addr + MICROCODE_OFFSET hw) \<and>
     (\<exists>e asm. e \<in> S \<and> addr + 4 \<le> e \<and> PatchDefineSymbol (dest @ ''__return'') (nat (MICROCODE_OFFSET hw) + e) \<in> set ops \<and>
        PatchAppendAsm (dest @ ''__passthru'') asm ret \<in> set ops \<and>
        assembled asm = (take (e - addr) (drop addr bin), [''B '' @ dest @ ''__return'', []]))"
proof -
  note qi = queue_hooks_Inr [OF q, unfolded branches.simps append_Nil]
  from finalize_lands [OF fin, unfolded qi(1)] sites
  have lands: "\<forall>b \<in> set (concat (map hook_branch hs)). syms (snd b) = Some (branch_target img (fst b) + MICROCODE_OFFSET hw)" by blast
  have "(addr, dest) \<in> set (hook_branch (Wrap dest m ret True))"
    using h(2,3) by (auto simp: match_symbol_def Let_def)
  with h(1) lands have s: "syms dest = Some (branch_target img addr + MICROCODE_OFFSET hw)" by fastforce
  obtain e where e: "e \<in> S" "addr + 4 \<le> e" "wrap_ops hw bin dest m ret True = Inr [PatchBranchOffset addr dest False,
       PatchDefineSymbol (dest @ ''__return'') (nat (MICROCODE_OFFSET hw) + e),
       PatchAppendAsm (dest @ ''__passthru'') (passthru_asm dest (take (e - addr) (drop addr bin))) ret]"
    by (rule wrap_stub [OF h(2-6) S, of hw bin dest ret]) auto
  with qi(3) [OF h(1)] have "PatchDefineSymbol (dest @ ''__return'') (nat (MICROCODE_OFFSET hw) + e) \<in> set ops"
    "PatchAppendAsm (dest @ ''__passthru'') (passthru_asm dest (take (e - addr) (drop addr bin))) ret \<in> set ops" by auto
  with s e(1,2) assembled_passthru [OF dest] show ?thesis by blast
qed

text \<open>A listing and a wrap at which theorems are evaluated: the third instruction takes four bytes.\<close>

definition sample_deasm :: string where
  "sample_deasm = deasm_listing [(0, ''push''), (2, ''mov''), (4, ''bl''), (8, ''bx'')]"

definition sample_match :: MatchResult where
  "sample_match = \<lparr>mr_start = 2, mr_end = None, mr_markers = [''TARGET'' \<mapsto> 2, ''JUMP'' \<mapsto> 2, ''END'' \<mapsto> 8], mr_groups = Map.empty\<rparr>"

lemma sample_sites:
  "instruction_starts {0, 2, 4, 8}" "lists_addresses sample_deasm {0, 2, 4, 8}" "match_symbol [''g'' \<mapsto> 2] sample_deasm ''g'' = Inr sample_match"
proof -
  show "instruction_starts {0, 2, 4, 8}" by (auto simp: instruction_starts_def)
  have "lists_addresses sample_deasm (fst ` set [(0, ''push''), (2, ''mov''), (4, ''bl''), (8, ''bx'')])"
    unfolding sample_deasm_def by (rule listing_addresses) simp
  then show l: "lists_addresses sample_deasm {0, 2, 4, 8}" by simp
  have "\<not> py_in ('' '' @ py_hex (2 + 4) @ '':'') sample_deasm" using l unfolding lists_addresses_def by simp
  then show "match_symbol [''g'' \<mapsto> 2] sample_deasm ''g'' = Inr sample_match"
    by (simp add: match_symbol_def sample_match_def del: append_Cons append_Nil)
qed

lemma sample_wrap:
  obtains ops where "queue_hooks False [1, 2, 3, 4, 5, 6, 7, 8, 9] [Wrap ''f'' sample_match ''void'' True] [] = Inr ops"
    "finalize False ''basalt'' [''f'' \<mapsto> 0x800000A] [0x70, 0x47] ops [1, 2, 3, 4, 5, 6, 7, 8, 9] =
       Inr [1, 2, 0x00, 0xF0, 0x02, 0xB8, 7, 8, 9, 0, 0x70, 0x47]"
proof -
  let ?ops = "[PatchBranchOffset 2 ''f'' False, PatchDefineSymbol ''f__return'' (nat (MICROCODE_OFFSET False) + 8),
      PatchAppendAsm ''f__passthru'' (passthru_asm ''f'' [3, 4, 5, 6, 7, 8]) ''void'']"
  have "queue_hooks False [1, 2, 3, 4, 5, 6, 7, 8, 9] [Wrap ''f'' sample_match ''void'' True] [] = Inr ?ops"
    by (simp add: wrap_ops_def sample_match_def)
  moreover have "finalize False ''basalt'' [''f'' \<mapsto> 0x800000A] [0x70, 0x47] ?ops [1, 2, 3, 4, 5, 6, 7, 8, 9] =
       Inr [1, 2, 0x00, 0xF0, 0x02, 0xB8, 7, 8, 9, 0, 0x70, 0x47]"
    by (simp add: finalize_def MAX_IMAGE_SIZE_def MICROCODE_OFFSET_def BOOTLOADER_SIZE_def trailing_bin_content_def
        branch_offset_def branch_instr_def pack_branch_def struct_pack_H_def put_bytes_def)
  ultimately show thesis by (rule that)
qed

end
