(* ===== verification/Spec2Isabelle.thy ===== *)
theory Spec2Isabelle
  imports Sample_Cpu Pebble_Macros Symtab System_Fonts Langpack Patch_Sites
begin

text \<open>
  Right-to-left and Arabic text on the Pebble watch.

  \<^bold>\<open>The program.\<close>  The build scripts take a stock firmware image, find the text routines in it, and
  overwrite their entry points with branches to code they append.  That code, the runtime under
  \<^verbatim>\<open>src/runtime\<close>, wraps the firmware: the measuring and drawing hooks turn the letters of an Arabic text
  into their contextual forms in place, let the firmware measure or draw the text, and turn the forms
  back; a wrapper around the line renderer reorders each line for display and calls the same
  reordering again afterwards to undo it.  The forms are code points the fonts do not use otherwise;
  \<^verbatim>\<open>fonts/text_shaper.py\<close> hands them out and writes the tables the runtime searches, and
  \<^verbatim>\<open>fonts/compose.py\<close> puts their glyphs into the fonts of the firmware.

  \<^bold>\<open>The model of the runtime.\<close>  A block of memory is a list of bytes, a pointer an index into it, and
  every access is checked: \<^term>\<open>None\<close> stands for undefined behaviour of C, so a theorem that an operation
  returns \<^term>\<open>Some\<close> includes that it stays inside its memory.  Code points are 16-bit words, as in the
  source, and \<^verbatim>\<open>char\<close> is unsigned, as on the target.  Loops are recursive functions with a termination
  proof by the distance to the end of the memory; there is no fuel anywhere.  The one loop of the scripts
  that may not end, the walk through the disassembly, is a \<^theory_text>\<open>partial_function (option)\<close>, and it is shown
  when it ends.

  \<^item> \<open>Prelude\<close>, \<open>Text_Pass\<close>: checked access, words and lists; runes and passes over a text.
  \<^item> \<open>Utf8\<close> (\<^verbatim>\<open>utf8.c\<close>): decoder and two-byte encoder against RFC 3629, code points cut to 16 bits.
  \<^item> \<open>Tables\<close> (\<^verbatim>\<open>text_shaper.c\<close>): the packed tables and the searches through them, against plain lookups.
  \<^item> \<open>Ranges\<close> (\<^verbatim>\<open>rtl_ranges.c\<close>, \<^verbatim>\<open>range.h\<close>, and what \<^verbatim>\<open>fonts/compose.py\<close> generates): character classes.
  \<^item> \<open>Shaper\<close> (\<open>shape_text\<close>), \<open>Shaping\<close> (what shaping means on runes, and the joining rule of the Unicode
    standard, with the joining types of its letters, which the code is compared to),
    \<open>Shape_Refine\<close> (the simulation of one by the other, and texts that end inside a rune).
  \<^item> \<open>Unshaper\<close> (\<open>unshape_text\<close>): its meaning on runes and that it undoes shaping.
  \<^item> \<open>Rtl\<close> (\<^verbatim>\<open>rtl.c\<close>), \<open>Rtl_Refine\<close> (the byte-level reversals and the span machine refine a function on
    runes), \<open>Bidi\<close> (what that function does to lines: permutation, reversal, numbers, and two kinds of
    lines a second run puts back).
  \<^item> \<open>Patch\<close>, \<open>Patch_Refine\<close> (\<^verbatim>\<open>patch.c\<close>, \<^verbatim>\<open>patch.S\<close>, the wrapper in \<^verbatim>\<open>patch.py\<close>): the hooks as functions on
    memory; the routines of the firmware they pass control to are parameters, which may write memory.
    \<open>draw_text_call\<close> is a whole call of the draw routine: the hook, the lines the firmware lays out, each
    rendered by the wrapper that reorders it and reorders it back, and the unshaping afterwards.

  \<^bold>\<open>The processor and the interface of the firmware.\<close>  The hooks in assembly rely on where a call
  leaves its arguments.  \<open>C_Abi\<close> models the C types of the target and the procedure call standard:
  sizes, member offsets, argument words.  \<open>Pebble_Types\<close> and \<open>Pebble_Api\<close> are the declarations of
  \<^verbatim>\<open>runtime/pebble.h\<close> in these terms, type by type and group by group of function signatures; the
  header holds no function bodies, so signatures and types are all of it that can be modelled, and its
  documentation comments are not.  \<open>Pebble_Layout\<close> computes sizes and alignments and checks every
  declaration, \<open>Pebble_Macros\<close> holds the macros that compute.  \<open>Stubs\<close> runs the instructions of the hooks
  on registers and stack, with the routines they call as functions under the call standard which may
  leave anything in the scratch registers and in all words below the stack pointer, and shows that the hooks refine
  the functions of \<open>Patch\<close>.  Enumerations take the smallest container, as the toolchain the scripts
  call does by default; \<^verbatim>\<open>time_t\<close> is taken as 32 bits.

  \<^bold>\<open>The build scripts.\<close>  Exceptions of Python are the left summand of a result (\<open>Python\<close>).

  \<^item> \<open>Lut_Gen\<close>, \<open>Lut_Refine\<close> (\<^verbatim>\<open>fonts/text_shaper.py\<close>): the table generator, with the shaping engine
    \<^verbatim>\<open>hb-shape\<close> as a parameter, and that its tables meet what the runtime assumes of them.  \<open>Lut_Map\<close>: its map
    of code points to glyphs has every form of the tables but those a supplementary character has
    taken over.
  \<^item> \<open>Patcher\<close> (\<open>finalize\<close> in \<^verbatim>\<open>patch_tools.py\<close>): overwrites, branches and the appended code; a decoder for
    the branches as the processor reads them.  Compiler, linker and symbol table are parameters.
  \<^item> \<open>Patch_Sites\<close> (\<open>match\<close>, \<open>match_symbol\<close>, \<open>inject\<close>, \<open>wrap\<close> in \<^verbatim>\<open>patch_tools.py\<close>): the bounds of a search, the
    choice of a match, and the requests that queue the work of \<open>finalize\<close>.  The text of the disassembler and
    the matches of a regular expression are parameters.
  \<^item> \<open>Crc\<close> (\<^verbatim>\<open>pebblesdk/stm32_crc.py\<close>) and \<open>Pbpack\<close> (\<^verbatim>\<open>generator.py\<close>): the checksum against a 32-bit
    register, and resource packs: packing, unpacking, tagging of the image.  \<open>Langpack\<close>: the resources of a
    language pack, and size and checksum in the manifest.
  \<^item> \<open>Pfo\<close> (\<^verbatim>\<open>fonts/pfo_merge.py\<close>): font files, written, read back and merged.
  \<^item> \<open>Rle4\<close>, \<open>Fontgen\<close> (\<^verbatim>\<open>pebblesdk/fontgen.py\<close>): compression of glyphs against the decoder of the watch, and
    font files from the glyphs of a typeface, which \<open>Pfo\<close> reads.  FreeType is a parameter.
  \<^item> \<open>Fix_Ijam\<close> (\<^verbatim>\<open>fonts/fix_ijam.py\<close>): bolder dots in dumped bitmaps, with no ink lost.
  \<^item> \<open>Compose\<close> (\<^verbatim>\<open>fonts/compose.py\<close>): the composition of the font scripts, what a composed font holds, when
    composing succeeds, and that the fonts can draw what the runtime shapes.  The theorems on composed
    fonts are about fonts that are not compressed; of the typefaces they assume that none maps the
    wildcard code point and that no edited bitmap replaces glyph 0 (\<open>typefaces_ok\<close>).
  \<^item> \<open>Symtab\<close> (\<open>_build_symbol_table\<close> in \<^verbatim>\<open>patch_tools.py\<close>): the jump table in the image and the addresses
    read from it.  \<open>System_Fonts\<close> (\<^verbatim>\<open>fonts/find_system_fonts.py\<close>): the search for the table of resource
    names, which yields the first of the largest runs of entries.

  \<open>Sample_Tables\<close> and \<open>Sample_Cpu\<close> hold the concrete tables, texts and processor states at which theorems
  are evaluated.

  \<^bold>\<open>Interfaces.\<close>  The locales \<open>text_pass\<close> and \<open>text_round_trip\<close> (\<open>Text_Pass\<close>), \<open>line_pass\<close> and
  \<open>line_involution\<close> (\<open>Bidi\<close>), \<open>table_source\<close> (\<open>Lut_Refine\<close>), \<open>pfo_writer\<close> (\<open>Pfo\<close>, also interpreted in
  \<open>Fontgen\<close>) and \<open>argument_hook\<close> (\<open>Stubs\<close>) state
  what one component promises another; each is interpreted on the definitions of the component that
  provides it.

  \<^bold>\<open>The properties\<close> below, in groups: shaping and unshaping; the decoder; reordering; the hooks on
  memory; the hooks on the processor; the table generator; the image;
  checksums and packs; font files; generated and composed fonts; patch sites and language packs.  Where
  the code does not do what it means to, the theorem says what it does:
  the final form of a lone marked letter, a hamza that is taken for a joining letter, the overrun at a truncated rune, numbers that come out
  backwards, neutral characters the second pass does not put back, letters that share a glyph, branches
  too far for the encoder, a flag in a register that does not survive, compressed glyphs that are cut when
  fonts are merged, bold fonts in the place of regular ones, a walk that does not end.

  \<^bold>\<open>Not modelled.\<close>  The functions of the firmware and of the SDK, of which the repository has declarations
  only.  The patterns \<^verbatim>\<open>patch.py\<close> searches for: regular expressions over the text a disassembler prints,
  whose engine and whose input are not in the repository.  The compiler, linker and \<^verbatim>\<open>objcopy\<close>, FreeType,
  \<^verbatim>\<open>hb-shape\<close> and \<^verbatim>\<open>msgfmt\<close>.  Downloads, caches and archives in \<^verbatim>\<open>generator.py\<close>, copying of files, dumping of
  bitmaps, labels and command lines: input and output without logic of their own.
\<close>

section \<open>Text shaping\<close>

text \<open>
  C1. \<open>shape_text\<close> on a NUL-terminated text of well-formed runes returns, stays inside the text,
  and replaces its runes by those of \<open>shape_runes\<close>: ligatures contracted from the left, every
  letter in the form its neighbours ask for.
\<close>

theorem shape_text_correct:
  assumes "tables_ok T" and "text_ok T rs"
  shows "shape_text T (xs @ concat rs @ 0 # ys) (length xs)
       = Some (xs @ concat (shape_runes T rs) @ 0 # ys)"
  using shape.run_spec assms by blast

theorem shape_text_correct_witness:
  "shape_text demo ([0x61] @ concat demo_text @ 0 # [0x62]) 1
     = Some ([0x61] @ concat [[0xDC, 0x83], fatha, [0xD6, 0x91], [0xDC, 0x8C], blank, latin_a] @ 0 # [0x62])"
  using shape_text_correct [OF demo_ok demo_text_ok, of "[0x61]" "[0x62]"] by (simp add: demo_shaped)

text \<open>
  C2. \<open>shape_text\<close> follows the cursive joining rule of the Unicode standard: two neighbouring
  letters are joined when the joining type of the first lets it join its successor and that
  of the second its predecessor, and a letter takes its medial, final, initial or isolated
  form accordingly, diacritics and erased ligature halves being transparent.  This needs a
  font whose forms agree with the types, no lone letter with a diacritic, and a non-joining
  letter only at the end of a word, after a letter that does not join its successor.
\<close>

theorem shape_text_joining:
  assumes "tables_ok T" and "text_ok T rs" and "forms_follow T"
    and "\<not> lone_marked T False (tokens T rs)" and "\<not> hamza_inside T False (tokens T rs)"
  shows "shape_text T (xs @ concat rs @ 0 # ys) (length xs)
       = Some (xs @ concat (arabic_joining T False (tokens T rs)) @ 0 # ys)"
  using shape.run_spec [of T rs xs ys] assms by (simp add: shape_runes_arabic)

theorem shape_text_joining_witness:
  "shape_text demo ([] @ concat demo_text @ 0 # []) 0
     = Some ([] @ concat (arabic_joining demo False (tokens demo demo_text)) @ 0 # []) \<and>
   arabic_joining demo False (tokens demo demo_text)
     = [[0xDC, 0x83], fatha, [0xD6, 0x91], [0xDC, 0x8C], blank, latin_a]"
proof -
  have l: "\<not> lone_marked demo False (tokens demo demo_text)" "\<not> hamza_inside demo False (tokens demo demo_text)"
    "arabic_joining demo False (tokens demo demo_text)
       = [[0xDC, 0x83], fatha, [0xD6, 0x91], [0xDC, 0x8C], blank, latin_a]"
    by code_simp+
  with shape_text_joining [OF demo_ok demo_text_ok demo_forms_follow l(1,2), of "[]" "[]"] show ?thesis by simp
qed

text \<open>
  C3. A joining letter alone in its word and followed by a diacritic is given its final form,
  where the joining rule asks for the isolated one.
\<close>

theorem shape_text_lone_marked:
  assumes "tables_ok T" and "text_ok T [r, d]"
    and "find_lut_entry_by_codept T (rune_cp r) = Some e" and "joins_both_sides e"
    and "\<not> is_zero_width T (rune_cp r)" and "is_zero_width T (rune_cp d)"
    and "lig_lookup (ligatures T) (rune_cp r) (rune_cp d) = 0"
  shows "shape_text T (xs @ concat [r, d] @ 0 # ys) (length xs)
       = Some (xs @ concat [enc2 (form16 e (final_codept_delta e)), d] @ 0 # ys) \<and>
     arabic_joining T False (tokens T [r, d]) = [enc2 (isolated_codept e), d]"
  using shape.run_spec [of T "[r, d]" xs ys] assms
  by (simp add: shape_runes_def tokens_def classify_def code_form_def joined_form_def)

theorem shape_text_lone_marked_witness:
  "shape_text demo ([] @ concat [beh, fatha] @ 0 # []) 0 = Some ([] @ concat [[0xDC, 0x85], fatha] @ 0 # []) \<and>
   arabic_joining demo False (tokens demo [beh, fatha]) = [[0xDC, 0x82], fatha]"
proof -
  let ?e = "lut_at (ARABIC_SHAPER_LUT demo) 1"
  have h: "text_ok demo [beh, fatha]" "find_lut_entry_by_codept demo (rune_cp beh) = Some ?e"
    "joins_both_sides ?e" "\<not> is_zero_width demo (rune_cp beh)" "is_zero_width demo (rune_cp fatha)"
    "lig_lookup (ligatures demo) (rune_cp beh) (rune_cp fatha) = 0"
    by code_simp+
  have f: "enc2 (form16 ?e (final_codept_delta ?e)) = [0xDC, 0x85]" "enc2 (isolated_codept ?e) = [0xDC, 0x82]"
    by code_simp+
  from shape_text_lone_marked [OF demo_ok h, of "[]" "[]"] f show ?thesis by simp
qed

text \<open>
  C4. A non-joining letter, hamza, is taken for a dual-joining one, since its forms are all
  the same: a letter before it that joins its successor gets its initial form and hamza its
  final one, where the joining rule asks for two isolated forms.
\<close>

theorem shape_text_hamza:
  assumes "tables_ok T" and "text_ok T [r, h]"
    and "find_lut_entry_by_codept T (rune_cp r) = Some e" and "joins_both_sides e" and "\<not> is_zero_width T (rune_cp r)"
    and "find_lut_entry_by_codept T (rune_cp h) = Some eh" and "\<not> joins_prev T eh" and "\<not> is_zero_width T (rune_cp h)"
    and "lig_lookup (ligatures T) (rune_cp r) (rune_cp h) = 0"
  shows "shape_text T (xs @ concat [r, h] @ 0 # ys) (length xs)
       = Some (xs @ concat [enc2 (form16 e (initial_codept_delta e)), enc2 (form16 eh (final_codept_delta eh))] @ 0 # ys) \<and>
     arabic_joining T False (tokens T [r, h]) = [enc2 (isolated_codept e), enc2 (isolated_codept eh)]"
  using shape.run_spec [of T "[r, h]" xs ys] assms
  by (simp add: shape_runes_def tokens_def classify_def code_form_def joined_form_def)

theorem shape_text_hamza_witness:
  "shape_text hamza_demo ([] @ concat [beh, hamza] @ 0 # []) 0 = Some ([] @ concat [[0xDC, 0x83], [0xDC, 0x8D]] @ 0 # []) \<and>
   arabic_joining hamza_demo False (tokens hamza_demo [beh, hamza]) = [[0xDC, 0x82], [0xDC, 0x8D]]"
proof -
  let ?e = "lut_at (ARABIC_SHAPER_LUT hamza_demo) 2" and ?h = "lut_at (ARABIC_SHAPER_LUT hamza_demo) 0"
  have h: "text_ok hamza_demo [beh, hamza]" "find_lut_entry_by_codept hamza_demo (rune_cp beh) = Some ?e"
    "joins_both_sides ?e" "\<not> is_zero_width hamza_demo (rune_cp beh)"
    "find_lut_entry_by_codept hamza_demo (rune_cp hamza) = Some ?h" "\<not> joins_prev hamza_demo ?h"
    "\<not> is_zero_width hamza_demo (rune_cp hamza)"
    "lig_lookup (ligatures hamza_demo) (rune_cp beh) (rune_cp hamza) = 0"
    by code_simp+
  have f: "enc2 (form16 ?e (initial_codept_delta ?e)) = [0xDC, 0x83]" "enc2 (isolated_codept ?e) = [0xDC, 0x82]"
    "enc2 (form16 ?h (final_codept_delta ?h)) = [0xDC, 0x8D]" "enc2 (isolated_codept ?h) = [0xDC, 0x8D]"
    by code_simp+
  from shape_text_hamza [OF hamza_demo_ok h, of "[]" "[]"] f show ?thesis by simp
qed

text \<open>
  Shaping touches nothing but the bytes of the text: the memory before it, its
  terminator and everything after it are as they were, and no byte is added or lost.
\<close>

theorem shape_text_frame:
  assumes "tables_ok T" and "text_ok T rs" and "m = xs @ concat rs @ 0 # ys"
  shows "\<exists>m'. shape_text T m (length xs) = Some m' \<and> length m' = length m \<and>
     take (length xs) m' = xs \<and> drop (length xs + length (concat rs)) m' = 0 # ys"
  using shape.run_frame [of T rs m xs ys] assms by blast

theorem shape_text_frame_witness:
  "\<exists>m'. shape_text demo ([0x61] @ concat demo_text @ 0 # [0x62]) 1 = Some m' \<and>
     length m' = 13 \<and> take 1 m' = [0x61] \<and> drop 11 m' = [0, 0x62]"
proof -
  have l: "length (concat demo_text) = 10" by (simp add: demo_text_def)
  from shape_text_frame [OF demo_ok demo_text_ok refl, of "[0x61]" "[0x62]"] show ?thesis by (simp add: l)
qed

text \<open>
  C5. \<open>unshape_text\<close> undoes \<open>shape_text\<close>: on tables in which every shaped code point leads back to
  one letter, shaping a plain text and unshaping it again leaves memory as it was.
\<close>

theorem unshape_shape_text:
  assumes "tables_ok T" and "reversible T" and "plain_text T rs"
  shows "Option.bind (shape_text T (xs @ concat rs @ 0 # ys) (length xs)) (\<lambda>m. unshape_text T m (length xs))
       = Some (xs @ concat rs @ 0 # ys)"
  using shaping.restored assms by blast

theorem unshape_shape_text_witness:
  "Option.bind (shape_text demo ([0x61] @ concat demo_text @ 0 # [0x62]) 1) (\<lambda>m. unshape_text demo m 1)
     = Some ([0x61] @ concat demo_text @ 0 # [0x62])"
  using unshape_shape_text [OF demo_ok demo_reversible demo_text_plain, of "[0x61]" "[0x62]"] by simp

text \<open>
  C6. \<open>unshape_text\<close> by itself: it returns, and maps every shaped code point back to the first
  letter of the table that has it as a form, expanding ligatures over the preceding rune.
\<close>

theorem unshape_text_correct:
  assumes "tables_ok T" and "unshape_ok T 0 rs"
  shows "unshape_text T (xs @ concat rs @ 0 # ys) (length xs)
       = Some (xs @ concat (unshape_runes T rs) @ 0 # ys)"
  using unshape.run_spec assms by blast

theorem unshape_text_correct_witness:
  "unshape_text demo ([] @ concat [[0xDC, 0x83], [0xDC, 0x85], latin_a] @ 0 # []) 0
     = Some ([] @ concat [beh, beh, latin_a] @ 0 # [])"
proof -
  have "unshape_runes demo [[0xDC, 0x83], [0xDC, 0x85], latin_a] = [beh, beh, latin_a]" by code_simp
  with unshape_text_correct [OF demo_ok demo_unshape_ok, of "[]" "[]"] show ?thesis by simp
qed

text \<open>
  C7. The ligature search: although it reads one cell past its two-element pattern before it
  checks the bound, its result is the table lookup, whatever that cell holds.
\<close>

theorem find_ligature_correct:
  assumes "tables_ok T"
  shows "find_ligature_by_codepts (T\<lparr>past_buffer := w\<rparr>) [x, y] 2 = lig_lookup (ligatures T) x y"
proof -
  have "ligature_lut (T\<lparr>past_buffer := w\<rparr>) = lig_flat (ligatures T)"
    using tables_okD(1) [OF assms] by (simp add: ligature_lut_def)
  from find_ligature_flat [OF this tables_okD(2) [OF assms]] show ?thesis .
qed

theorem find_ligature_correct_witness:
  "find_ligature_by_codepts (demo\<lparr>past_buffer := 0x870A\<rparr>) [0x644, 0x627] 2 = 0x70A"
proof -
  have "lig_lookup (ligatures demo) 0x644 0x627 = 0x70A" by code_simp
  with find_ligature_correct [OF demo_ok] show ?thesis by simp
qed

text \<open>
  The range test at the head of \<open>find_lut_entry_by_codept\<close> never rejects anything: the
  function is the plain search for the first entry with the code point, and finds the entries
  of ligatures, whose code points lie outside the tested range.
\<close>

theorem find_lut_entry_search:
  "find_lut_entry_by_codept T c = find (\<lambda>e. true_codept e = c) (shaper_lut T)"
  by (rule find_lut_entry_eq)

text \<open>
  C8. A text whose last rune is a two-byte rune cut after its first byte: the decoder takes the
  terminator for the second byte and \<open>shape_text\<close> goes on behind it.  When the terminator is
  the last byte of memory it reads out of bounds; otherwise it shapes what follows, up to the
  next zero byte, as part of the text.
\<close>

theorem shape_text_overrun:
  assumes "tables_ok T" and "text_ok T rs" and "rune_ok [b, 0]" and "b \<noteq> 0" and "rune_cp [b, 0] \<noteq> 0"
    and "text_ok T qs"
  shows "shape_text T (xs @ concat rs @ [b, 0]) (length xs) = None \<and>
     shape_text T (xs @ concat rs @ [b, 0] @ concat qs @ 0 # ys) (length xs)
       = Some (xs @ concat (shape_runes T (rs @ [[b, 0]] @ qs)) @ 0 # ys)"
proof -
  have "text_ok T (rs @ [[b, 0]])" "text_ok T (rs @ [[b, 0]] @ qs)"
    using assms by (auto simp: text_ok_def text_rune_def)
  with shape_text_unterminated [OF assms(1), of "rs @ [[b, 0]]" xs] shape.run_spec [of T "rs @ [[b, 0]] @ qs" xs ys] assms(1)
  show ?thesis by simp
qed

theorem shape_text_overrun_witness:
  "shape_text demo ([] @ concat [beh] @ [0xD8, 0]) 0 = None \<and>
   shape_text demo ([] @ concat [beh] @ [0xD8, 0] @ concat [beh] @ 0 # []) 0
     = Some ([] @ concat [[0xDC, 0x82], [0xD8, 0], [0xDC, 0x82]] @ 0 # [])"
proof -
  have h: "text_ok demo [beh]" "rune_ok [0xD8, 0]" "(0xD8 :: u8) \<noteq> 0" "rune_cp [0xD8, 0] \<noteq> 0"
    "shape_runes demo ([beh] @ [[0xD8, 0]] @ [beh]) = [[0xDC, 0x82], [0xD8, 0], [0xDC, 0x82]]" by code_simp+
  from shape_text_overrun [OF demo_ok h(1-4,1), of "[]" "[]"] h(5) show ?thesis by simp
qed

section \<open>UTF-8\<close>

text \<open>
  C9. \<open>read_utf8\<close> decodes the encoding of RFC 3629: on the bytes of any code point it advances
  the pointer over exactly these and yields the code point cut to 16 bits, so the value is
  right for the basic plane and a wrong letter beyond it.
\<close>

theorem read_utf8_standard:
  assumes "c < 0x110000"
  shows "read_utf8 (xs @ utf8 c @ ys) (length xs) = Some (ucast c, length xs + length (utf8 c))"
  using utf8_rune [OF assms] read_utf8_rune by metis

theorem read_utf8_standard_witness:
  "read_utf8 ([0x61] @ utf8 0x10627 @ [0]) 1 = Some (0x627, 5)"
proof -
  have "(0x10627 :: u32) < 0x110000" "length (utf8 0x10627) = 4" "ucast (0x10627 :: u32) = (0x627 :: u16)"
    by code_simp+
  with read_utf8_standard [of "0x10627" "[0x61]" "[0]"] show ?thesis by simp
qed

text \<open>
  \<open>write_utf8\<close> stores the standard two-byte encoding of every code point from 0x80 up to
  0x7FF over the two bytes it is pointed at, and \<open>read_utf8\<close> reads the code point back.
\<close>

theorem write_utf8_round_trip:
  assumes "0x80 \<le> c" and "c < 0x800" and "length r = 2"
  shows "write_utf8 (xs @ r @ ys) (length xs) c = Some (xs @ utf8 (ucast c) @ ys) \<and>
         read_utf8 (xs @ utf8 (ucast c) @ ys) (length xs) = Some (c, length xs + 2)"
  using write_utf8_rune [OF assms(3) refl] read_utf8_rune [OF rune_ok_enc2 refl] rune_cp_enc2 [of c]
    enc2_utf8 [OF assms(1,2)] assms(2) by (simp add: word_less_nat_alt)

theorem write_utf8_round_trip_witness:
  "write_utf8 ([0x61] @ [0, 0] @ [0]) 1 0x627 = Some [0x61, 0xD8, 0xA7, 0] \<and>
   read_utf8 [0x61, 0xD8, 0xA7, 0] 1 = Some (0x627, 3)"
proof -
  have "(0x80 :: u16) \<le> 0x627" "(0x627 :: u16) < 0x800" "length [0, 0 :: u8] = 2" "utf8 (ucast (0x627 :: u16)) = [0xD8, 0xA7]"
    by code_simp+
  with write_utf8_round_trip [of "0x627" "[0, 0]" "[0x61]" "[0]"] show ?thesis by simp
qed

section \<open>Right-to-left lines\<close>

text \<open>
  C10. \<open>rtl_apply\<close> on a line of well-formed runes returns, stays between its bounds, and leaves
  there the runes in the order of \<open>rtl_runes\<close>, together with whether it reordered anything.
\<close>

theorem rtl_apply_correct:
  assumes "line_ok rs" and "rs \<noteq> []"
  shows "rtl_apply T (xs @ concat rs @ ys) (length xs) (length xs + length (concat rs))
     = Some (xs @ concat (fst (rtl_runes T rs)) @ ys, snd (rtl_runes T rs))"
  by (rule rtl_apply_runes [OF assms refl])

theorem rtl_apply_correct_witness:
  "rtl_apply demo ([0x61] @ concat [latin_a, blank, beh, lam] @ [0]) 1 7
     = Some ([0x61] @ concat [latin_a, blank, lam, beh] @ [0], True)"
proof -
  have "line_ok [latin_a, blank, beh, lam]" "rtl_runes demo [latin_a, blank, beh, lam] = ([latin_a, blank, lam, beh], True)"
    by code_simp+
  with rtl_apply_correct [of "[latin_a, blank, beh, lam]" demo "[0x61]" "[0]"] show ?thesis by (simp add: numeral_eq_Suc)
qed

text \<open>
  C11. Nothing is lost: up to the exchange of paired brackets the line holds the same runes
  after the pass as before.
\<close>

theorem rtl_apply_permutes:
  assumes "line_ok rs" and "rs \<noteq> []"
  shows "\<exists>rs' did. rtl_apply T (xs @ concat rs @ ys) (length xs) (length xs + length (concat rs))
       = Some (xs @ concat rs' @ ys, did) \<and> mset (map canon rs') = mset (map canon rs)"
  using rtl_apply_runes [OF assms refl] rtl_runes_mset [OF assms(1)] by blast

theorem rtl_apply_permutes_witness:
  "\<exists>rs' did. rtl_apply demo ([] @ concat [beh, paren_open, lam] @ []) 0 5 = Some ([] @ concat rs' @ [], did) \<and>
     mset (map canon rs') = mset (map canon [beh, paren_open, lam])"
proof -
  have "line_ok [beh, paren_open, lam]" by code_simp
  with rtl_apply_permutes [of "[beh, paren_open, lam]" demo "[]" "[]"] show ?thesis by (simp add: numeral_eq_Suc)
qed

text \<open>
  A line without right-to-left runes is left alone, and the pass says so; and whenever it
  says so, the line is unchanged.
\<close>

theorem rtl_apply_reports:
  assumes "line_ok rs" and "rs \<noteq> []" and "(\<forall>r \<in> set rs. \<not> is_rtl T (rune_cp r)) \<or> \<not> snd (rtl_runes T rs)"
  shows "rtl_apply T (xs @ concat rs @ ys) (length xs) (length xs + length (concat rs))
       = Some (xs @ concat rs @ ys, False)"
proof -
  have "rtl_runes T rs = (rs, False)"
    using assms(3) rtl_runes_ltr [of rs T] rtl_go_unchanged [of T rs "[]" None False "fst (rtl_runes T rs)"]
    by (auto simp: rtl_runes_def prod_eq_iff)
  with rtl_apply_runes [OF assms(1,2) refl] show ?thesis by simp
qed

theorem rtl_apply_reports_witness:
  "rtl_apply demo ([0x61] @ concat [latin_a, blank, digit_one] @ [0]) 1 4
     = Some ([0x61] @ concat [latin_a, blank, digit_one] @ [0], False)"
proof -
  have "line_ok [latin_a, blank, digit_one]" "\<forall>r \<in> set [latin_a, blank, digit_one]. \<not> is_rtl demo (rune_cp r)"
    by code_simp+
  with rtl_apply_reports [of "[latin_a, blank, digit_one]" demo "[0x61]" "[0]"] show ?thesis by (simp add: numeral_eq_Suc)
qed

text \<open>
  C12. A line that starts with a right-to-left letter, has at least one more rune, and otherwise
  consists of right-to-left letters and neutral characters without digits is reversed as a
  whole, with brackets exchanged.
\<close>

theorem rtl_apply_rtl_line:
  assumes "is_rtl T (rune_cp r)" and "rs \<noteq> []" and "line_ok (r # rs)" and "\<forall>r \<in> set rs. rtl_body T r"
  shows "rtl_apply T (xs @ concat (r # rs) @ ys) (length xs) (length xs + length (concat (r # rs)))
     = Some (xs @ concat (rev (r # map (mirror_neutral T) rs)) @ ys, True)"
proof -
  have "line_ok rs" using assms(3) by (simp add: line_ok_def)
  from rtl_runes_body [OF assms(1,2) this assms(4)] rtl_apply_runes [OF assms(3) _ refl] show ?thesis
    by simp
qed

theorem rtl_apply_rtl_line_witness:
  "rtl_apply demo ([] @ concat [beh, blank, paren_open, lam, paren_close] @ [0]) 0 7
     = Some ([] @ concat [paren_open, lam, paren_close, blank, beh] @ [0], True)"
proof -
  let ?rs = "[blank, paren_open, lam, paren_close]"
  have h: "is_rtl demo (rune_cp beh)" "?rs \<noteq> []" "line_ok (beh # ?rs)" "\<forall>r \<in> set ?rs. rtl_body demo r" by code_simp+
  have "map (mirror_neutral demo) ?rs = [blank, paren_close, lam, paren_open]" by code_simp
  with rtl_apply_rtl_line [OF h, of "[]" "[0]"] show ?thesis by (simp add: numeral_eq_Suc)
qed

text \<open>
  A number between right-to-left words changes sides with them but keeps the order of its
  digits.
\<close>

theorem rtl_apply_number:
  assumes "\<forall>r \<in> set as. strong_rtl T r" and "as \<noteq> []"
    and "\<forall>r \<in> set ds. numeral_rune T r \<and> mirror_rune r = r" and "ds \<noteq> []"
    and "\<forall>r \<in> set bs. strong_rtl T r" and "bs \<noteq> []" and "line_ok (as @ ds @ bs)"
  shows "rtl_apply T (xs @ concat (as @ ds @ bs) @ ys) (length xs) (length xs + length (concat (as @ ds @ bs)))
     = Some (xs @ concat (rev bs @ ds @ rev as) @ ys, True)"
proof -
  have "line_ok (as @ ds)" using assms(7) by (auto simp: line_ok_def)
  from rtl_runes_number [OF assms(1-6) this] rtl_apply_runes [OF assms(7) _ refl] assms(2) show ?thesis
    by simp
qed

theorem rtl_apply_number_witness:
  "rtl_apply demo ([] @ concat ([beh, lam] @ [digit_one, digit_two] @ [alef]) @ [0]) 0 8
     = Some ([] @ concat ([alef] @ [digit_one, digit_two] @ [lam, beh]) @ [0], True)"
proof -
  have h: "\<forall>r \<in> set [beh, lam]. strong_rtl demo r" "[beh, lam] \<noteq> []"
    "\<forall>r \<in> set [digit_one, digit_two]. numeral_rune demo r \<and> mirror_rune r = r" "[digit_one, digit_two] \<noteq> []"
    "\<forall>r \<in> set [alef]. strong_rtl demo r" "[alef] \<noteq> []" "line_ok ([beh, lam] @ [digit_one, digit_two] @ [alef])"
    by code_simp+
  from rtl_apply_number [OF h, of "[]" "[0]"] show ?thesis by (simp add: numeral_eq_Suc)
qed

text \<open>
  C13. On a line of right-to-left letters, a number, one neutral character and one left-to-right
  rune that is not a control character, the number comes out with its digits in reverse order,
  in front of the reversed letters.
\<close>

theorem rtl_apply_number_backwards:
  assumes "\<forall>r \<in> set as. strong_rtl T r" and "as \<noteq> []"
    and "\<forall>r \<in> set ds. numeral_rune T r \<and> mirror_rune r = r" and "ds \<noteq> []"
    and "neutral T n" and "strong_ltr T l" and "0x20 \<le> rune_cp l" and "line_ok (as @ ds @ [n, l])"
  shows "rtl_apply T (xs @ concat (as @ ds @ [n, l]) @ ys) (length xs) (length xs + length (concat (as @ ds @ [n, l])))
     = Some (xs @ concat (rev ds @ rev as @ [n, l]) @ ys, True)"
proof -
  have "line_ok (as @ ds)" using assms(8) by (auto simp: line_ok_def)
  from rtl_runes_number_closed [OF assms(1-7) this] rtl_apply_runes [OF assms(8) _ refl] show ?thesis
    by simp
qed

theorem rtl_apply_number_backwards_witness:
  "rtl_apply demo ([] @ concat ([beh, lam] @ [digit_one, digit_two] @ [blank, latin_a]) @ [0]) 0 8
     = Some ([] @ concat ([digit_two, digit_one] @ [lam, beh] @ [blank, latin_a]) @ [0], True)"
proof -
  have h: "\<forall>r \<in> set [beh, lam]. strong_rtl demo r" "[beh, lam] \<noteq> []"
    "\<forall>r \<in> set [digit_one, digit_two]. numeral_rune demo r \<and> mirror_rune r = r" "[digit_one, digit_two] \<noteq> []"
    "neutral demo blank" "strong_ltr demo latin_a" "0x20 \<le> rune_cp latin_a"
    "line_ok ([beh, lam] @ [digit_one, digit_two] @ [blank, latin_a])"
    by code_simp+
  from rtl_apply_number_backwards [OF h, of "[]" "[0]"] show ?thesis by (simp add: numeral_eq_Suc)
qed

text \<open>
  C14. On a line of strong characters only, a second pass puts back what the first one did.
\<close>

theorem rtl_apply_twice:
  assumes "strong_line T rs" and "concat rs \<noteq> []" and "e = length xs + length (concat rs)"
  shows "Option.bind (map_option fst (rtl_apply T (xs @ concat rs @ ys) (length xs) e))
           (\<lambda>m. map_option fst (rtl_apply T m (length xs) e)) = Some (xs @ concat rs @ ys)"
  by (rule strong.run_twice [OF assms])

theorem rtl_apply_twice_witness:
  "Option.bind (map_option fst (rtl_apply demo ([0x61] @ concat [beh, lam, latin_a, alef] @ [0]) 1 8))
     (\<lambda>m. map_option fst (rtl_apply demo m 1 8)) = Some ([0x61] @ concat [beh, lam, latin_a, alef] @ [0])"
proof -
  have "strong_line demo [beh, lam, latin_a, alef]" "concat [beh, lam, latin_a, alef] \<noteq> []"
    "8 = length [0x61 :: u8] + length (concat [beh, lam, latin_a, alef])"
    by code_simp+
  from rtl_apply_twice [OF this, of "[0]"] show ?thesis by simp
qed

text \<open>
  A neutral character at the end of a right-to-left line is not put back by the second
  pass: it stays at the front.
\<close>

theorem rtl_apply_twice_neutral:
  assumes "\<forall>r \<in> set rs. strong_rtl T r" and "rs \<noteq> []" and "neutral T n" and "neutral T (mirror_rune n)"
    and "line_ok (rs @ [n])" and "line_ok [mirror_rune n]" and "e = length xs + length (concat (rs @ [n]))"
  shows "Option.bind (map_option fst (rtl_apply T (xs @ concat (rs @ [n]) @ ys) (length xs) e))
           (\<lambda>m. map_option fst (rtl_apply T m (length xs) e))
         = Some (xs @ concat (mirror_rune n # rs) @ ys) \<and> mirror_rune n # rs \<noteq> rs @ [n]"
proof -
  note r = rtl_runes_trailing_neutral [OF assms(1-5)]
  have ok: "line_ok (mirror_rune n # rev rs)" using assms(5,6) by (auto simp: line_ok_def)
  have len: "length (mirror_rune n) = length n"
    using line_ok_nonempty [OF assms(5)] by (simp add: mirror_rune_def)
  have e: "e = length xs + length (concat (mirror_rune n # rev rs))" using assms(7) len by simp
  have "mirror_rune n # rs \<noteq> rs @ [n]"
    using assms(1,2,4) by (cases rs) (auto simp: strong_rtl_def neutral_def)
  with rtl_apply_runes [OF ok _ e, of T ys] rtl_apply_runes [OF assms(5) _ assms(7), of T ys] r show ?thesis
    by simp
qed

theorem rtl_apply_twice_neutral_witness:
  "Option.bind (map_option fst (rtl_apply demo ([] @ concat ([beh, lam] @ [full_stop]) @ [0]) 0 5))
     (\<lambda>m. map_option fst (rtl_apply demo m 0 5)) = Some ([] @ concat (full_stop # [beh, lam]) @ [0])"
proof -
  have h: "\<forall>r \<in> set [beh, lam]. strong_rtl demo r" "[beh, lam] \<noteq> []" "neutral demo full_stop"
    "neutral demo (mirror_rune full_stop)" "line_ok ([beh, lam] @ [full_stop])" "line_ok [mirror_rune full_stop]"
    "5 = length ([] :: u8 list) + length (concat ([beh, lam] @ [full_stop]))"
    by code_simp+
  have "mirror_rune full_stop = full_stop" by code_simp
  with rtl_apply_twice_neutral [OF h, of "[0]"] show ?thesis by simp
qed

text \<open>
  \<open>reverse_span\<close> reverses the order of the runes between its two pointers, keeping the
  bytes of every rune in order.
\<close>

theorem reverse_span_correct:
  assumes "\<forall>r \<in> set rs. rune_ok r"
  shows "reverse_span (xs @ concat rs @ ys) (length xs) (length xs + length (concat rs))
       = Some (xs @ concat (rev rs) @ ys)"
  by (rule reverse_span_runes [OF assms refl refl])

theorem reverse_span_correct_witness:
  "reverse_span ([0x61] @ concat [beh, latin_a, [0xE2, 0x82, 0xAC], [0xF0, 0x9F, 0x98, 0x80]] @ [0]) 1 11
     = Some ([0x61] @ concat [[0xF0, 0x9F, 0x98, 0x80], [0xE2, 0x82, 0xAC], latin_a, beh] @ [0])"
proof -
  have "\<forall>r \<in> set [beh, latin_a, [0xE2, 0x82, 0xAC], [0xF0, 0x9F, 0x98, 0x80]]. rune_ok r" by code_simp
  from reverse_span_correct [OF this, of "[0x61]" "[0]"] show ?thesis by (simp add: numeral_eq_Suc)
qed

text \<open>
  \<open>apply_swaps\<close> exchanges the brackets of a pair and leaves every other byte alone; it is its
  own inverse.
\<close>

theorem apply_swaps_pairs:
  "apply_swaps (xs @ b # ys) (length xs) = Some (xs @ mirror b # ys) \<and> mirror (mirror b) = b \<and>
   (mirror b \<noteq> b \<longleftrightarrow> b \<in> set RTL_SWAPS)"
proof -
  have "apply_swaps (xs @ b # ys) (length xs) = Some (xs @ mirror b # ys)"
    by (auto simp: apply_swaps_def rd_split wr_split mirror_def split: option.splits)
  then show ?thesis by (simp add: mirror_code RTL_SWAPS_def)
qed

section \<open>The hooks\<close>

text \<open>
  \<open>gdt_alignment_step\<close> turns left alignment into right alignment when the first rune that
  is neither neutral nor a numeral is right-to-left, and changes nothing otherwise.
\<close>

theorem gdt_alignment_correct:
  assumes "\<forall>r \<in> set rs. rune_ok r \<and> hd r \<noteq> 0"
  shows "gdt_alignment_step T (xs @ concat rs @ 0 # ys) (length xs) a
     = Some (if a = GTextAlignmentLeft \<and> starts_rtl T rs then GTextAlignmentRight else a)"
  by (rule gdt_alignment_runes [OF assms])

theorem gdt_alignment_correct_witness:
  "gdt_alignment_step demo ([0x61] @ concat [blank, digit_one, beh, latin_a] @ 0 # []) 1 GTextAlignmentLeft
     = Some GTextAlignmentRight"
proof -
  have "\<forall>r \<in> set [blank, digit_one, beh, latin_a]. rune_ok r \<and> hd r \<noteq> 0" by code_simp
  moreover have "starts_rtl demo [blank, digit_one, beh, latin_a]" by code_simp
  ultimately show ?thesis
    using gdt_alignment_correct [of "[blank, digit_one, beh, latin_a]" demo "[0x61]" "[]" GTextAlignmentLeft]
    by simp
qed

text \<open>
  C15. \<open>graphics_draw_text_patch\<close> hands the firmware the shaped text and the alignment that the
  text asks for: although the alignment is computed on the shaped text, it is that of the
  text as it was given.
\<close>

theorem draw_text_patch_correct:
  assumes "tables_ok T" and "tables_directed T" and "text_ok T rs"
  shows "graphics_draw_text_patch T (xs @ concat rs @ 0 # ys) (length xs) a
    = Some (xs @ concat (shape_runes T rs) @ 0 # ys,
        if a = GTextAlignmentLeft \<and> starts_rtl T rs then GTextAlignmentRight else a)"
  by (rule draw_text_patch_runes [OF assms])

theorem draw_text_patch_correct_witness:
  "graphics_draw_text_patch demo ([] @ concat demo_text @ 0 # []) 0 GTextAlignmentLeft
    = Some ([] @ concat (shape_runes demo demo_text) @ 0 # [], GTextAlignmentRight)"
proof -
  have "starts_rtl demo demo_text" by code_simp
  with draw_text_patch_correct [OF demo_ok demo_directed demo_text_ok, of "[]" "[]" GTextAlignmentLeft]
  show ?thesis by simp
qed

text \<open>
  C16. A whole call of the drawing routine on a platform that unshapes leaves the text as it was:
  the entry hook shapes it, every line goes through the render wrapper, which reorders it
  for the firmware's handler and puts it back, and the hook at the end unshapes it.  The text is
  in RAM and plain, the tables are reversible and directed; the firmware's own code returns and
  does not write to the text, though to any other memory, its handlers keep the line ends, and each line it draws is
  a part of the shaped text, made of strong runes or a right-to-left sentence, up to the blanks
  before the recorded line end.
\<close>

theorem draw_text_restores:
  assumes "tables_ok T" and "tables_directed T" and "reversible T" and "plain_text T rs"
    and "SRAM_BASE \<le> base + length xs" and "n = length (xs @ concat rs @ 0 # ys)"
    and "draw (xs @ concat (shape_runes T rs) @ 0 # ys) (length xs)
        (if a = GTextAlignmentLeft \<and> starts_rtl T rs then GTextAlignmentRight else a) = fd"
    and "\<forall>l \<in> set (fd_lines fd). draws_line T cfg base n (length xs) (shape_runes T rs) l"
    and "spares n (length xs) (length xs + length (concat rs) + 1) (fd_finish fd)"
  shows "\<exists>xs' ys'. draw_text_call T cfg base draw (xs @ concat rs @ 0 # ys) (length xs) a
     = Some (xs' @ concat rs @ 0 # ys') \<and> length xs' = length xs \<and> length ys' = length ys"
  by (rule draw_text_call_runes) (rule assms)+

theorem draw_text_restores_witness:
  "\<exists>xs' ys'. draw_text_call demo (LINEEND_SP_OFF 0) ram (\<lambda>m txt a. demo_draw) ([0x61] @ concat demo_text @ 0 # replicate 8 0) 1
       GTextAlignmentLeft = Some (xs' @ concat demo_text @ 0 # ys') \<and> length xs' = 1 \<and> length ys' = 8"
proof -
  have "\<forall>l \<in> set (fd_lines demo_draw). draws_line demo (LINEEND_SP_OFF 0) ram 20 (length [0x61 :: u8]) (shape_runes demo demo_text) l"
    using demo_draws by simp
  moreover have "spares 20 (length [0x61 :: u8]) (length [0x61 :: u8] + length (concat demo_text) + 1) (fd_finish demo_draw)"
    by (simp add: spares_def demo_draw_def) blast
  moreover have "SRAM_BASE \<le> ram + length [0x61 :: u8]" by (simp add: SRAM_BASE_def)
  moreover have "20 = length ([0x61] @ concat demo_text @ 0 # replicate 8 0)" by (simp add: demo_text_def)
  ultimately show ?thesis
    using draw_text_restores [OF demo_ok demo_directed demo_reversible demo_text_plain _ _ refl, of ram "[0x61]" 20 "replicate 8 0"
        "\<lambda>m txt a. demo_draw" GTextAlignmentLeft "LINEEND_SP_OFF 0"] by simp
qed

text \<open>
  C17. Measuring text, through the hook with attributes as the platform has it (in C with
  unshaping, in assembly without) and through the wrapper that passes no attributes: the firmware
  measures the shaped text with the arguments given; if it keeps the text, which it takes as
  \<^verbatim>\<open>const char *\<close>, while it may change other memory, then afterwards the text is as it was where the platform unshapes
  and the caller has not passed the diagnostics app's overflow mode, and stays shaped
  otherwise.  The tables are reversible and the text is plain.
\<close>

theorem get_content_size_correct:
  assumes "tables_ok T" and "reversible T" and "plain_text T rs"
    and "\<And>attrs. passthru (xs @ concat (shape_runes T rs) @ 0 # ys) (length xs) (args\<lparr>la_attributes := attrs\<rparr>)
       = Some (res attrs, xs' attrs @ concat (shape_runes T rs) @ 0 # ys' attrs)" and "\<And>attrs. length (xs' attrs) = length xs"
  shows "(if TEXT_UNSHAPE then graphics_text_layout_get_content_size_with_attributes_patch
          else get_content_size_with_attributes_stub) T passthru (xs @ concat rs @ 0 # ys) (length xs) args
       = Some (res (la_attributes args), xs' (la_attributes args) @
               concat (if TEXT_UNSHAPE \<and> la_overflow_mode args \<noteq> 0xE5 then rs else shape_runes T rs) @ 0 # ys' (la_attributes args)) \<and>
     graphics_text_layout_get_content_size_patch TEXT_UNSHAPE T passthru (xs @ concat rs @ 0 # ys) (length xs) args
       = Some (res None, xs' None @
               concat (if TEXT_UNSHAPE \<and> la_overflow_mode args \<noteq> 0xE5 then rs else shape_runes T rs) @ 0 # ys' None)"
proof -
  have "args\<lparr>la_attributes := la_attributes args\<rparr> = args" by simp
  with assms(4) have fw: "passthru (xs @ concat (shape_runes T rs) @ 0 # ys) (length xs) args
      = Some (res (la_attributes args), xs' (la_attributes args) @ concat (shape_runes T rs) @ 0 # ys' (la_attributes args))"
    by metis
  note size_runes = content_size_with_attributes_runes [where passthru = passthru and xs = xs, OF assms(1-3)]
  from size_runes [OF fw assms(5)] size_runes [OF assms(4) [of None] assms(5)]
  show ?thesis by (simp add: graphics_text_layout_get_content_size_patch_def)
qed

theorem get_content_size_correct_witness:
  "graphics_text_layout_get_content_size_patch True demo (\<lambda>m txt args. Some (\<lparr>sz_w = 42, sz_h = 18\<rparr>, m[0 := 0xFF]))
     ([0x61] @ concat demo_text @ 0 # []) 1
     \<lparr>la_font = (), la_box = demo_box, la_overflow_mode = 1, la_alignment = GTextAlignmentLeft, la_attributes = Some ()\<rparr>
   = Some (\<lparr>sz_w = 42, sz_h = 18\<rparr>, [0xFF] @ concat demo_text @ 0 # [])"
  using get_content_size_correct [OF demo_ok demo_reversible demo_text_plain,
      of "\<lambda>m txt args. Some (\<lparr>sz_w = 42, sz_h = 18\<rparr>, m[0 := 0xFF])" "[0x61]" "[]"
      "\<lparr>la_font = (), la_box = demo_box, la_overflow_mode = 1, la_alignment = GTextAlignmentLeft,
        la_attributes = Some ()\<rparr>" "\<lambda>_. \<lparr>sz_w = 42, sz_h = 18\<rparr>" "\<lambda>_. [0xFF]" "\<lambda>_. []" True] by simp

text \<open>
  C18. \<open>render_rtl_step\<close> on a line in RAM followed by blanks up to the line end the firmware
  recorded: the blanks stay where they are and the line is reordered.
\<close>

theorem render_rtl_step_correct:
  assumes "at_line cfg base xs (concat rs) k ys more_text callsite_sp"
    and "line_ok rs" and "rs \<noteq> []" and "last (concat rs) \<noteq> 0x20"
  shows "render_rtl_step T cfg base (xs @ concat rs @ replicate k 0x20 @ ys) (base + length xs) more_text callsite_sp
    = Some (xs @ concat (fst (rtl_runes T rs)) @ replicate k 0x20 @ ys)"
  by (rule render_rtl_step_runes [OF assms])

theorem render_rtl_step_correct_witness:
  "render_rtl_step demo (LINEEND_SP_OFF 0) ram ([] @ concat [beh, lam] @ replicate 2 0x20 @ ram_stack)
     (ram + 0) False (ram + 8)
   = Some ([] @ concat [lam, beh] @ replicate 2 0x20 @ ram_stack)"
proof -
  have "line_ok [beh, lam]" "[beh, lam] \<noteq> []" "last (concat [beh, lam]) \<noteq> 0x20"
    "fst (rtl_runes demo [beh, lam]) = [lam, beh]"
    by code_simp+
  with render_rtl_step_correct [OF ram_line, of demo] show ?thesis by simp
qed

text \<open>
  C19. The render wrapper puts a line of strong characters, or a right-to-left sentence that
  begins and ends with right-to-left letters and has blanks and punctuation inside, back as it
  was.  In between the firmware's handler is called on the reordered line; it returns, keeps the
  line and its line ends and may change everything around it.
\<close>

theorem render_wrap_restores:
  assumes "at_line cfg base xs (concat rs) k ys more_text callsite_sp" and "undone_line T rs"
    and "handler (xs @ concat (fst (rtl_runes T rs)) @ replicate k 0x20 @ ys)
       = Some (xs' @ concat (fst (rtl_runes T rs)) @ replicate k 0x20 @ ys')"
    and "at_line cfg base xs' (concat (fst (rtl_runes T rs))) k ys' more_text callsite_sp" and "length xs' = length xs"
  shows "render_wrap T cfg base handler (xs @ concat rs @ replicate k 0x20 @ ys) (base + length xs) more_text callsite_sp
    = Some (xs' @ concat rs @ replicate k 0x20 @ ys')"
  by (rule render_wrap_undone_line) (rule assms)+

theorem render_wrap_restores_witness:
  "render_wrap demo (LINEEND_SP_OFF 0) ram (\<lambda>m. Some (m[6 := 0xFF])) ([] @ concat [beh, blank, lam] @ replicate 1 0x20 @ ram_stack)
     (ram + 0) False (ram + 8)
   = Some ([] @ concat [beh, blank, lam] @ replicate 1 0x20 @ 0xFF # tl ram_stack)"
proof -
  have u: "undone_line demo [beh, blank, lam]" "fst (rtl_runes demo [beh, blank, lam]) = [lam, blank, beh]" by code_simp+
  have l: "at_line (LINEEND_SP_OFF 0) ram [] (concat [beh, blank, lam]) 1 ram_stack False (ram + 8)"
    "at_line (LINEEND_SP_OFF 0) ram [] (concat [lam, blank, beh]) 1 (0xFF # tl ram_stack) False (ram + 8)"
    by (simp_all add: at_line_def SRAM_BASE_def slots_apart_def ld32_def ld8_def rd_def nth_append)
  have "([] @ concat (fst (rtl_runes demo [beh, blank, lam])) @ replicate 1 0x20 @ ram_stack)[6 := 0xFF]
      = [] @ concat (fst (rtl_runes demo [beh, blank, lam])) @ replicate 1 0x20 @ 0xFF # tl ram_stack"
    unfolding u(2) by (simp add: list_update_append)
  with render_wrap_restores [OF l(1) u(1), of "\<lambda>m. Some (m[6 := 0xFF])" "[]" "0xFF # tl ram_stack"] l(2)
  show ?thesis by (simp only: u(2) list.size)
qed

section \<open>The hooks on the processor\<close>

text \<open>
  C20. The assembly of the drawing hook does what \<open>graphics_draw_text_patch\<close> says: entered with the
  arguments where the prototype of \<open>graphics_draw_text\<close> puts them, it jumps to the firmware with
  the text shaped, the alignment argument replaced, every other argument word, every register and
  the stack pointer as they were, whatever the routines it calls leave in the scratch registers and
  below the stack pointer.
\<close>

theorem draw_text_hook_refines:
  fixes s :: "mem cpu"
  assumes "graphics_draw_text_patch T (world s) p a = Some (m, a')" and "24 \<le> sp s"
    and "received_args draw_text_proto (arg_word s) =
      [[ctx], [VText p], [font], [box0, box1], [mode], [VInt (alignment_word a)], [attrs]]"
  shows "\<exists>s'. exec jr js (runtime T) H graphics_draw_text_asm s = Some (Jump ''graphics_draw_text_patch__passthru'', s') \<and>
     world s' = m \<and> rg s' = rg s \<and> sp s' = sp s \<and>
     received_args draw_text_proto (arg_word s') =
       [[ctx], [VText p], [font], [box0, box1], [mode], [VInt (alignment_word a')], [attrs]] \<and>
     (\<forall>b \<ge> sp s. b \<noteq> sp s + 8 \<longrightarrow> words s' b = words s b)"
  by (rule draw_text_stub [OF assms])

theorem draw_text_hook_refines_witness:
  "\<exists>s'. exec (\<lambda>s k. VInt 99) (\<lambda>s b. VInt 98) (runtime demo) (\<lambda>_ _ _ _ _ _. None) graphics_draw_text_asm
       (demo_cpu ([] @ concat demo_text @ 0 # [])) = Some (Jump ''graphics_draw_text_patch__passthru'', s') \<and>
     world s' = [] @ concat (shape_runes demo demo_text) @ 0 # [] \<and> words s' 72 = VInt (alignment_word GTextAlignmentRight)"
proof -
  let ?s = "demo_cpu ([] @ concat demo_text @ 0 # [])"
  have "starts_rtl demo demo_text" by code_simp
  then have h: "graphics_draw_text_patch demo (world ?s) 0 GTextAlignmentLeft
      = Some ([] @ concat (shape_runes demo demo_text) @ 0 # [], GTextAlignmentRight)"
    using draw_text_patch_runes [OF demo_ok demo_directed demo_text_ok, of "[]" "[]" GTextAlignmentLeft]
    by (simp add: demo_cpu_def)
  have sp: "24 \<le> sp ?s" "sp ?s = 64" by (simp_all add: demo_cpu_def)
  from draw_text_hook_refines [OF h sp(1) demo_cpu_args, of "\<lambda>s k. VInt 99" "\<lambda>s b. VInt 98" "\<lambda>_ _ _ _ _ _. None"]
  show ?thesis
    by (auto simp: received_args_def draw_text_slots arg_word_def slot_location_def demo_cpu_def)
qed

text \<open>
  C21. The assembly of the measuring hook, used where the text is not unshaped: it shapes the text
  and jumps to the firmware with all registers and the stack as they were, and so with the arguments of
  any function with the text as its first one.
\<close>

theorem content_size_hook_refines:
  fixes s :: "mem cpu"
  assumes "shape_text T (world s) p = Some m" and "24 \<le> sp s"
    and "received_args content_size_proto (arg_word s) = [VText p] # args"
  shows "\<exists>s'. exec jr js (runtime T) H get_content_size_with_attributes_asm s =
       Some (Jump ''graphics_text_layout_get_content_size_with_attributes_patch__passthru'', s') \<and>
     world s' = m \<and> rg s' = rg s \<and> sp s' = sp s \<and>
     (\<forall>q. received_args q (arg_word s') = received_args q (arg_word s)) \<and> (\<forall>b \<ge> sp s. words s' b = words s b)"
proof -
  have "measure_ready T s" using assms
    by (simp add: measure_ready_def received_args_def content_size_slots arg_word_def slot_location_def)
  from measure_hook.all_kept [OF this] content_size_stub [OF assms, of jr js H] show ?thesis by fastforce
qed

theorem content_size_hook_refines_witness:
  "\<exists>s'. exec (\<lambda>s k. VInt 99) (\<lambda>s b. VInt 98) (runtime demo) (\<lambda>_ _ _ _ _ _. None) get_content_size_with_attributes_asm
       (demo_cpu [0]\<lparr>rg := (\<lambda>k. VText 0)\<rparr>) =
         Some (Jump ''graphics_text_layout_get_content_size_with_attributes_patch__passthru'', s') \<and> world s' = [0]"
proof -
  let ?s = "demo_cpu [0]\<lparr>rg := (\<lambda>k. VText 0)\<rparr>"
  have "text_ok demo []" by (simp add: text_ok_def)
  from shape_text_runes [OF demo_ok this, of "[]" "[]"] have "shape_text demo (world ?s) 0 = Some [0]"
    by (simp add: demo_cpu_def shape_runes_def tokens_def)
  moreover have "24 \<le> sp ?s" by (simp add: demo_cpu_def)
  moreover have "received_args content_size_proto (arg_word ?s) = [VText 0] # tl (received_args content_size_proto (arg_word ?s))"
    by (simp add: received_args_def content_size_slots arg_word_def slot_location_def)
  ultimately show ?thesis using content_size_hook_refines [of demo ?s 0 "[0]"] by blast
qed



text \<open>
  C23. The render wrapper: with the layout and the more-text flag in registers that calls preserve, it
  runs the step on the line, the firmware's handler with the arguments the replaced code would have
  passed, and the step again on the same line with the same flag and the stack pointer of the call
  site, then returns there with preserved registers and stack intact.  The layout's first word lies
  on the callers' part of the stack, or under the stack where the called routines leave it.
\<close>

theorem render_wrap_hook_calls:
  fixes s :: "'w cpu"
  assumes "layout_reg \<in> callee_saved" and "more_text_reg \<in> callee_saved" and "hdlr_reg \<in> callee_saved \<or> hdlr_reg = 3"
    and "16 \<le> sp s" and "stack_floor s \<le> sp s - 16"
    and "rg s layout_reg = VInt la" and "words s (unat la) = line" 
    and "sp s \<le> unat la \<or> unat la < stack_floor s \<and> (\<forall>t. js t (unat la) = words t (unat la))"
    and "F ''render_rtl_step'' line (rg s more_text_reg) (VInt (of_nat (sp s))) (rg s 3) (world s) = Some (r1, w1)"
    and "H (rg s hdlr_reg) (rg s 0) (rg s 1) (words s (sp s + arg3)) (rg s 3) w1 = Some (r2, w2)"
    and "\<And>r3. F ''render_rtl_step'' line (rg s more_text_reg) (VInt (of_nat (sp s))) r3 w2 = Some (r4, w3)"
  shows "\<exists>s'. exec jr js F H (render_wrap_asm layout_reg more_text_reg hdlr_reg arg3) s = Some (Jump ''render_wrap__return'', s') \<and>
     world s' = w3 \<and> sp s' = sp s \<and> (\<forall>k \<in> callee_saved. rg s' k = rg s k) \<and> (\<forall>b \<ge> sp s. words s' b = words s b)"
  using assms by (intro render_stub [where v = "rg s more_text_reg"]) (auto simp: flag_after_def layout_kept_def)

theorem render_wrap_hook_calls_witness:
  "\<exists>s'. exec (\<lambda>s k. VInt 99) (\<lambda>s b. VInt 98) noting noting_handler (render_wrap_asm 4 5 6 8) render_cpu =
       Some (Jump ''render_wrap__return'', s') \<and> world s' = [VInt 1, VInt 72, VInt 1]"
  using render_wrap_hook_calls [of 4 5 6 render_cpu 96 "VInt 96" "\<lambda>s b. VInt 98" noting None "[VInt 1]" noting_handler 8 None
      "[VInt 1, VInt 72]" None "[VInt 1, VInt 72, VInt 1]" "\<lambda>s k. VInt 99"]
  by (auto simp: render_cpu_def callee_saved_def noting_def noting_handler_def)

text \<open>
  C24. With the flag in r3, which the script's check lets pass, the second step does not get the flag
  but whatever value the handler left in r3.
\<close>

theorem render_wrap_flag_in_r3:
  fixes s :: "'w cpu"
  assumes "layout_reg \<in> callee_saved" and "hdlr_reg \<in> callee_saved \<or> hdlr_reg = 3"
    and "16 \<le> sp s" and "stack_floor s \<le> sp s - 16"
    and "rg s layout_reg = VInt la" and "words s (unat la) = line"
    and "sp s \<le> unat la \<or> unat la < stack_floor s \<and> (\<forall>t. js t (unat la) = words t (unat la))"
    and "F ''render_rtl_step'' line (rg s 3) (VInt (of_nat (sp s))) (rg s 3) (world s) = Some (r1, w1)"
    and "H (rg s hdlr_reg) (rg s 0) (rg s 1) (words s (sp s + arg3)) (rg s 3) w1 = Some (r2, w2)"
    and "\<And>t. jr t 3 = v"
    and "\<And>r3. F ''render_rtl_step'' line v (VInt (of_nat (sp s))) r3 w2 = Some (r4, w3)"
  shows "\<exists>s'. exec jr js F H (render_wrap_asm layout_reg 3 hdlr_reg arg3) s = Some (Jump ''render_wrap__return'', s') \<and>
     world s' = w3 \<and> sp s' = sp s \<and> (\<forall>k \<in> callee_saved. rg s' k = rg s k) \<and> (\<forall>b \<ge> sp s. words s' b = words s b)"
  using assms by (intro render_stub [where v = v]) (auto simp: flag_after_def layout_kept_def)

theorem render_wrap_flag_in_r3_witness:
  "\<exists>s'. exec (\<lambda>s k. VInt 99) (\<lambda>s b. VInt 98) noting noting_handler (render_wrap_asm 4 3 6 8) render_cpu =
       Some (Jump ''render_wrap__return'', s') \<and> rg render_cpu 3 = VInt 1 \<and> world s' = [VInt 1, VInt 72, VInt 99]"
  using render_wrap_flag_in_r3 [of 4 6 render_cpu 96 "VInt 96" "\<lambda>s b. VInt 98" noting None "[VInt 1]" noting_handler 8 None
      "[VInt 1, VInt 72]" "\<lambda>s k. VInt 99" "VInt 99" None "[VInt 1, VInt 72, VInt 99]"]
  by (auto simp: render_cpu_def callee_saved_def noting_def noting_handler_def)

section \<open>The interface of the firmware\<close>

text \<open>
  Every structure and union of the header is laid out without overlap: members follow one another
  inside the structure, unpacked members are aligned, and the size is a multiple of the alignment, so
  that arrays stay aligned.  The header of a serialized tuple takes the seven bytes the header's
  documentation counts.
\<close>

theorem pebble_structs_laid_out:
  "(\<forall>t \<in> set pebble_structs. laid_out t \<and> 0 < alignof t) \<and> sizeof Tuple_t = 7"
  using pebble_structs_wf wf_laid_out wf_align_pos by (simp add: pebble_layout)

theorem pebble_structs_laid_out_witness:
  "laid_out HealthMinuteData_t \<and> sizeof HealthMinuteData_t = 12"
  using pebble_structs_laid_out by (simp add: pebble_structs_def pebble_layout)

text \<open>
  Every function of the header can be called: its arguments and result are complete types, no two
  arguments share a word, and the words a caller passes for the arguments are the words the callee
  receives.
\<close>

theorem pebble_api_calls:
  fixes vs :: "'w list list"
  assumes "p \<in> set pebble_api" and "map length vs = map arg_words (pargs p)"
  shows "list_all wf_type (pargs p) \<and> (pret p = Void \<or> wf_type (pret p)) \<and> distinct (concat (call_slots p)) \<and>
     received_args p (pass_args p vs f) = vs"
  using pebble_api_wf [OF assms(1)] args_received [OF assms(2)] arg_slots_sorted
  by (simp add: proto_wf_def call_slots_def strict_sorted_iff)

theorem pebble_api_calls_witness:
  "received_args draw_text_proto (pass_args draw_text_proto [[1], [2], [3], [4, 5], [6], [7], [8 :: nat]] (\<lambda>_. 0)) =
     [[1], [2], [3], [4, 5], [6], [7], [8]]"
proof -
  have "draw_text_proto \<in> set pebble_api"
    by (simp add: pebble_api_def declared_def api_TextDrawing_def)
  moreover have "map length [[1], [2], [3], [4, 5], [6], [7], [8 :: nat]] = map arg_words (pargs draw_text_proto)"
    by (simp add: declared_def api_TextDrawing_def arg_words_def pebble_layout)
  ultimately show ?thesis using pebble_api_calls by blast
qed

text \<open>
  The prototypes of the runtime fit those of the header: the hooks in C find their arguments where
  callers of the functions they replace put them, and the routines the assembly hooks call take
  theirs from the registers those load.
\<close>

theorem hook_prototypes_fit:
  "call_slots hook_get_content_size_with_attributes = call_slots content_size_proto \<and>
   call_slots hook_get_content_size = call_slots (declared ''graphics_text_layout_get_content_size'' api_TextDrawing) \<and>
   call_slots hook_shape_text = [[0]] \<and> call_slots hook_unshape_text = [[0]] \<and>
   call_slots hook_gdt_alignment_step = [[0], [1]] \<and> call_slots hook_render_rtl_step = [[0], [1], [2]]"
  by (simp only: hooks_replace hooks_called)

section \<open>The tables\<close>

text \<open>
  C25. Whatever the font, the tables that \<open>text_shaper\<close> generates meet what the runtime relies
  on: all letters and forms are two-byte runes, every ligature is a pair of letters with an
  entry of its own, all of them are right-to-left and the filler is neutral.  The two alphabets
  of the script are of the kind required.
\<close>

theorem generated_tables_ok:
  "alphabet_ok full_alphabet \<and> alphabet_ok arabic_alphabet \<and>
   (text_shaper hb A = Inr (T, codepts) \<and> alphabet_ok A \<longrightarrow> tables_ok T \<and> tables_directed T)"
  using full_alphabet_ok arabic_alphabet_ok font.gen_tables_ok [of "(hb, A)" T] font.gen_directed [of "(hb, A)" T]
  by simp

theorem generated_tables_ok_witness:
  "text_shaper demo_hb demo_alphabet = Inr (demo, demo_codepts) \<and> tables_ok demo \<and> tables_directed demo"
  using generated_tables_ok [of demo_hb demo_alphabet demo demo_codepts] demo_generated demo_alphabet_ok by simp

text \<open>
  From the font to the screen: with tables generated for an alphabet of Arabic letters, the
  drawing hook shapes every well-formed text and picks the alignment it asks for.
\<close>

theorem generated_draw_text:
  assumes "text_shaper hb A = Inr (T, codepts)" and "alphabet_ok A" and "text_ok T rs"
  shows "graphics_draw_text_patch T (xs @ concat rs @ 0 # ys) (length xs) a
    = Some (xs @ concat (shape_runes T rs) @ 0 # ys,
        if a = GTextAlignmentLeft \<and> starts_rtl T rs then GTextAlignmentRight else a)"
  using font.gen_draw [of "(hb, A)" T rs xs ys a] assms by simp

theorem generated_draw_text_witness:
  "graphics_draw_text_patch demo ([] @ concat demo_text @ 0 # []) 0 GTextAlignmentCenter
    = Some ([] @ concat (shape_runes demo demo_text) @ 0 # [], GTextAlignmentCenter)"
  using generated_draw_text [OF demo_generated demo_alphabet_ok demo_text_ok, of "[]" "[]" GTextAlignmentCenter]
  by simp

text \<open>
  C26. If no two characters of the dictionary share a glyph, the generated tables let the
  runtime take shaping back.
\<close>

theorem generated_round_trip:
  assumes "tables_of_forms dict = Inr T" and "dict_ok dict"
    and "glyphs_apart (\<lambda>ch. the (map_of dict ch)) (map fst dict)" and "plain_text T rs"
  shows "Option.bind (shape_text T (xs @ concat rs @ 0 # ys) (length xs)) (\<lambda>m. unshape_text T m (length xs))
       = Some (xs @ concat rs @ 0 # ys)"
  using shaping.restored [of T rs xs ys] tables_of_forms_ok [OF assms(1,2)] assms(3,4) by blast

theorem generated_round_trip_witness:
  "glyphs_apart (\<lambda>ch. the (map_of demo_dict ch)) (map fst demo_dict) \<and>
   Option.bind (shape_text demo ([] @ concat demo_text @ 0 # []) 0) (\<lambda>m. unshape_text demo m 0)
     = Some ([] @ concat demo_text @ 0 # [])"
proof -
  have "glyphs_apart (\<lambda>ch. the (map_of demo_dict ch)) (map fst demo_dict)"
    by (simp add: glyphs_apart_def demo_dict_def)
  with generated_round_trip [OF demo_tables demo_dict_ok this demo_text_plain, of "[]" "[]"] show ?thesis by simp
qed



text \<open>
  The generator rejects a font that needs more code points than the scratch ranges have:
  if it succeeds, the distinct glyphs and the ligatures are at most 208.
\<close>

theorem generated_codept_bound:
  assumes "tables_of_forms dict = Inr T" and "dict_ok dict"
  shows "card (\<Union>d \<in> set dict. set (snd d)) + length (filter (\<lambda>d. length (fst d) \<noteq> 1) dict) \<le> 208"
  by (rule codept_bound [OF assms])

theorem generated_codept_bound_witness:
  "card (\<Union>d \<in> set demo_dict. set (snd d)) + length (filter (\<lambda>d. length (fst d) \<noteq> 1) demo_dict) \<le> 208"
  by (rule generated_codept_bound [OF demo_tables demo_dict_ok])

text \<open>
  The range test generated from \<open>contiguous_ranges\<close> holds for exactly the code points that
  have been handed out; without any the script fails.
\<close>

theorem contiguous_ranges_exact:
  "contiguous_ranges [] = Inl IndexError \<and>
   (contiguous_ranges vals = Inr rs \<longrightarrow>
      ARABIC_SHAPER_RANGE (write_lut st rs) c = (unat c \<in> set vals))"
  using contiguous_ranges_cover [of vals rs "unat c"] by (auto simp: contiguous_ranges_def write_lut_def)

theorem contiguous_ranges_exact_witness:
  "contiguous_ranges [0x780, 0x700, 0x701] = Inr [(0x700, 0x701), (0x780, 0x780)] \<and>
   ARABIC_SHAPER_RANGE (write_lut pack_init [(0x700, 0x701), (0x780, 0x780)]) 0x780"
proof -
  have "contiguous_ranges [0x780, 0x700, 0x701] = Inr [(0x700, 0x701), (0x780, 0x780)]"
    by (simp add: contiguous_ranges_def)
  with contiguous_ranges_exact [of "[0x780, 0x700, 0x701]" "[(0x700, 0x701), (0x780, 0x780)]" pack_init "0x780"]
  show ?thesis by simp
qed

section \<open>Patching the firmware\<close>

text \<open>
  C28. The image \<open>finalize\<close> writes: every branch it inserted goes to the symbol it was meant for,
  as the processor decodes it, provided the four-byte sites do not overlap and lie at even
  addresses inside the binary, and the symbols are even, inside the image and not the instruction
  right after the site; the footer of the firmware stands at its end; and the image, with the
  16 KB of the bootloader on hardware, fits the 512 KB of aplite or the megabyte of the other platforms.
\<close>

theorem finalize_branches_land:
  assumes "finalize hw platform symtab code ops bin = Inr img"
    and "sites_apart (map fst (branches ops))"
    and "\<forall>b \<in> set (branches ops). target_ok symtab (MICROCODE_OFFSET hw) (length bin) (length img) b"
  shows "(\<forall>b \<in> set (branches ops). symtab (snd b) = Some (branch_target img (fst b) + MICROCODE_OFFSET hw)) \<and>
     drop (length img - length (trailing_bin_content hw bin)) img = trailing_bin_content hw bin \<and>
     platform \<in> {''aplite'', ''basalt'', ''chalk'', ''diorite''} \<and>
     length img + (if hw then 0x4000 else 0) \<le> (if platform = ''aplite'' then 512 * 1024 else 1024 * 1024)"
  using finalize_lands [OF assms] finalize_fits [OF assms(1)] by blast

theorem finalize_branches_land_witness:
  "\<exists>img. finalize False ''basalt'' [''f'' \<mapsto> 0x800000A] [0x70, 0x47] [PatchBranchOffset 2 ''f'' False]
       [1, 2, 3, 4, 5, 6, 7, 8, 9] = Inr img \<and>
     img = [1, 2, 0x00, 0xF0, 0x02, 0xB8, 7, 8, 9, 0, 0x70, 0x47] \<and> branch_target img 2 = 0xA"
proof -
  let ?ops = "[PatchBranchOffset 2 ''f'' False]" and ?bin = "[1, 2, 3, 4, 5, 6, 7, 8, 9] :: u8 list"
  let ?img = "[1, 2, 0x00, 0xF0, 0x02, 0xB8, 7, 8, 9, 0, 0x70, 0x47] :: u8 list"
  have f: "finalize False ''basalt'' [''f'' \<mapsto> 0x800000A] [0x70, 0x47] ?ops ?bin = Inr ?img"
    by (simp add: finalize_def MAX_IMAGE_SIZE_def MICROCODE_OFFSET_def BOOTLOADER_SIZE_def trailing_bin_content_def
        branch_offset_def branch_instr_def pack_branch_def struct_pack_H_def put_bytes_def)
  have "sites_apart (map fst (branches ?ops))"
    "\<forall>b \<in> set (branches ?ops). target_ok [''f'' \<mapsto> 0x800000A] (MICROCODE_OFFSET False) (length ?bin) (length ?img) b"
    by (simp_all add: target_ok_def MICROCODE_OFFSET_def BOOTLOADER_SIZE_def)
  from finalize_branches_land [OF f this] have "branch_target ?img 2 = 0xA"
    by (simp add: MICROCODE_OFFSET_def BOOTLOADER_SIZE_def)
  with f show ?thesis by blast
qed

text \<open>
  C29. When the encoder is right.  Of the offsets that a branch instruction can hold, those below \<open>2 ^ 23\<close> half-words either
  way, the processor decodes exactly those below \<open>2 ^ 21\<close> either way and not zero to the offset that was encoded: further
  away bits 23 and 22 of the offset are used where the architecture wants bits 22 and 21, and an offset of zero is
  given a sign.
\<close>

theorem branch_instr_far:
  assumes "- (2 ^ 23) \<le> offset" and "offset < 2 ^ 23"
  shows "branch_decode (branch_instr offset link) = 2 * offset \<longleftrightarrow> offset \<noteq> 0 \<and> - (2 ^ 21) \<le> offset \<and> offset < 2 ^ 21"
  by (rule branch_decode_right [OF assms])

theorem branch_instr_far_witness:
  "branch_decode (branch_instr (- 5) True) = - 10 \<and> branch_decode (branch_instr 0x300000 False) \<noteq> 0x600000 \<and>
   branch_decode (branch_instr 0 True) \<noteq> 0"
  using branch_instr_far [of "- 5" True] branch_instr_far [of "0x300000" False] branch_instr_far [of 0 True] by simp

text \<open>
  C30. The symbol table of a stripped firmware: where the image holds a jump table, with pointers to Thumb
  code in the slots of the functions still offered, one of them in slot zero, and zero in the others, and
  no earlier place has its pattern, the search finds it and every function gets the address in its slot.
\<close>

theorem build_symbol_table_correct:
  assumes "jump_table slots fs" "distinct (map fst fs)" "target_bin = pre @ concat (map le32 slots) @ post"
    "\<forall>k < length pre. \<not> matches (jump_pattern 0 (sort (map snd fs))) (drop k target_bin)"
  shows "build_symbol_table hardware target_bin fs =
     Inr (\<lambda>f. map_option (\<lambda>offset. slots ! (offset div 4) - 1 - MICROCODE_OFFSET hardware) (map_of fs f))"
  by (rule symbol_table_of_slots [OF assms])

theorem build_symbol_table_correct_witness:
  "\<exists>symtab. build_symbol_table True ([9, 9, 0, 0] @ concat (map le32 [0x8004101, 0, 0x8004201]) @ [])
       [(''draw'', 8), (''measure'', 0)] = Inr symtab \<and> symtab ''draw'' = Some 0x200 \<and> symtab ''measure'' = Some 0x100"
proof -
  let ?slots = "[0x8004101, 0, 0x8004201] :: int list" and ?fs = "[(''draw'', 8), (''measure'', 0)] :: (string \<times> nat) list"
  have t: "jump_table ?slots ?fs" "distinct (map fst ?fs)"
    by (auto simp: jump_table_def thumb_pointer_def less_Suc_eq)
  have "\<forall>k < 4. \<not> matches (jump_pattern 0 [0, 8]) (drop k ([9, 9, 0, 0] @ concat (map le32 ?slots) @ []))"
    by code_simp
  then have n: "\<forall>k < length ([9, 9, 0, 0] :: u8 list). \<not> matches (jump_pattern 0 (sort (map snd ?fs))) (drop k ([9, 9, 0, 0] @ concat (map le32 ?slots) @ []))"
    by simp
  from build_symbol_table_correct [OF t refl n, of True] show ?thesis
    by (simp add: MICROCODE_OFFSET_def BOOTLOADER_SIZE_def)
qed

section \<open>Checksums and resource packs\<close>

text \<open>
  The checksum computed bit by bit on unbounded integers is that of the 32-bit shift register
  of the CRC unit, word by word over the padded buffer, from any 32-bit start value.
\<close>

theorem process_buffer_register:
  assumes "0 \<le> c" "c < 2 ^ 32"
  shows "process_buffer buf c = uint (fold reg_word (map word_of_int (array_I (pad_buffer buf))) (word_of_int c))"
  by (rule process_buffer_reg [OF assms])

theorem process_buffer_register_witness:
  "process_buffer [1, 2, 3, 4] 0xffffffff = uint (fold reg_word [0x04030201] 0xffffffff)"
  using process_buffer_register [of "0xffffffff" "[1, 2, 3, 4]"] by (simp add: pad_buffer_def)

text \<open>
  A change of the data confined to one aligned word is always detected: two buffers that
  differ in such a word only have different checksums.
\<close>

theorem crc32_detects_word:
  assumes "length xs mod 4 = 0" "length ys mod 4 = 0" "length a = 4" "length b = 4" "a \<noteq> b"
  shows "crc32 (xs @ a @ ys) \<noteq> crc32 (xs @ b @ ys)"
  using assms(5) crc32_detects [OF assms(1-4)] by blast

theorem crc32_detects_word_witness:
  "crc32 ([9, 9, 9, 9] @ [1, 2, 3, 4] @ []) \<noteq> crc32 ([9, 9, 9, 9] @ [1, 2, 3, 5] @ [])"
  by (rule crc32_detects_word) simp_all

text \<open>
  C31. Packing and unpacking.  At most as many resources as the table has places, with identifiers and a total size that fit
  32 bits, are packed; each entry of the table records where in the data, which starts behind the table, the content of
  its resource lies, in the order of the identifiers, and the file holds each distinct content once.  The unpacker reads
  the same entries but takes the table to have 512 places: a file packed with 512 gives every resource back, while
  in any other it looks for the data as if the table had 512 places.
\<close>

theorem unpack_pack_resources:
  assumes "packable rs" "length rs \<le> max_resources"
  shows "\<exists>pack es. pack_resources rs max_resources = Inr pack \<and> read_entries (length rs) 0xC pack = Inr es \<and>
     map (read_data (0xC + max_resources * 16) pack) es = sort_key fst rs \<and>
     unpack_resources pack = Inr (map (read_data (0xC + 512 * 16) pack) es) \<and>
     (max_resources = 512 \<longrightarrow> unpack_resources pack = Inr (sort_key fst rs)) \<and>
     length pack = 0xC + max_resources * 16 + (\<Sum>d \<in> snd ` set rs. length d)"
  using pack_resources_read [OF assms] by fastforce

theorem unpack_pack_resources_witness:
  "\<exists>pack. pack_resources [(3, [7, 8]), (2, [7, 8]), (1, [5])] 512 = Inr pack \<and>
     unpack_resources pack = Inr [(1, [5]), (2, [7, 8]), (3, [7, 8])] \<and> length pack = 0xC + 512 * 16 + 3"
proof -
  have "packable [(3, [7, 8]), (2, [7, 8]), (1, [5])]" by (simp add: packable_def)
  from unpack_pack_resources [OF this, of 512] obtain pack where
    "pack_resources [(3, [7, 8]), (2, [7, 8]), (1, [5])] 512 = Inr pack"
    "unpack_resources pack = Inr (sort_key fst [(3, [7, 8]), (2, [7, 8]), (1, [5])])"
    "length pack = 0xC + 512 * 16 + (\<Sum>d \<in> snd ` set [(3 :: int, [7, 8 :: u8]), (2, [7, 8]), (1, [5])]. length d)" by auto
  then show ?thesis by simp
qed

section \<open>Font files\<close>

text \<open>
  C32. A font within the limits of the format, whose glyph data has the length its first two bytes say,
  can be written, and reading the file gives the same header fields and the same map from code points to
  glyph data.  In the narrow format this needs that the offsets, which count four bytes more than the
  length the format is chosen by, still fit 16 bits.
\<close>

theorem font_write_read:
  assumes "font_fits font" "readable font"
  shows "\<exists>pfo font'. font_write font = Inr pfo \<and> font_read pfo = Inr font' \<and> cmap font' = cmap font \<and>
     max_height font' = max_height font \<and> wildcard font' = wildcard font \<and> compressed font' = compressed font"
  using written [OF assms] read_written [OF _ assms(2)] by blast

theorem font_write_read_witness:
  "\<exists>pfo font'. font_write latin_font = Inr pfo \<and> font_read pfo = Inr font' \<and>
     (66, [1, 1, 0, 0, 4, 1, 0, 0, 0]) \<in> cmap font' \<and> max_height font' = 14"
  using font_write_read [OF sample_fonts(5,3)] by (auto simp: sample_fonts(1)) (auto simp: latin_font_def)

text \<open>
  Fonts of one kind, each with one glyph per code point, merge into a font in which every code point
  has the data of the last font that has it, with the height and wildcard of the first, in whatever order
  the dictionary of code points is listed; the result is again such a font.
\<close>

theorem merge_all_last:
  assumes "\<And>m. mset (py_items m) = mset m" "sound_font font"
    "\<forall>f \<in> set fonts. sound_font f \<and> compressed f = compressed font"
  shows "\<exists>r. merge_all py_items font fonts = Inr r \<and> sound_font r \<and>
     cmap r = fold (\<lambda>f A. over A (cmap f)) fonts (cmap font) \<and>
     max_height r = max_height font \<and> wildcard r = wildcard font \<and> compressed r = compressed font"
  using merge_all_over [OF assms] by blast

theorem merge_all_last_witness:
  "\<exists>r. merge_all rev latin_font [alef_font] = Inr r \<and> (66, [8, 1, 0, 0, 4, 255, 0, 0, 0]) \<in> cmap r \<and>
     (66, [1, 1, 0, 0, 4, 1, 0, 0, 0]) \<notin> cmap r \<and> (65, [2, 3, 0, 0, 4, 9, 0, 0, 0]) \<in> cmap r \<and> max_height r = 14"
  using merge_all_last [of rev latin_font "[alef_font]"] sample_fonts_sound
  by (auto simp: over_def sample_fonts(1,2)) (auto simp: latin_font_def alef_font_def)

section \<open>Generated fonts\<close>

text \<open>
  C33. The run-length encoding of glyphs.  Every bitmap can be encoded, in whole words of eight units; if there are at most
  255 units, which is what the header of a glyph can count, whatever the decoder leaves in the buffer of the watch is the
  bitmap, although it reads and writes the same buffer; and it succeeds if both forms fit the buffer together.
\<close>

theorem rle4_decodes:
  assumes "bitmap \<noteq> []"
  shows "\<exists>enc n. compress_glyph_RLE4 bitmap = Inr (enc, n) \<and> length enc = (n + 7) div 8 * 4 \<and>
     (n \<le> 255 \<longrightarrow>
       (\<forall>s. decode_in_place enc n = Inr s \<longrightarrow> take (length (bits_bytes bitmap)) (drop glyph_header_size (rs_buf s)) = bits_bytes bitmap) \<and>
       (glyph_header_size + (length bitmap + 7) div 8 + length enc \<le> GLYPH_BUFFER_SIZE_BYTES \<longrightarrow> check_decompress_glyph_RLE4 enc n = Inr True))"
proof -
  obtain enc n where c: "compress_glyph_RLE4 bitmap = Inr (enc, n)" using compress_units [of bitmap] by blast
  with compress_Inr [OF c] decode_in_place_correct [OF c _ assms] decode_in_place_fits [OF c _ assms] show ?thesis by blast
qed

theorem rle4_decodes_witness:
  "compress_glyph_RLE4 [True, True, False] = Inr ([0x09, 0, 0, 0], 2) \<and> check_decompress_glyph_RLE4 [0x09, 0, 0, 0] 2 = Inr True"
proof -
  have c: "compress_glyph_RLE4 [True, True, False] = Inr ([0x09, 0, 0, 0], 2)" by code_simp
  from rle4_decodes [of "[True, True, False]"] show ?thesis
    by (simp add: c glyph_header_size_def GLYPH_BUFFER_SIZE_BYTES_def)
qed

text \<open>
  C34. Composing a font.  For a font of the firmware whose name selects a template, dots that can be edited and glyphs that render, \<open>compose_font\<close>
  writes a file.  Read back, it has the glyphs of the firmware under those of the Arabic member under those of the Hebrew
  one: every code point has the data of the last that holds it.  Height and wildcard stay those of the firmware font.
  What the shaper has produced, for this font or for one before it, is kept.
\<close>

theorem composed_font:
  assumes "typefaces_ok tf"
    and "font_read pfo = Inr font" "sound_font font" "\<not> compressed font" "room_for_members (Domain (cmap font))"
    and "size_and_variant name = Inr (px, v)" "select_template px v key = Inr t"
    and "run_shaper tf subset_key (hd t) shaper = Inr (Some (T, codepts))" "text_shaper hb A = Inr (T, codepts)" "alphabet_ok A"
    and "\<forall>m \<in> set t. \<not> isl (run_fix_ijam tf m)" "\<forall>job \<in> set (template_jobs tf px (Some (T, codepts)) t). renders job"
  shows "\<exists>out r. compose_font tf subset_key key name pfo shaper = Inr (Some out, Some (T, codepts)) \<and> font_read out = Inr r \<and>
     cmap r = fold (\<lambda>job A. over A (job_chars job)) (template_jobs tf px (Some (T, codepts)) t) (cmap font) \<and>
     max_height r = max_height font \<and> wildcard r = wildcard font"
proof -
  have c: "shaper_map_ok codepts" by (rule shaper_map_generated [OF assms(9,10)])
  from composed_succeeds [OF assms(1-8) c assms(11,12)] obtain out where
    out: "compose_font tf subset_key key name pfo shaper = Inr (Some out, Some (T, codepts))" ..
  with composed_reads [OF assms(1-4,6-8) c out] show ?thesis by blast
qed

theorem composed_font_witness:
  "\<exists>pfo out r. font_write latin_font = Inr pfo \<and>
     compose_font sample_faces ''arabic'' ''small'' ''045_GOTHIC_14.pfo'' pfo (Some (demo, demo_codepts)) = Inr (Some out, Some (demo, demo_codepts)) \<and>
     font_read out = Inr r \<and> max_height r = 14"
proof -
  obtain pfo font where f: "font_write latin_font = Inr pfo" "font_read pfo = Inr font" "sound_font font" "\<not> compressed font"
    "cmap font = cmap latin_font" "max_height font = 14" by (rule latin_file)
  have "run_shaper sample_faces ''arabic'' (hd sample_template) (Some (demo, demo_codepts)) = Inr (Some (demo, demo_codepts))"
    by (simp add: run_shaper_def)
  from composed_font [OF sample_faces_ok f(2-4) _ sample_name this demo_generated demo_alphabet_ok sample_ijam sample_renders] f latin_room
  show ?thesis by auto
qed

text \<open>
  C35. Shaped text can be drawn.  With tables and fonts from one run of the shaper, \<open>shape_text\<close> leaves a text in which every
  rune was in the text before, or has a glyph in the font composed from an uncompressed font of the firmware with the map the
  shaper has written, or is the code point of a glyph that the typeface also has for a supplementary digit or
  punctuation mark, whose entry has replaced it in the map.
\<close>

theorem shaped_text_drawn:
  assumes "typefaces_ok tf" "font_read pfo = Inr font" "sound_font font" "\<not> compressed font"
    and "size_and_variant name = Inr (px, v)" "select_template px v key = Inr t"
    and "run_shaper tf subset_key (hd t) shaper = Inr (Some (T, codepts))"
    and "text_shaper hb A = Inr (T, codepts)" "alphabet_ok A"
    and "compose_font tf subset_key key name pfo shaper = Inr (Some out, sh)" "font_read out = Inr fnt"
    and "text_ok T rs"
  shows "\<exists>rs'. shape_text T (xs @ concat rs @ 0 # ys) (length xs) = Some (xs @ concat rs' @ 0 # ys) \<and>
     (\<forall>x \<in> set rs'. x \<in> set rs \<or> (\<exists>c. x = enc2 c \<and> ((\<exists>d. (uint c, d) \<in> cmap fnt) \<or> taken_over hb A (unat c))))"
proof -
  have "tables_ok T" using text_shaper_tables(1) [of hb A T] assms(8,9) by simp
  with assms(12) have "shape_text T (xs @ concat rs @ 0 # ys) (length xs) = Some (xs @ concat (shape_runes T rs) @ 0 # ys)"
    using shape.run_spec by blast
  with shaped_runes_drawn [OF assms(1-12)] show ?thesis by blast
qed

theorem shaped_text_drawn_witness:
  "\<exists>pfo out fnt rs'. compose_font sample_faces ''arabic'' ''small'' ''045_GOTHIC_14.pfo'' pfo (Some (demo, demo_codepts)) = Inr (Some out, Some (demo, demo_codepts)) \<and>
     font_read out = Inr fnt \<and> shape_text demo ([] @ concat demo_text @ 0 # []) 0 = Some ([] @ concat rs' @ 0 # []) \<and>
     (\<forall>x \<in> set rs'. x \<in> set demo_text \<or> (\<exists>c. x = enc2 c \<and> ((\<exists>d. (uint c, d) \<in> cmap fnt) \<or> taken_over demo_hb demo_alphabet (unat c))))"
proof -
  obtain pfo font where f: "font_write latin_font = Inr pfo" "font_read pfo = Inr font" "sound_font font" "\<not> compressed font"
    "cmap font = cmap latin_font" "max_height font = 14" by (rule latin_file)
  have sh: "run_shaper sample_faces ''arabic'' (hd sample_template) (Some (demo, demo_codepts)) = Inr (Some (demo, demo_codepts))"
    by (simp add: run_shaper_def)
  have c: "shaper_map_ok demo_codepts" by (rule shaper_map_generated [OF demo_generated demo_alphabet_ok])
  have "room_for_members (Domain (cmap font))" using latin_room f(5) by simp
  from composed_succeeds [OF sample_faces_ok f(2-4) this sample_name sh c sample_ijam sample_renders] obtain out where
    out: "compose_font sample_faces ''arabic'' ''small'' ''045_GOTHIC_14.pfo'' pfo (Some (demo, demo_codepts)) = Inr (Some out, Some (demo, demo_codepts))" ..
  from composed_reads [OF sample_faces_ok f(2-4) sample_name sh c out] obtain r where r: "font_read out = Inr r" by blast
  from shaped_text_drawn [OF sample_faces_ok f(2-4) sample_name sh demo_generated demo_alphabet_ok out r demo_text_ok, of "[]" "[]"]
  show ?thesis using out r by auto
qed

text \<open>
  C36. Compressed glyphs do not survive merging.  The generator puts the number of units where the height of a bitmap
  stands, and \<open>pfo_merge\<close> takes width times that number for the bits of the bitmap.  A glyph two pixels wide with 9 to 16
  units has 13 bytes, of which \<open>pfo_merge\<close> keeps nine.
\<close>

theorem compressed_glyph_cut:
  assumes "glyph_bits f load_glyph files c (Glyph_Index i) = Inr d" "fg_features f AND FEATURE_RLE4 \<noteq> 0"
    and "files c i = None" "ft_rows (load_glyph i) \<noteq> 0" "ft_width (load_glyph i) = 2"
    and "glyph_bitmap (fg_threshold f) (load_glyph i) = Inr bitmap" "9 \<le> length (rle_unit_list bitmap)" "length (rle_unit_list bitmap) \<le> 16"
    and "stored (drop gb pfo) (nat k) d"
  shows "length d = 13 \<and> add_glyph pfo gb c k [] = Inr [(k, \<lparr>codepoints = [c], gdata = take 9 d\<rparr>)]"
  by (rule read_compressed [OF assms])

theorem compressed_glyph_cut_witness:
  "add_glyph [2, 12, 0, 9, 3, 8, 8, 8, 8, 8, 8, 0, 0] 0 65 0 [] = Inr [(0, \<lparr>codepoints = [65], gdata = [2, 12, 0, 9, 3, 8, 8, 8, 8]\<rparr>)]"
proof -
  have "fg_features (hebrew_job\<lparr>fg_features := 2\<rparr>) AND FEATURE_RLE4 \<noteq> 0" by (simp add: FEATURE_RLE4_def)
  moreover have "glyph_bitmap (fg_threshold (hebrew_job\<lparr>fg_features := 2\<rparr>)) comb_glyph = Inr (concat (replicate 6 [True, False]))"
    using comb_glyph_bits(2) by (simp add: hebrew_job_def)
  moreover have "stored (drop 0 [2, 12, 0, 9, 3, 8, 8, 8, 8, 8, 8, 0, 0]) (nat 0) [2, 12, 0, 9, 3, 8, 8, 8, 8, 8, 8, 0, 0]"
    by (simp add: stored_def)
  moreover note c = comb_glyph_bits(1) [of 65 0] and n = comb_glyph_bits(3)
  ultimately show ?thesis
    using compressed_glyph_cut [of "hebrew_job\<lparr>fg_features := 2\<rparr>" "\<lambda>_. comb_glyph" "\<lambda>_ _. None" 65 0 "[2, 12, 0, 9, 3, 8, 8, 8, 8, 8, 8, 0, 0]"
        "concat (replicate 6 [True, False])" 0 "[2, 12, 0, 9, 3, 8, 8, 8, 8, 8, 8, 0, 0]" 0]
    by (simp add: comb_glyph_def)
qed

text \<open>
  C37. The dots of Arabic letters.  Where \<open>process_glyph\<close> writes a file, it is a bitmap that can be read back and is at least
  as large.  There are fixed shifts such that every pixel of ink is kept: it is in the new bitmap at one shift, and then it
  was not isolated, or it belongs to a square of two by two pixels at the other.
\<close>

theorem fix_ijam_keeps_ink:
  assumes "process_glyph order d = Inr (Some d')"
  shows "\<exists>bmp bmp' dx dy ox. read_bitmap d = Inr bmp \<and> read_bitmap d' = Inr bmp' \<and> gf_width d \<le> gf_width d' \<and> gf_height d \<le> gf_height d' \<and>
     (\<forall>p \<in> set bmp. (fst p + dx, snd p + dy) \<in> set bmp' \<and> \<not> check_isolated bmp p [] \<or>
        (\<exists>h \<in> {- 1, 1}. \<exists>v \<in> {- 1, 1}. square (fst p + ox, snd p + dy) h v \<subseteq> set bmp'))"
  by (rule process_glyph_keeps [OF assms])

theorem fix_ijam_keeps_ink_witness:
  "process_glyph id beh_file = Inr (Some bold_beh_file) \<and> (\<exists>bmp'. read_bitmap bold_beh_file = Inr bmp')"
  using beh_processed fix_ijam_keeps_ink [OF beh_processed] by blast

section \<open>Sites and language packs\<close>

text \<open>
  C38. The part of the disassembly that \<open>match\<close> searches.  The disassembly has an instruction at address zero and the bounds
  given are not negative.  Then, if there is an instruction at or after the end, the two walks through the index end: at
  the line of the last instruction at or before the start and at that of the first one at or after the end, or at the
  ends of the text where no bound, or zero, is given.  If there is none, the second walk does not end.
\<close>

theorem match_bounds_returns:
  assumes "target_deasm_index 0 \<noteq> None" "case start of None \<Rightarrow> True | Some a \<Rightarrow> 0 \<le> a" "case stop of None \<Rightarrow> True | Some b \<Rightarrow> 0 \<le> b"
  shows "if case stop of None \<Rightarrow> True | Some b \<Rightarrow> \<exists>a \<ge> b. target_deasm_index a \<noteq> None
    then \<exists>i j. match_bounds target_deasm_index len start stop = Some (Inr (i, j)) \<and>
      (if start \<in> {None, Some 0} then i = 0 else last_line_to target_deasm_index (the start) i) \<and>
      (if stop \<in> {None, Some 0} then j = len else first_line_from target_deasm_index (the stop) j)
    else match_bounds target_deasm_index len start stop = None"
  by (rule match_bounds_ends [of target_deasm_index start stop, OF assms])

theorem match_bounds_returns_witness:
  "(\<exists>i j. match_bounds [0 \<mapsto> 0, 2 \<mapsto> 9, 6 \<mapsto> 20] 30 (Some 5) (Some 3) = Some (Inr (i, j)) \<and>
      last_line_to [0 \<mapsto> 0, 2 \<mapsto> 9, 6 \<mapsto> 20] 5 i \<and> first_line_from [0 \<mapsto> 0, 2 \<mapsto> 9, 6 \<mapsto> 20] 3 j) \<and>
   match_bounds [0 \<mapsto> 0, 2 \<mapsto> 9, 6 \<mapsto> 20] 30 (Some 5) (Some 7) = None"
proof
  let ?ix = "[0 \<mapsto> 0, 2 \<mapsto> 9, 6 \<mapsto> 20] :: int \<Rightarrow> nat option"
  have "\<exists>a \<ge> 3. ?ix a \<noteq> None" by (rule exI [of _ 6]) simp
  then show "\<exists>i j. match_bounds ?ix 30 (Some 5) (Some 3) = Some (Inr (i, j)) \<and> last_line_to ?ix 5 i \<and> first_line_from ?ix 3 j"
    using match_bounds_returns [of ?ix "Some 5" "Some 3" 30] by simp
  have "\<not> (\<exists>a \<ge> 7. ?ix a \<noteq> None)" by auto
  then show "match_bounds ?ix 30 (Some 5) (Some 7) = None"
    using match_bounds_returns [of ?ix "Some 5" "Some 7" 30] by simp
qed

text \<open>
  C39. Wrapping a routine, from the request to the image.  For a wrap of a symbol the queue of all requests leads to an
  image in which the entry of the routine branches to the wrapper.  The stub through which the wrapper reaches the routine
  assembles to the bytes that were overwritten, which are whole instructions, and a branch to the instruction after them.
\<close>

theorem wrap_installs:
  assumes "queue_hooks hw bin hs [] = Inr ops" "finalize hw platform syms code ops bin = Inr img"
    and "sites_apart (map fst (concat (map hook_branch hs)))"
      "\<forall>b \<in> set (concat (map hook_branch hs)). target_ok syms (MICROCODE_OFFSET hw) (length bin) (length img) b"
    and "Wrap dest m ret True \<in> set hs" "match_symbol symtab deasm f = Inr m" "symtab f = Some addr" "addr \<in> S" "z \<in> S" "addr + 4 \<le> z"
    and "instruction_starts S" "lists_addresses deasm S" "CHR 0x0A \<notin> set dest"
  shows "syms dest = Some (branch_target img addr + MICROCODE_OFFSET hw) \<and>
     (\<exists>e asm. e \<in> S \<and> addr + 4 \<le> e \<and> PatchDefineSymbol (dest @ ''__return'') (nat (MICROCODE_OFFSET hw) + e) \<in> set ops \<and>
        PatchAppendAsm (dest @ ''__passthru'') asm ret \<in> set ops \<and>
        assembled asm = (take (e - addr) (drop addr bin), [''B '' @ dest @ ''__return'', []]))"
  by (rule wrap_installed [OF assms])

theorem wrap_installs_witness:
  "\<exists>ops asm img. queue_hooks False [1, 2, 3, 4, 5, 6, 7, 8, 9] [Wrap ''f'' sample_match ''void'' True] [] = Inr ops \<and>
     finalize False ''basalt'' [''f'' \<mapsto> 0x800000A] [0x70, 0x47] ops [1, 2, 3, 4, 5, 6, 7, 8, 9] = Inr img \<and>
     branch_target img 2 = 0xA \<and> PatchAppendAsm ''f__passthru'' asm ''void'' \<in> set ops \<and> fst (assembled asm) = [3, 4, 5, 6, 7, 8]"
proof -
  let ?bin = "[1, 2, 3, 4, 5, 6, 7, 8, 9] :: u8 list" and ?hs = "[Wrap ''f'' sample_match ''void'' True]"
  let ?syms = "[''f'' \<mapsto> 0x800000A] :: string \<Rightarrow> int option"
  let ?img = "[1, 2, 0x00, 0xF0, 0x02, 0xB8, 7, 8, 9, 0, 0x70, 0x47] :: u8 list"
  obtain ops where q: "queue_hooks False ?bin ?hs [] = Inr ops"
    and f: "finalize False ''basalt'' ?syms [0x70, 0x47] ops ?bin = Inr ?img" by (rule sample_wrap)
  have b: "concat (map hook_branch ?hs) = [(2, ''f'')]" by (simp add: sample_match_def)
  have "sites_apart (map fst (concat (map hook_branch ?hs)))"
    "\<forall>b \<in> set (concat (map hook_branch ?hs)). target_ok ?syms (MICROCODE_OFFSET False) (length ?bin) (length ?img) b"
    unfolding b by (simp_all add: target_ok_def MICROCODE_OFFSET_def BOOTLOADER_SIZE_def)
  from wrap_installs [OF q f this, of "''f''" sample_match "''void''" "[''g'' \<mapsto> 2]" sample_deasm "''g''" 2 "{0, 2, 4, 8}" 8] sample_sites
  obtain e asm where e: "e \<in> {0, 2, 4, 8}" "2 + 4 \<le> e" "PatchAppendAsm (''f'' @ ''__passthru'') asm ''void'' \<in> set ops"
    "assembled asm = (take (e - 2) (drop 2 ?bin), [''B '' @ ''f'' @ ''__return'', []])"
    and t: "?syms ''f'' = Some (branch_target ?img 2 + MICROCODE_OFFSET False)" by auto
  have "e = 8" using e(1,2) by auto
  with e(4) have "fst (assembled asm) = [3, 4, 5, 6, 7, 8]" by simp
  with q f e(3) t show ?thesis by (auto simp: MICROCODE_OFFSET_def BOOTLOADER_SIZE_def)
qed

text \<open>
  C40. The fonts of a language pack are looked up by a pattern that the file of the bold variant matches too.  If the
  directory lists that file, which is not a hidden one, before every file whose name has that of the regular font in it, then
  the resource of the regular font holds the data of the bold one and nothing else, as does that of the bold font.
\<close>

theorem langpack_bold_for_regular:
  assumes "i \<in> {0, 2, 4, 6}" and "files = pre @ (bold, pfo) # post"
    and "\<forall>f \<in> set pre. \<not> py_in (font_seq ! i) (fst f)" and "py_in (font_seq ! (i + 1)) bold" and "take 1 bold \<noteq> ''.''"
  shows "((int i + 2, d) \<in> set (langpack_resmap mo files) \<longleftrightarrow> d = pfo) \<and> ((int i + 3, d) \<in> set (langpack_resmap mo files) \<longleftrightarrow> d = pfo)"
  using langpack_bold [OF assms] by blast

theorem langpack_bold_for_regular_witness:
  "(2, [1]) \<in> set (langpack_resmap [] [(''046_GOTHIC_14_BOLD.pfo'', [1]), (''045_GOTHIC_14.pfo'', [0])]) \<and>
   (2, [0]) \<notin> set (langpack_resmap [] [(''046_GOTHIC_14_BOLD.pfo'', [1]), (''045_GOTHIC_14.pfo'', [0])])"
proof -
  have "py_in (font_seq ! (0 + 1)) ''046_GOTHIC_14_BOLD.pfo''" "take 1 ''046_GOTHIC_14_BOLD.pfo'' \<noteq> ''.''" by code_simp+
  then show ?thesis
    using langpack_bold_for_regular [of 0 "[(''046_GOTHIC_14_BOLD.pfo'', [1]), (''045_GOTHIC_14.pfo'', [0])]" "[]"
        "''046_GOTHIC_14_BOLD.pfo''" "[1]" "[(''045_GOTHIC_14.pfo'', [0])]"] by simp
qed

end
